(* ===== verification/Prelude.thy ===== *)
theory Prelude
  imports Main "HOL-Library.Word" "HOL-Library.Sublist"
begin

text \<open>
  What every component shares: the type synonyms of the model, Go's \<open>int64\<close> arithmetic
  and PostgreSQL's INTEGER range, the ASCII part of Go's string functions, and generic
  lemmas on lists and on tables (lists of rows updated in place). The collections
  \<open>row_simps\<close> (what a statement does to a row), \<open>inv_intros\<close> (operations keep the
  database invariant) and \<open>evolve_intros\<close> (operations only move rows forward) are
  filled by the component theories.
\<close>

named_theorems row_simps
named_theorems inv_intros
named_theorems evolve_intros

subsection \<open>Types\<close>

text \<open>
  A Go string is a byte sequence, here a \<open>char list\<close>. A point in time (a \<open>time.Time\<close>
  or a TIMESTAMPTZ) is the number of nanoseconds since the Unix epoch, a
  \<open>time.Duration\<close> a number of nanoseconds. A UUID is its 16 bytes read as a number.
\<close>

type_synonym time = int
type_synonym duration = int
type_synonym uuid = "128 word"

subsection \<open>Errors\<close>

text \<open>
  The errors of the program, one constructor per place that makes one; \<open>Wrap\<close> is
  \<open>fmt.Errorf\<close> with a \<open>%w\<close> verb. \<open>ConnError\<close> stands for what a driver or the network
  reports, \<open>PgError\<close> for PostgreSQL's error with its code, \<open>EncodeError\<close> for a parameter
  the driver cannot encode for its column. A run-time panic is the constructor \<open>Panic\<close>,
  which no caller wraps.
\<close>

datatype goerr =
    ConnError string
  | PgError string
  | EncodeError
  | ErrNoRows
  | ErrNotFound
  | Wrap string goerr
  | UserIDRequired
  | AmountOutOfRange
  | ChainRequired
  | ChainNotEnabled string
  | InvalidOffsetRange int int
  | NoUniqueAmount string int
  | NoWatcher string
  | Invalid string string
  | StatusError string int string
  | RpcError string int string
  | ContextDone
  | Panic string

type_synonym 'a res = "goerr + 'a"

text \<open>\<open>errors.Is\<close> and \<open>errors.As\<close> follow the chain of wrapped errors.\<close>

fun errors_is :: "goerr \<Rightarrow> goerr \<Rightarrow> bool" where
  "errors_is (Wrap m e) t = (Wrap m e = t \<or> errors_is e t)"
| "errors_is e t = (e = t)"

fun as_pg_error :: "goerr \<Rightarrow> string option" where
  "as_pg_error (PgError c) = Some c"
| "as_pg_error (Wrap m e) = as_pg_error e"
| "as_pg_error _ = None"

definition is_panic :: "goerr \<Rightarrow> bool" where
  "is_panic e \<longleftrightarrow> (case e of Panic _ \<Rightarrow> True | _ \<Rightarrow> False)"

subsection \<open>Integers at their width\<close>

definition i64 :: "int \<Rightarrow> int" where
  "i64 x = (x + 2 ^ 63) mod 2 ^ 64 - 2 ^ 63"

definition in_i64 :: "int \<Rightarrow> bool" where
  "in_i64 x \<longleftrightarrow> - (2 ^ 63) \<le> x \<and> x < 2 ^ 63"

definition in_i32 :: "int \<Rightarrow> bool" where
  "in_i32 x \<longleftrightarrow> - (2 ^ 31) \<le> x \<and> x < 2 ^ 31"

lemma i64_id [simp]: "in_i64 x \<Longrightarrow> i64 x = x"
  by (simp add: i64_def in_i64_def)

lemma in_i64_i64 [simp]: "in_i64 (i64 x)"
proof -
  have "0 \<le> (x + 2 ^ 63) mod 2 ^ 64" "(x + 2 ^ 63) mod 2 ^ 64 < 2 ^ 64" by simp_all
  then show ?thesis unfolding i64_def in_i64_def by simp
qed

lemma i64_idem [simp]: "i64 (i64 x) = i64 x"
  by (rule i64_id) simp

lemma in_i64_between: "in_i64 a \<Longrightarrow> in_i64 b \<Longrightarrow> a \<le> x \<Longrightarrow> x \<le> b \<Longrightarrow> in_i64 x"
  by (auto simp: in_i64_def)

subsection \<open>ASCII strings\<close>

definition lower_char :: "char \<Rightarrow> char" where
  "lower_char c =
     (let n = of_char c :: nat in if 65 \<le> n \<and> n \<le> 90 then char_of (n + 32) else c)"

text \<open>\<open>strings.ToLower\<close> and \<open>strings.EqualFold\<close> on ASCII bytes.\<close>

definition to_lower :: "string \<Rightarrow> string" where
  "to_lower s = map lower_char s"

definition equal_fold :: "string \<Rightarrow> string \<Rightarrow> bool" where
  "equal_fold s t \<longleftrightarrow> to_lower s = to_lower t"

text \<open>\<open>strings.TrimPrefix\<close>.\<close>

definition trim_prefix :: "string \<Rightarrow> string \<Rightarrow> string" where
  "trim_prefix s p = (if prefix p s then drop (length p) s else s)"

lemma length_to_lower [simp]: "length (to_lower s) = length s"
  by (simp add: to_lower_def)

lemma equal_fold_refl [simp]: "equal_fold s s"
  by (simp add: equal_fold_def)

lemma equal_fold_sym: "equal_fold s t \<longleftrightarrow> equal_fold t s"
  by (auto simp: equal_fold_def)

lemma trim_prefix_append [simp]: "trim_prefix (p @ s) p = s"
  by (simp add: trim_prefix_def)

subsection \<open>Lists and tables\<close>

text \<open>
  An SQL UPDATE maps the rows it selects and leaves the others where they are.
\<close>

definition update_rows :: "('r \<Rightarrow> bool) \<Rightarrow> ('r \<Rightarrow> 'r) \<Rightarrow> 'r list \<Rightarrow> 'r list" where
  "update_rows P f rows = map (\<lambda>r. if P r then f r else r) rows"

lemma update_rows_simps [simp]:
  "update_rows P f [] = []"
  "update_rows P f (r # rs) = (if P r then f r else r) # update_rows P f rs"
  by (simp_all add: update_rows_def)

lemma length_update_rows [simp]: "length (update_rows P f rows) = length rows"
  by (simp add: update_rows_def)

lemma set_update_rows:
  "set (update_rows P f rows) = f ` {r \<in> set rows. P r} \<union> {r \<in> set rows. \<not> P r}"
  by (auto simp: update_rows_def)

lemma in_update_rowsE:
  assumes "r' \<in> set (update_rows P f rows)"
  obtains (changed) r where "r \<in> set rows" "P r" "r' = f r"
        | (kept) "r' \<in> set rows" "\<not> P r'"
  using assms by (auto simp: set_update_rows)

lemma update_rows_none: "\<forall>r\<in>set rows. \<not> P r \<Longrightarrow> update_rows P f rows = rows"
  by (induction rows) auto

lemma map_key_update_rows:
  "(\<And>r. r \<in> set rows \<Longrightarrow> P r \<Longrightarrow> k (f r) = k r) \<Longrightarrow> map k (update_rows P f rows) = map k rows"
  by (induction rows) auto

lemma sorted_wrt_mapI:
  "sorted_wrt R xs \<Longrightarrow> (\<And>x y. x \<in> set xs \<Longrightarrow> y \<in> set xs \<Longrightarrow> R x y \<Longrightarrow> S (f x) (f y))
    \<Longrightarrow> sorted_wrt S (map f xs)"
  by (induction xs) auto

text \<open>
  With a symmetric relation, \<open>sorted_wrt\<close> is "every two rows at different positions".
\<close>

lemma sorted_wrt_sym_in:
  assumes "sorted_wrt R xs" and sym: "\<And>x y. R x y \<Longrightarrow> R y x"
    and "x \<in> set xs" "y \<in> set xs" "x \<noteq> y"
  shows "R x y"
  using assms(1,3,4,5)
  by (induction xs) (auto intro: sym)

text \<open>The head of a table sorted by a key, \<open>ORDER BY key ASC LIMIT 1\<close>.\<close>

lemma sort_key_hd_min:
  assumes "sort_key k xs = y # ys"
  shows "y \<in> set xs" "\<And>x. x \<in> set xs \<Longrightarrow> k y \<le> k x"
proof -
  have s: "set xs = set (y # ys)" by (metis assms set_sort)
  then show "y \<in> set xs" by simp
  have "sorted (map k (y # ys))" by (metis assms sorted_sort_key)
  with s show "\<And>x. x \<in> set xs \<Longrightarrow> k y \<le> k x" by auto
qed

lemma sort_key_Nil_iff [simp]: "sort_key k xs = [] \<longleftrightarrow> xs = []"
  by (metis length_0_conv length_sort)

lemma filter_Nil_iff: "filter P xs = [] \<longleftrightarrow> (\<forall>x\<in>set xs. \<not> P x)"
  by (simp add: filter_empty_conv)

lemma ex_rev_list: "(\<And>x. x \<in> set xs \<Longrightarrow> \<exists>y\<in>set ys. Q x y) \<Longrightarrow> set zs \<subseteq> set xs
    \<Longrightarrow> \<forall>x\<in>set zs. \<exists>y\<in>set ys. Q x y"
  by blast

end
