(* ===== verification/Money.thy ===== *)
theory Money
  imports Prelude Complex_Main
begin

text \<open>
  Amounts of money. A \<open>decimal.Decimal\<close> is an exact decimal number; the code adds,
  subtracts, multiplies, compares and shifts it, which is exact, so an amount is the
  rational number it denotes. What the package does beyond exact arithmetic (division,
  which rounds, parsing and printing) is not code of the repository: it is the record
  \<open>decimal_lib\<close>, a parameter of every definition that uses it, and the locale
  \<open>decimal_library\<close> states what the package documents about it.
  The columns of the schema are NUMERIC(20,8): storing an amount rounds it to eight places
  and fails when more than twelve digits are left of the point.
\<close>

type_synonym amount = rat

subsection \<open>Rounding half away from zero\<close>

definition round_half :: "nat \<Rightarrow> rat \<Rightarrow> rat" where
  "round_half n x = sgn x * of_int \<lfloor>\<bar>x\<bar> * 10 ^ n + 1 / 2\<rfloor> / 10 ^ n"

lemma round_half_0 [simp]: "round_half n 0 = 0"
  by (simp add: round_half_def)

lemma round_half_nonneg: "0 \<le> x \<Longrightarrow> round_half n x = of_int \<lfloor>x * 10 ^ n + 1 / 2\<rfloor> / 10 ^ n"
  by (cases "x = 0") (simp_all add: round_half_def floor_divide_of_nat_eq [of 1 2, simplified])

lemma round_half_mono:
  assumes "0 \<le> x" "x \<le> y"
  shows "round_half n x \<le> round_half n y"
proof -
  have "\<lfloor>x * 10 ^ n + 1 / 2\<rfloor> \<le> \<lfloor>y * 10 ^ n + 1 / 2\<rfloor>"
    using assms by (intro floor_mono) (simp add: mult_right_mono)
  with assms show ?thesis by (simp add: round_half_nonneg divide_right_mono)
qed

lemma round_half_ge_0: "0 \<le> x \<Longrightarrow> 0 \<le> round_half n x"
  using round_half_mono [of 0 x n] by simp

text \<open>A number that has at most \<open>n\<close> decimal places is not changed.\<close>

definition has_places :: "nat \<Rightarrow> rat \<Rightarrow> bool" where
  "has_places n x \<longleftrightarrow> x * 10 ^ n \<in> \<int>"

lemma has_places_int_div [simp]: "has_places n (of_int k / 10 ^ n)"
  by (simp add: has_places_def)

lemma has_places_add: "has_places n x \<Longrightarrow> has_places n y \<Longrightarrow> has_places n (x + y)"
  by (simp add: has_places_def distrib_right)

lemma round_half_exact:
  assumes "has_places n x" "0 \<le> x"
  shows "round_half n x = x"
proof -
  from assms(1) obtain k where k: "x * 10 ^ n = of_int k"
    unfolding has_places_def by (elim Ints_cases)
  have "\<lfloor>x * 10 ^ n + 1 / 2\<rfloor> = k" unfolding k by linarith
  with k assms(2) show ?thesis
    by (simp add: round_half_nonneg divide_eq_eq)
qed

lemma round_half_has_places [simp]: "has_places n (round_half n x)"
proof -
  have "round_half n x * 10 ^ n = sgn x * of_int \<lfloor>\<bar>x\<bar> * 10 ^ n + 1 / 2\<rfloor>"
    by (simp add: round_half_def)
  also have "\<dots> \<in> \<int>" by (intro Ints_mult) (auto simp: sgn_if)
  finally show ?thesis by (simp add: has_places_def)
qed

lemma round_half_error:
  assumes "0 \<le> x"
  shows "\<bar>round_half n x - x\<bar> \<le> 1 / (2 * 10 ^ n)"
proof -
  let ?k = "\<lfloor>x * 10 ^ n + 1 / 2\<rfloor>"
  have b: "of_int ?k \<le> x * 10 ^ n + 1 / 2" "x * 10 ^ n + 1 / 2 < of_int ?k + 1"
    by linarith+
  have "\<bar>of_int ?k - x * 10 ^ n\<bar> \<le> 1 / 2" using b by linarith
  moreover have "round_half n x - x = (of_int ?k - x * 10 ^ n) / 10 ^ n"
    using assms by (simp add: round_half_nonneg diff_divide_distrib)
  moreover have "\<bar>z / 10 ^ n\<bar> = \<bar>z\<bar> / 10 ^ n" for z :: rat
    by (simp add: abs_divide)
  ultimately show ?thesis by (simp add: divide_right_mono [of _ "1 / 2", simplified])
qed

lemma round_half_minus [simp]: "round_half n (- x) = - round_half n x"
  by (simp add: round_half_def)

lemma round_half_close: "\<bar>round_half n x - x\<bar> \<le> 1 / (2 * 10 ^ n)"
proof (cases "0 \<le> x")
  case False
  then have "\<bar>round_half n (- x) - (- x)\<bar> \<le> 1 / (2 * 10 ^ n)" by (intro round_half_error) simp
  then show ?thesis by (simp add: abs_minus_commute)
qed (rule round_half_error)

subsection \<open>NUMERIC(20,8)\<close>

definition numeric20_8 :: "amount \<Rightarrow> amount option" where
  "numeric20_8 x = (let y = round_half 8 x in if \<bar>y\<bar> < 10 ^ 12 then Some y else None)"

lemma numeric20_8_exact:
  "has_places 8 x \<Longrightarrow> 0 \<le> x \<Longrightarrow> x < 10 ^ 12 \<Longrightarrow> numeric20_8 x = Some x"
  by (simp add: numeric20_8_def round_half_exact)

lemma numeric20_8_SomeD:
  "numeric20_8 x = Some y \<Longrightarrow> y = round_half 8 x \<and> has_places 8 y \<and> \<bar>y\<bar> < 10 ^ 12"
  by (auto simp: numeric20_8_def Let_def split: if_splits)

subsection \<open>The decimal package\<close>

text \<open>
  \<open>dec_div\<close> is \<open>Decimal.Div\<close>, \<open>dec_string\<close> is \<open>Decimal.String\<close>, \<open>dec_parse\<close> is
  \<open>decimal.NewFromString\<close> (None: it returned an error).
\<close>

record decimal_lib =
  dec_div :: "amount \<Rightarrow> amount \<Rightarrow> amount"
  dec_string :: "amount \<Rightarrow> string"
  dec_parse :: "string \<Rightarrow> amount option"

text \<open>
  The package documents \<open>Div\<close> as the quotient rounded to \<open>DivisionPrecision\<close> = 16 places,
  half away from zero.
\<close>

locale decimal_library =
  fixes lib :: decimal_lib
  assumes div_rounds: "b \<noteq> 0 \<Longrightarrow> dec_div lib a b = round_half 16 (a / b)"
begin

lemma div_mono:
  assumes "0 < b" "0 < d" "0 \<le> a" "a / b \<le> c / d"
  shows "dec_div lib a b \<le> dec_div lib c d"
  using assms by (simp add: div_rounds round_half_mono)

lemma div_error:
  assumes "0 < b" "0 \<le> a"
  shows "\<bar>dec_div lib a b - a / b\<bar> \<le> 1 / (2 * 10 ^ 16)"
  using assms round_half_error [of "a / b" 16] by (simp add: div_rounds)

end

text \<open>
  A concrete library with that behaviour, for the closed instances of the properties; what
  it prints and parses plays no part in them.
\<close>

definition reference_decimal :: decimal_lib where
  "reference_decimal =
     \<lparr>dec_div = (\<lambda>a b. round_half 16 (a / b)), dec_string = (\<lambda>_. []), dec_parse = (\<lambda>_. None)\<rparr>"

interpretation ref_dec: decimal_library reference_decimal
  by unfold_locales (simp add: reference_decimal_def)

end
