(* ===== verification/Schema.thy ===== *)
theory Schema
  imports Money
begin

text \<open>
  The database of \<open>migrations/000001_init_schema.up.sql\<close>: one record per table row (with
  the fields of \<open>internal/orders/models.go\<close> for orders), the constraints and unique
  indexes, and how a statement reaches the server. A table is the list of its rows in
  scan order. Then the invariant \<open>db_ok\<close> of every reachable database, and the preorder
  \<open>db_evolves\<close>: what an operation may do to the rows that were there before it.
\<close>

subsection \<open>Rows\<close>

datatype status = Pending | Confirming | Confirmed | Underpaid | Expired

record order =
  o_id :: uuid
  o_user_id :: string
  o_chain :: string
  o_token :: string
  o_base :: amount
  o_expected :: amount
  o_received :: "amount option"
  o_status :: status
  o_tx :: "string option"
  o_height :: "int option"
  o_confs :: int
  o_required :: int
  o_created :: time
  o_expires :: time
  o_confirmed_at :: "time option"
  o_updated :: time

datatype review_reason = ReasonUnmatched | ReasonUnderpaid

datatype review_status = Open | Resolved

record review_item =
  r_chain :: string
  r_tx :: string
  r_amount :: amount
  r_reason :: review_reason
  r_order :: "uuid option"
  r_status :: review_status
  r_detected :: time

text \<open>The details of an audit entry, a JSON object (None: the JSON value null).\<close>

datatype jval = JStr string | JInt int | JStatus status

record audit_entry =
  a_order :: "uuid option"
  a_chain :: string
  a_tx :: string
  a_event :: string
  a_details :: "(string \<times> jval) list option"
  a_created :: time

record cursor_row =
  c_height :: int
  c_at :: "time option"
  c_updated :: time

record db =
  orders :: "order list"
  reviews :: "review_item list"
  audit :: "audit_entry list"
  cursors :: "string \<rightharpoonup> cursor_row"

definition empty_db :: db where
  "empty_db = \<lparr>orders = [], reviews = [], audit = [], cursors = Map.empty\<rparr>"

subsection \<open>Unique indexes and checks\<close>

text \<open>
  Two rows of \<open>orders\<close> conflict when the primary key, \<open>idx_orders_chain_pending_amount\<close> or
  \<open>idx_orders_chain_txhash\<close> forbids them together.
\<close>

definition same_id :: "order \<Rightarrow> order \<Rightarrow> bool" where
  "same_id a b \<longleftrightarrow> o_id a = o_id b"

definition same_pending_amount :: "order \<Rightarrow> order \<Rightarrow> bool" where
  "same_pending_amount a b \<longleftrightarrow>
     o_status a = Pending \<and> o_status b = Pending \<and> o_chain a = o_chain b \<and>
     o_expected a = o_expected b"

definition same_tx :: "order \<Rightarrow> order \<Rightarrow> bool" where
  "same_tx a b \<longleftrightarrow> o_tx a \<noteq> None \<and> o_tx a = o_tx b \<and> o_chain a = o_chain b"

definition conflicts :: "order \<Rightarrow> order \<Rightarrow> bool" where
  "conflicts a b \<longleftrightarrow> same_id a b \<or> same_pending_amount a b \<or> same_tx a b"

lemmas conflict_defs = conflicts_def same_id_def same_pending_amount_def same_tx_def

lemma conflicts_sym: "conflicts a b \<longleftrightarrow> conflicts b a"
  by (auto simp: conflict_defs)

definition unique_ok :: "order list \<Rightarrow> bool" where
  "unique_ok rows \<longleftrightarrow> sorted_wrt (\<lambda>a b. \<not> conflicts a b) rows"

lemma unique_ok_Nil [simp]: "unique_ok []"
  by (simp add: unique_ok_def)

lemma unique_ok_append1:
  "unique_ok (rows @ [r]) \<longleftrightarrow> unique_ok rows \<and> (\<forall>q\<in>set rows. \<not> conflicts q r)"
  by (auto simp: unique_ok_def sorted_wrt_append)

lemma unique_okD:
  assumes "unique_ok rows" "a \<in> set rows" "b \<in> set rows" "a \<noteq> b"
  shows "\<not> conflicts a b"
  using assms sorted_wrt_sym_in [of "\<lambda>a b. \<not> conflicts a b" rows a b]
  by (auto simp: unique_ok_def conflicts_sym)

lemma unique_ok_idD:
  "unique_ok rows \<Longrightarrow> a \<in> set rows \<Longrightarrow> b \<in> set rows \<Longrightarrow> o_id a = o_id b \<Longrightarrow> a = b"
  using unique_okD by (fastforce simp: conflict_defs)

lemma unique_ok_txD:
  "unique_ok rows \<Longrightarrow> a \<in> set rows \<Longrightarrow> b \<in> set rows \<Longrightarrow> o_chain a = o_chain b \<Longrightarrow>
   o_tx a = Some t \<Longrightarrow> o_tx b = Some t \<Longrightarrow> a = b"
  using unique_okD by (fastforce simp: conflict_defs)

lemma unique_ok_pendingD:
  "unique_ok rows \<Longrightarrow> a \<in> set rows \<Longrightarrow> b \<in> set rows \<Longrightarrow> o_chain a = o_chain b \<Longrightarrow>
   o_status a = Pending \<Longrightarrow> o_status b = Pending \<Longrightarrow> o_expected a = o_expected b \<Longrightarrow> a = b"
  using unique_okD by (fastforce simp: conflict_defs)

subsection \<open>Statements\<close>

text \<open>
  The round trips of the program. What happens to one is decided by the environment:
  it runs (\<open>Runs\<close>), it fails before the server executes it (\<open>NotRun\<close>), or the server
  executes it and the reply is lost (\<open>ReplyLost\<close>). The environment also gives the clock
  of each statement (\<open>now()\<close>, or \<open>time.Now()\<close> on the way to it) and the rows other
  transactions hold locked, which \<open>SKIP LOCKED\<close> passes over.
\<close>

datatype stmt =
    InsertOrder nat
  | SelectOrder
  | SelectConfirming string
  | UpdateConfs
  | SelectTxExists
  | UpdateClaim
  | BeginUnderpaid
  | SelectCandidates
  | MarkUnderpaid
  | CommitUnderpaid
  | UpdateExpired
  | InsertReview
  | InsertAudit string nat
  | GetCursorStmt
  | SetCursorStmt

datatype outcome = Runs | NotRun string | ReplyLost string

record env =
  clock :: "stmt \<Rightarrow> time"
  outcome_of :: "stmt \<Rightarrow> outcome"
  locked :: "uuid \<Rightarrow> bool"

definition exec :: "env \<Rightarrow> stmt \<Rightarrow> (db \<Rightarrow> 'a res \<times> db) \<Rightarrow> db \<Rightarrow> 'a res \<times> db" where
  "exec e s f d =
     (case outcome_of e s of
        Runs \<Rightarrow> f d
      | NotRun m \<Rightarrow> (Inl (ConnError m), d)
      | ReplyLost m \<Rightarrow> (Inl (ConnError m), snd (f d)))"

lemma exec_Runs [simp]: "outcome_of e s = Runs \<Longrightarrow> exec e s f d = f d"
  by (simp add: exec_def)

lemma exec_cases:
  obtains (runs) "outcome_of e s = Runs" "exec e s f d = f d"
        | (not_run) m where "outcome_of e s = NotRun m" "exec e s f d = (Inl (ConnError m), d)"
        | (lost) m where "outcome_of e s = ReplyLost m"
            "exec e s f d = (Inl (ConnError m), snd (f d))"
  by (cases "outcome_of e s") (auto simp: exec_def)

lemma snd_exec: "snd (exec e s f d) = d \<or> snd (exec e s f d) = snd (f d)"
  by (rule exec_cases [of e s f d]) auto

text \<open>Whatever holds of the database before a statement and after it holds after \<open>exec\<close>.\<close>

lemma exec_preserves: "P d \<Longrightarrow> P (snd (f d)) \<Longrightarrow> P (snd (exec e s f d))"
  using snd_exec [of e s f d] by auto

lemma exec_InrD: "exec e s f d = (Inr x, d') \<Longrightarrow> f d = (Inr x, d')"
  by (rule exec_cases [of e s f d]) auto

text \<open>\<open>sqlx.Get\<close>: the first row, or \<open>sql.ErrNoRows\<close>.\<close>

fun get_row :: "'a list \<Rightarrow> 'a res" where
  "get_row [] = Inl ErrNoRows"
| "get_row (x # _) = Inr x"

text \<open>An UPDATE of orders with RETURNING: it fails as a whole when an index forbids it.\<close>

definition update_orders :: "(order \<Rightarrow> bool) \<Rightarrow> (order \<Rightarrow> order) \<Rightarrow> db \<Rightarrow> order list res \<times> db" where
  "update_orders P f d =
     (let rows = update_rows P f (orders d) in
      if unique_ok rows then (Inr (map f (filter P (orders d))), d\<lparr>orders := rows\<rparr>)
      else (Inl (PgError ''23505''), d))"

lemma update_orders_cases:
  obtains (updated) "unique_ok (update_rows P f (orders d))"
            "update_orders P f d =
               (Inr (map f (filter P (orders d))), d\<lparr>orders := update_rows P f (orders d)\<rparr>)"
        | (violation) "\<not> unique_ok (update_rows P f (orders d))"
            "update_orders P f d = (Inl (PgError ''23505''), d)"
  by (cases "unique_ok (update_rows P f (orders d))") (auto simp: update_orders_def Let_def)

end
