(* ===== verification/Ledger.thy ===== *)
theory Ledger
  imports Schema
begin

text \<open>
  The invariant \<open>db_ok\<close> of every reachable database and the preorder \<open>db_evolves\<close>: what
  any operation may do to the rows that were there before it. Each repository statement
  is shown once to keep the first and to respect the second; handlers and interleavings
  inherit both.
\<close>

subsection \<open>The lifecycle of an order\<close>

fun can_become :: "status \<Rightarrow> status \<Rightarrow> bool" where
  "can_become Pending t = True"
| "can_become Confirming t = (t = Confirming \<or> t = Confirmed)"
| "can_become s t = (t = s)"

fun final :: "status \<Rightarrow> bool" where
  "final Pending = False"
| "final Confirming = False"
| "final s = True"

lemma can_become_refl [simp]: "can_become s s"
  by (cases s) auto

lemma can_become_trans: "can_become s t \<Longrightarrow> can_become t u \<Longrightarrow> can_become s u"
  by (cases s; cases t) auto

text \<open>The lifecycle orders the statuses.\<close>

instantiation status :: order
begin

definition less_eq_status :: "status \<Rightarrow> status \<Rightarrow> bool" where
  "less_eq_status s t \<longleftrightarrow> can_become s t"

definition less_status :: "status \<Rightarrow> status \<Rightarrow> bool" where
  "less_status s t \<longleftrightarrow> can_become s t \<and> s \<noteq> t"

instance
proof
  fix s t u :: status
  show "s < t \<longleftrightarrow> s \<le> t \<and> \<not> t \<le> s"
    unfolding less_status_def less_eq_status_def by (cases s; cases t) auto
  show "s \<le> s" by (simp add: less_eq_status_def)
  show "s \<le> u" if "s \<le> t" "t \<le> u"
    using that unfolding less_eq_status_def by (rule can_become_trans)
  show "s = t" if "s \<le> t" "t \<le> s"
    using that unfolding less_eq_status_def by (cases s; cases t) auto
qed

end

lemma status_le_simps [simp]:
  "Pending \<le> t" "Confirming \<le> t \<longleftrightarrow> t = Confirming \<or> t = Confirmed"
  "Confirmed \<le> t \<longleftrightarrow> t = Confirmed" "Underpaid \<le> t \<longleftrightarrow> t = Underpaid" "Expired \<le> t \<longleftrightarrow> t = Expired"
  by (simp_all add: less_eq_status_def)

text \<open>The final statuses are the maximal ones.\<close>

lemma final_maximal: "final s \<longleftrightarrow> \<not> (\<exists>t. s < t)"
proof (cases "final s")
  case True
  then show ?thesis by (cases s) (auto simp: order.strict_iff_order)
next
  case False
  then have "s < Confirmed" by (cases s) (simp_all add: order.strict_iff_order)
  with False show ?thesis by blast
qed

definition order_evolves :: "order \<Rightarrow> order \<Rightarrow> bool" where
  "order_evolves a b \<longleftrightarrow>
     o_id b = o_id a \<and> o_user_id b = o_user_id a \<and> o_chain b = o_chain a \<and>
     o_token b = o_token a \<and> o_base b = o_base a \<and> o_expected b = o_expected a \<and>
     o_required b = o_required a \<and> o_created b = o_created a \<and> o_expires b = o_expires a \<and>
     o_status a \<le> o_status b \<and>
     (o_tx a \<noteq> None \<longrightarrow>
        o_tx b = o_tx a \<and> o_received b = o_received a \<and> o_confs a \<le> o_confs b) \<and>
     (o_confirmed_at a \<noteq> None \<longrightarrow> o_confirmed_at b = o_confirmed_at a) \<and>
     (final (o_status a) \<longrightarrow> b = a)"

lemma order_evolves_refl [simp]: "order_evolves a a"
  by (simp add: order_evolves_def)

lemma order_evolves_trans: "order_evolves a b \<Longrightarrow> order_evolves b c \<Longrightarrow> order_evolves a c"
  by (auto simp: order_evolves_def intro: order_trans)

definition db_evolves :: "db \<Rightarrow> db \<Rightarrow> bool" where
  "db_evolves d d' \<longleftrightarrow>
     (\<forall>a\<in>set (orders d). \<exists>b\<in>set (orders d'). order_evolves a b) \<and>
     prefix (audit d) (audit d') \<and> prefix (reviews d) (reviews d')"

lemma db_evolves_refl [simp]: "db_evolves d d"
  unfolding db_evolves_def by (intro conjI ballI) (erule bexI [rotated], simp_all)

lemma db_evolves_trans [trans]:
  assumes "db_evolves d d'" "db_evolves d' d''"
  shows "db_evolves d d''"
  unfolding db_evolves_def
proof (intro conjI ballI)
  fix a assume "a \<in> set (orders d)"
  with assms(1) obtain b where b: "b \<in> set (orders d')" "order_evolves a b"
    unfolding db_evolves_def by blast
  with assms(2) obtain c where "c \<in> set (orders d'')" "order_evolves b c"
    unfolding db_evolves_def by blast
  with b show "\<exists>c\<in>set (orders d''). order_evolves a c"
    by (blast intro: order_evolves_trans)
next
  show "prefix (audit d) (audit d'')" "prefix (reviews d) (reviews d'')"
    using assms unfolding db_evolves_def by (blast intro: prefix_order.trans)+
qed

lemma db_evolvesE:
  assumes "db_evolves d d'" "a \<in> set (orders d)"
  obtains b where "b \<in> set (orders d')" "order_evolves a b"
  using assms unfolding db_evolves_def by blast

lemma db_evolves_sub_orders:
  "set (orders d) \<subseteq> set (orders d') \<Longrightarrow> audit d' = audit d \<Longrightarrow> reviews d' = reviews d
    \<Longrightarrow> db_evolves d d'"
  unfolding db_evolves_def by (auto intro: order_evolves_refl)

lemma update_orders_evolves [evolve_intros]:
  assumes "\<And>r. r \<in> set (orders d) \<Longrightarrow> P r \<Longrightarrow> order_evolves r (f r)"
  shows "db_evolves d (snd (update_orders P f d))"
proof (cases rule: update_orders_cases [of P f d])
  case updated
  have "\<exists>b\<in>set (update_rows P f (orders d)). order_evolves a b" if "a \<in> set (orders d)" for a
  proof (cases "P a")
    case True
    with assms that show ?thesis by (auto simp: set_update_rows)
  next
    case False
    with that show ?thesis by (auto simp: set_update_rows intro: order_evolves_refl)
  qed
  with updated show ?thesis by (simp add: db_evolves_def)
qed simp

subsection \<open>The invariant\<close>

definition untouched :: "order \<Rightarrow> bool" where
  "untouched a \<longleftrightarrow>
     o_tx a = None \<and> o_received a = None \<and> o_height a = None \<and> o_confs a = 0 \<and>
     o_confirmed_at a = None"

definition claimed :: "order \<Rightarrow> bool" where
  "claimed a \<longleftrightarrow> o_tx a \<noteq> None \<and> o_received a \<noteq> None \<and> o_height a \<noteq> None"

definition order_ok :: "order \<Rightarrow> bool" where
  "order_ok a \<longleftrightarrow>
     0 < o_base a \<and> 0 < o_expected a \<and>
     (case o_status a of
        Pending \<Rightarrow> untouched a
      | Expired \<Rightarrow> untouched a
      | Confirming \<Rightarrow> claimed a \<and> o_confs a < o_required a \<and> o_confirmed_at a = None
      | Confirmed \<Rightarrow> claimed a \<and> o_required a \<le> o_confs a \<and> o_confirmed_at a \<noteq> None
      | Underpaid \<Rightarrow> claimed a \<and> o_confirmed_at a = None)"

definition has_order :: "order list \<Rightarrow> uuid \<Rightarrow> bool" where
  "has_order rows i \<longleftrightarrow> (\<exists>a\<in>set rows. o_id a = i)"

definition underpaid_by :: "order list \<Rightarrow> review_item \<Rightarrow> uuid \<Rightarrow> bool" where
  "underpaid_by rows r i \<longleftrightarrow>
     (\<exists>a\<in>set rows. o_id a = i \<and> o_status a = Underpaid \<and> o_chain a = r_chain r \<and>
        o_tx a = Some (r_tx r) \<and> o_received a = Some (r_amount r))"

definition review_ok :: "order list \<Rightarrow> review_item \<Rightarrow> bool" where
  "review_ok rows r \<longleftrightarrow>
     (case r_order r of
        None \<Rightarrow> r_reason r = ReasonUnmatched
      | Some i \<Rightarrow> r_reason r = ReasonUnderpaid \<and> underpaid_by rows r i)"

definition audit_ok :: "order list \<Rightarrow> audit_entry \<Rightarrow> bool" where
  "audit_ok rows a \<longleftrightarrow> (case a_order a of None \<Rightarrow> True | Some i \<Rightarrow> has_order rows i)"

definition db_ok :: "db \<Rightarrow> bool" where
  "db_ok d \<longleftrightarrow>
     unique_ok (orders d) \<and> (\<forall>a\<in>set (orders d). order_ok a) \<and>
     distinct (map (\<lambda>r. (r_chain r, r_tx r)) (reviews d)) \<and>
     (\<forall>r\<in>set (reviews d). review_ok (orders d) r) \<and>
     (\<forall>a\<in>set (audit d). audit_ok (orders d) a)"

lemma db_ok_empty [simp]: "db_ok empty_db"
  by (simp add: db_ok_def empty_db_def)

lemma db_okD:
  assumes "db_ok d"
  shows "unique_ok (orders d)" "a \<in> set (orders d) \<Longrightarrow> order_ok a"
    "distinct (map (\<lambda>r. (r_chain r, r_tx r)) (reviews d))"
    "r \<in> set (reviews d) \<Longrightarrow> review_ok (orders d) r"
    "b \<in> set (audit d) \<Longrightarrow> audit_ok (orders d) b"
  using assms by (simp_all add: db_ok_def)

text \<open>References into \<open>orders\<close> survive every change that only moves orders forward.\<close>

lemma has_order_evolves:
  assumes "has_order rows i" "\<forall>a\<in>set rows. \<exists>b\<in>set rows'. order_evolves a b"
  shows "has_order rows' i"
  using assms unfolding has_order_def order_evolves_def by metis

lemma underpaid_by_evolves:
  assumes "underpaid_by rows r i" "\<forall>a\<in>set rows. \<exists>b\<in>set rows'. order_evolves a b"
  shows "underpaid_by rows' r i"
proof -
  obtain a where a: "a \<in> set rows" "o_id a = i" "o_status a = Underpaid" "o_chain a = r_chain r"
    "o_tx a = Some (r_tx r)" "o_received a = Some (r_amount r)"
    using assms(1) unfolding underpaid_by_def by blast
  with assms(2) obtain b where "b \<in> set rows'" "order_evolves a b" by blast
  with a have "a \<in> set rows'" by (auto simp: order_evolves_def)
  with a show ?thesis unfolding underpaid_by_def by blast
qed

text \<open>
  So an operation on \<open>orders\<close> alone keeps the invariant when it keeps the indexes, the
  row invariant and the order of the lifecycle.
\<close>

lemma db_ok_orders:
  assumes "db_ok d" "unique_ok (orders d')" "\<And>a. a \<in> set (orders d') \<Longrightarrow> order_ok a"
    and ev: "db_evolves d d'" and same: "audit d' = audit d" "reviews d' = reviews d"
  shows "db_ok d'"
proof -
  have e: "\<forall>a\<in>set (orders d). \<exists>b\<in>set (orders d'). order_evolves a b"
    using ev by (simp add: db_evolves_def)
  have "review_ok (orders d') r" if "r \<in> set (reviews d)" for r
    using db_okD(4) [OF assms(1) that] underpaid_by_evolves [OF _ e]
    by (auto simp: review_ok_def split: option.splits)
  moreover have "audit_ok (orders d') a" if "a \<in> set (audit d)" for a
    using db_okD(5) [OF assms(1) that] has_order_evolves [OF _ e]
    by (auto simp: audit_ok_def split: option.splits)
  ultimately show ?thesis using assms by (simp add: db_ok_def)
qed

lemma update_orders_ok [inv_intros]:
  assumes "db_ok d"
    and "\<And>r. r \<in> set (orders d) \<Longrightarrow> P r \<Longrightarrow> order_ok r \<Longrightarrow> order_evolves r (f r) \<and> order_ok (f r)"
  shows "db_ok (snd (update_orders P f d))"
proof (cases rule: update_orders_cases [of P f d])
  case updated
  have okd: "order_ok r" if "r \<in> set (orders d)" for r using assms(1) that by (rule db_okD)
  have ev: "db_evolves d (snd (update_orders P f d))"
    by (rule update_orders_evolves) (use assms(2) okd in blast)
  have "order_ok a" if "a \<in> set (update_rows P f (orders d))" for a
    using that assms(2) okd by (auto simp: set_update_rows)
  with updated ev assms(1) show ?thesis by (auto intro!: db_ok_orders [of d])
qed (simp add: assms)

end
