(* ===== verification/Repository.thy ===== *)
theory Repository
  imports Ledger
begin

text \<open>
  \<open>internal/orders/repository.go\<close>, \<open>internal/orders/review.go\<close> and
  \<open>internal/audit/log.go\<close>: every method as a function of the environment and the
  database. The body of a statement is a function \<open>db \<Rightarrow> 'a res \<times> db\<close> of its own, run
  through \<open>exec\<close>, which is where it can fail.
\<close>

definition uniqueViolation :: string where
  "uniqueViolation = ''23505''"

definition isUniqueViolation :: "goerr \<Rightarrow> bool" where
  "isUniqueViolation err \<longleftrightarrow> as_pg_error err = Some uniqueViolation"

subsection \<open>CreateWithUniqueAmount\<close>

text \<open>
  \<open>rand_intn k n\<close> is the result of \<open>rand.Intn(n)\<close> in attempt \<open>k\<close>, \<open>new_uuid k\<close> that of
  \<open>uuid.New()\<close>. \<open>rand.Intn\<close> panics for \<open>n \<le> 0\<close>.
\<close>

record entropy =
  rand_intn :: "nat \<Rightarrow> int \<Rightarrow> int"
  new_uuid :: "nat \<Rightarrow> uuid"

definition draw_offset :: "entropy \<Rightarrow> int \<Rightarrow> int \<Rightarrow> nat \<Rightarrow> int res" where
  "draw_offset g offsetMin offsetMax attempt =
     (if offsetMax > offsetMin then
        let n = i64 (offsetMax - offsetMin + 1) in
        if n \<le> 0 then Inl (Panic ''invalid argument to Intn'')
        else Inr (i64 (offsetMin + rand_intn g attempt n))
      else Inr offsetMin)"

definition new_order ::
    "uuid \<Rightarrow> string \<Rightarrow> string \<Rightarrow> amount \<Rightarrow> int \<Rightarrow> int \<Rightarrow> time \<Rightarrow> duration \<Rightarrow> order" where
  "new_order i userID chain baseAmountUSD offset requiredConfirmations now expiry =
     \<lparr>o_id = i, o_user_id = userID, o_chain = chain, o_token = ''USDT'',
      o_base = baseAmountUSD, o_expected = baseAmountUSD + of_int offset / 10 ^ 4,
      o_received = None, o_status = Pending, o_tx = None, o_height = None, o_confs = 0,
      o_required = requiredConfirmations, o_created = now, o_expires = now + expiry,
      o_confirmed_at = None, o_updated = now\<rparr>"

text \<open>
  The INSERT: amounts are rounded to the columns' scale, then checked. The columns it
  does not name get their defaults, which \<open>new_order\<close> already has. Times are kept as given:
  the TIMESTAMPTZ columns cut them to microseconds, which no answer shows (seconds are printed).
\<close>

definition stored_row :: "order \<Rightarrow> order option" where
  "stored_row a =
     (case (numeric20_8 (o_base a), numeric20_8 (o_expected a)) of
        (Some b, Some x) \<Rightarrow> Some (a\<lparr>o_base := b, o_expected := x\<rparr>)
      | _ \<Rightarrow> None)"

definition insert_order :: "order \<Rightarrow> db \<Rightarrow> unit res \<times> db" where
  "insert_order a d =
     (if \<not> in_i32 (o_required a) then (Inl EncodeError, d)
      else case stored_row a of
        None \<Rightarrow> (Inl (PgError ''22003''), d)
      | Some r \<Rightarrow>
          if o_base r \<le> 0 \<or> o_expected r \<le> 0 then (Inl (PgError ''23514''), d)
          else if \<exists>q\<in>set (orders d). conflicts q r then (Inl (PgError uniqueViolation), d)
          else (Inr (), d\<lparr>orders := orders d @ [r]\<rparr>))"

text \<open>
  The retry loop: \<open>mk attempt\<close> is the order built in that attempt, \<open>n\<close> the attempts left.
\<close>

fun create_attempts ::
    "env \<Rightarrow> (nat \<Rightarrow> order res) \<Rightarrow> string \<Rightarrow> int \<Rightarrow> nat \<Rightarrow> nat \<Rightarrow> db \<Rightarrow> order res \<times> db" where
  "create_attempts e mk chain maxRetries attempt 0 d = (Inl (NoUniqueAmount chain maxRetries), d)"
| "create_attempts e mk chain maxRetries attempt (Suc n) d =
     (case mk attempt of
        Inl err \<Rightarrow> (Inl err, d)
      | Inr a \<Rightarrow>
          (case exec e (InsertOrder attempt) (insert_order a) d of
             (Inr _, d') \<Rightarrow> (Inr a, d')
           | (Inl err, d') \<Rightarrow>
               if \<not> isUniqueViolation err then (Inl (Wrap ''insert order'' err), d')
               else create_attempts e mk chain maxRetries (Suc attempt) n d'))"

definition build_order ::
    "env \<Rightarrow> entropy \<Rightarrow> string \<Rightarrow> string \<Rightarrow> amount \<Rightarrow> int \<Rightarrow> duration \<Rightarrow> int \<Rightarrow> int \<Rightarrow> nat \<Rightarrow> order res"
where
  "build_order e g userID chain baseAmountUSD requiredConfirmations expiry offsetMin offsetMax attempt =
     (case draw_offset g offsetMin offsetMax attempt of
        Inl err \<Rightarrow> Inl err
      | Inr off \<Rightarrow>
          Inr (new_order (new_uuid g attempt) userID chain baseAmountUSD off
                 requiredConfirmations (clock e (InsertOrder attempt)) expiry))"

definition CreateWithUniqueAmount ::
    "env \<Rightarrow> entropy \<Rightarrow> string \<Rightarrow> string \<Rightarrow> amount \<Rightarrow> int \<Rightarrow> duration \<Rightarrow> int \<Rightarrow> int \<Rightarrow> int \<Rightarrow> db
      \<Rightarrow> order res \<times> db" where
  "CreateWithUniqueAmount e g userID chain baseAmountUSD requiredConfirmations expiry
       offsetMin offsetMax maxRetries d =
     (if offsetMax < offsetMin then (Inl (InvalidOffsetRange offsetMin offsetMax), d)
      else create_attempts e
             (build_order e g userID chain baseAmountUSD requiredConfirmations expiry
                offsetMin offsetMax)
             chain maxRetries 0 (nat maxRetries) d)"

subsection \<open>Reads\<close>

definition GetOrder :: "env \<Rightarrow> uuid \<Rightarrow> db \<Rightarrow> order res \<times> db" where
  "GetOrder e i d =
     (case exec e SelectOrder (\<lambda>d. (get_row (filter (\<lambda>a. o_id a = i) (orders d)), d)) d of
        (Inl err, d') \<Rightarrow>
          if errors_is err ErrNoRows then (Inl ErrNotFound, d')
          else (Inl (Wrap ''get order'' err), d')
      | (Inr a, d') \<Rightarrow> (Inr a, d'))"

definition ListConfirming :: "env \<Rightarrow> string \<Rightarrow> db \<Rightarrow> order list res \<times> db" where
  "ListConfirming e chain d =
     (case exec e (SelectConfirming chain)
             (\<lambda>d. (Inr (filter (\<lambda>a. o_chain a = chain \<and> o_status a = Confirming) (orders d)), d)) d of
        (Inl err, d') \<Rightarrow> (Inl (Wrap ''list confirming orders'' err), d')
      | (Inr rows, d') \<Rightarrow> (Inr rows, d'))"

definition TxAlreadyClaimed :: "env \<Rightarrow> string \<Rightarrow> string \<Rightarrow> db \<Rightarrow> bool res \<times> db" where
  "TxAlreadyClaimed e chain txHash d =
     (case exec e SelectTxExists
             (\<lambda>d. (Inr (\<exists>a\<in>set (orders d). o_chain a = chain \<and> o_tx a = Some txHash), d)) d of
        (Inl err, d') \<Rightarrow> (Inl (Wrap ''check tx claimed'' err), d')
      | (Inr b, d') \<Rightarrow> (Inr b, d'))"

subsection \<open>UpdateConfirmations\<close>

definition progress_status :: "int \<Rightarrow> order \<Rightarrow> status" where
  "progress_status confirmations a =
     (if confirmations \<ge> o_required a then Confirmed else Confirming)"

definition progress_row :: "time \<Rightarrow> int \<Rightarrow> int \<Rightarrow> order \<Rightarrow> order" where
  "progress_row now blockHeight confirmations a =
     a\<lparr>o_height := Some blockHeight,
       o_confs := confirmations,
       o_status := progress_status confirmations a,
       o_confirmed_at :=
         (if confirmations \<ge> o_required a \<and> o_confirmed_at a = None then Some now
          else o_confirmed_at a),
       o_updated := now\<rparr>"

definition progress_target :: "string \<Rightarrow> string \<Rightarrow> int \<Rightarrow> order \<Rightarrow> bool" where
  "progress_target chain txHash confirmations a \<longleftrightarrow>
     o_chain a = chain \<and> o_tx a = Some txHash \<and> o_status a = Confirming \<and>
     confirmations \<ge> o_confs a"

text \<open>
  The first row an UPDATE returns; a count that does not fit the INTEGER column cannot be
  sent.
\<close>

definition returning_row :: "order list res \<times> db \<Rightarrow> order res \<times> db" where
  "returning_row x = (case x of (Inl err, d) \<Rightarrow> (Inl err, d) | (Inr rows, d) \<Rightarrow> (get_row rows, d))"

definition update_confirmations_stmt ::
    "time \<Rightarrow> string \<Rightarrow> string \<Rightarrow> int \<Rightarrow> int \<Rightarrow> db \<Rightarrow> order res \<times> db" where
  "update_confirmations_stmt now chain txHash blockHeight confirmations d =
     (if \<not> in_i32 confirmations then (Inl EncodeError, d)
      else returning_row (update_orders (progress_target chain txHash confirmations)
             (progress_row now blockHeight confirmations) d))"

text \<open>\<open>sql.ErrNoRows\<close> becomes a nil order and no error, any other error is wrapped.\<close>

definition nil_if_no_rows :: "string \<Rightarrow> order res \<times> db \<Rightarrow> order option res \<times> db" where
  "nil_if_no_rows msg x =
     (case x of
        (Inl err, d) \<Rightarrow> if errors_is err ErrNoRows then (Inr None, d) else (Inl (Wrap msg err), d)
      | (Inr a, d) \<Rightarrow> (Inr (Some a), d))"

definition UpdateConfirmations ::
    "env \<Rightarrow> string \<Rightarrow> string \<Rightarrow> int \<Rightarrow> int \<Rightarrow> db \<Rightarrow> order option res \<times> db" where
  "UpdateConfirmations e chain txHash blockHeight confirmations d =
     nil_if_no_rows ''update confirmations''
       (exec e UpdateConfs
          (update_confirmations_stmt (clock e UpdateConfs) chain txHash blockHeight confirmations) d)"

subsection \<open>ClaimExactMatch\<close>

definition free_pending :: "string \<Rightarrow> order \<Rightarrow> bool" where
  "free_pending chain a \<longleftrightarrow> o_chain a = chain \<and> o_status a = Pending \<and> o_tx a = None"

definition exact_candidates :: "env \<Rightarrow> string \<Rightarrow> amount \<Rightarrow> amount \<Rightarrow> order list \<Rightarrow> order list" where
  "exact_candidates e chain low high rows =
     filter (\<lambda>a. free_pending chain a \<and> low \<le> o_expected a \<and> o_expected a \<le> high \<and>
               \<not> locked e (o_id a)) rows"

definition claim_row :: "time \<Rightarrow> string \<Rightarrow> int \<Rightarrow> amount \<Rightarrow> int \<Rightarrow> order \<Rightarrow> order" where
  "claim_row now txHash blockHeight received confirmations a =
     a\<lparr>o_tx := Some txHash,
       o_height := Some blockHeight,
       o_received := Some received,
       o_confs := confirmations,
       o_status := progress_status confirmations a,
       o_confirmed_at := (if confirmations \<ge> o_required a then Some now else None),
       o_updated := now\<rparr>"

definition claim_stmt ::
    "env \<Rightarrow> string \<Rightarrow> string \<Rightarrow> amount \<Rightarrow> int \<Rightarrow> int \<Rightarrow> amount \<Rightarrow> amount \<Rightarrow> db \<Rightarrow> order res \<times> db"
where
  "claim_stmt e chain txHash amt blockHeight confirmations low high d =
     (if \<not> in_i32 confirmations then (Inl EncodeError, d)
      else case sort_key o_expires (exact_candidates e chain low high (orders d)) of
        [] \<Rightarrow> (Inl ErrNoRows, d)
      | c # _ \<Rightarrow>
          (case numeric20_8 amt of
             None \<Rightarrow> (Inl (PgError ''22003''), d)
           | Some received \<Rightarrow>
               returning_row (update_orders (\<lambda>a. o_id a = o_id c)
                 (claim_row (clock e UpdateClaim) txHash blockHeight received confirmations) d)))"

definition ClaimExactMatch ::
    "env \<Rightarrow> string \<Rightarrow> string \<Rightarrow> amount \<Rightarrow> int \<Rightarrow> int \<Rightarrow> amount \<Rightarrow> db \<Rightarrow> order option res \<times> db" where
  "ClaimExactMatch e chain txHash amt blockHeight confirmations tolerance d =
     (let low = amt - tolerance; high = amt + tolerance in
      nil_if_no_rows ''claim exact match''
        (exec e UpdateClaim (claim_stmt e chain txHash amt blockHeight confirmations low high) d))"

subsection \<open>ClaimUnderpaid\<close>

definition underpaid_candidates :: "env \<Rightarrow> string \<Rightarrow> amount \<Rightarrow> order list \<Rightarrow> order list" where
  "underpaid_candidates e chain amt rows =
     sort_key o_expected
       (filter (\<lambda>a. free_pending chain a \<and> o_expected a > amt \<and> \<not> locked e (o_id a)) rows)"

definition gap_percent :: "decimal_lib \<Rightarrow> amount \<Rightarrow> order \<Rightarrow> amount" where
  "gap_percent lib amt c = dec_div lib (o_expected c - amt) (o_expected c) * 100"

text \<open>
  The loop over the candidates, with the best one so far and its gap. \<open>Decimal.Div\<close> panics
  on a zero divisor.
\<close>

fun best_candidate ::
    "decimal_lib \<Rightarrow> amount \<Rightarrow> amount \<Rightarrow> order list \<Rightarrow> order option \<Rightarrow> amount \<Rightarrow> order option res" where
  "best_candidate lib amt maxGapPercent [] best bestGap = Inr best"
| "best_candidate lib amt maxGapPercent (c # cs) best bestGap =
     (if o_expected c = 0 then Inl (Panic ''decimal division by 0'')
      else let gapPercent = gap_percent lib amt c in
        if gapPercent > maxGapPercent then best_candidate lib amt maxGapPercent cs best bestGap
        else if best = None \<or> gapPercent < bestGap
          then best_candidate lib amt maxGapPercent cs (Some c) gapPercent
        else best_candidate lib amt maxGapPercent cs best bestGap)"

definition underpaid_row :: "time \<Rightarrow> string \<Rightarrow> int \<Rightarrow> amount \<Rightarrow> order \<Rightarrow> order" where
  "underpaid_row now txHash blockHeight received a =
     a\<lparr>o_tx := Some txHash, o_height := Some blockHeight, o_received := Some received,
       o_status := Underpaid, o_updated := now\<rparr>"

definition mark_underpaid_stmt ::
    "time \<Rightarrow> uuid \<Rightarrow> string \<Rightarrow> int \<Rightarrow> amount \<Rightarrow> db \<Rightarrow> order res \<times> db" where
  "mark_underpaid_stmt now i txHash blockHeight amt d =
     (case numeric20_8 amt of
        None \<Rightarrow> (Inl (PgError ''22003''), d)
      | Some received \<Rightarrow>
          returning_row (update_orders (\<lambda>a. o_id a = i)
            (underpaid_row now txHash blockHeight received) d))"

text \<open>
  A transaction: the rows it selects stay locked until it ends, so no other step of the
  program comes between its statements on them. A return before the commit, an error or a
  panic rolls everything back (\<open>defer tx.Rollback()\<close>); a commit whose reply is lost has
  happened.
\<close>

definition ClaimUnderpaid ::
    "decimal_lib \<Rightarrow> env \<Rightarrow> string \<Rightarrow> string \<Rightarrow> amount \<Rightarrow> int \<Rightarrow> amount \<Rightarrow> db \<Rightarrow> order option res \<times> db"
where
  "ClaimUnderpaid lib e chain txHash amt blockHeight maxGapPercent d =
     (case exec e BeginUnderpaid (\<lambda>d. (Inr (), d)) d of
        (Inl err, _) \<Rightarrow> (Inl (Wrap ''begin tx'' err), d)
      | (Inr _, _) \<Rightarrow>
     (case exec e SelectCandidates
             (\<lambda>d. (Inr (underpaid_candidates e chain amt (orders d)), d)) d of
        (Inl err, _) \<Rightarrow> (Inl (Wrap ''select underpayment candidates'' err), d)
      | (Inr candidates, _) \<Rightarrow>
     (case best_candidate lib amt maxGapPercent candidates None 0 of
        Inl err \<Rightarrow> (Inl err, d)
      | Inr None \<Rightarrow> (Inr None, d)
      | Inr (Some best) \<Rightarrow>
     (case exec e MarkUnderpaid
             (mark_underpaid_stmt (clock e MarkUnderpaid) (o_id best) txHash blockHeight amt) d of
        (Inl err, _) \<Rightarrow> (Inl (Wrap ''mark underpaid'' err), d)
      | (Inr updated, d1) \<Rightarrow>
     (case exec e CommitUnderpaid (\<lambda>_. (Inr (), d1)) d of
        (Inl err, d2) \<Rightarrow> (Inl (Wrap ''commit underpayment claim'' err), d2)
      | (Inr _, d2) \<Rightarrow> (Inr (Some updated), d2))))))"

subsection \<open>ExpirePastDue\<close>

definition expire_row :: "time \<Rightarrow> order \<Rightarrow> order" where
  "expire_row now a = a\<lparr>o_status := Expired, o_updated := now\<rparr>"

definition past_due :: "time \<Rightarrow> order \<Rightarrow> bool" where
  "past_due now a \<longleftrightarrow> o_status a = Pending \<and> o_expires a < now"

definition ExpirePastDue :: "env \<Rightarrow> db \<Rightarrow> order list res \<times> db" where
  "ExpirePastDue e d =
     (case exec e UpdateExpired
             (update_orders (past_due (clock e UpdateExpired)) (expire_row (clock e UpdateExpired))) d of
        (Inl err, d') \<Rightarrow> (Inl (Wrap ''expire past due orders'' err), d')
      | (Inr rows, d') \<Rightarrow> (Inr rows, d'))"

subsection \<open>LogReviewItem\<close>

definition review_row ::
    "time \<Rightarrow> string \<Rightarrow> string \<Rightarrow> amount \<Rightarrow> review_reason \<Rightarrow> uuid option \<Rightarrow> review_item" where
  "review_row now chain txHash x reason relatedOrderID =
     \<lparr>r_chain = chain, r_tx = txHash, r_amount = x, r_reason = reason,
      r_order = relatedOrderID, r_status = Open, r_detected = now\<rparr>"

lemma review_row_sel [simp]:
  "r_chain (review_row now chain tx x reason i) = chain"
  "r_tx (review_row now chain tx x reason i) = tx"
  "r_amount (review_row now chain tx x reason i) = x"
  "r_reason (review_row now chain tx x reason i) = reason"
  "r_order (review_row now chain tx x reason i) = i"
  by (simp_all add: review_row_def)

definition insert_review_stmt ::
    "time \<Rightarrow> string \<Rightarrow> string \<Rightarrow> amount \<Rightarrow> review_reason \<Rightarrow> uuid option \<Rightarrow> db \<Rightarrow> unit res \<times> db" where
  "insert_review_stmt now chain txHash amt reason relatedOrderID d =
     (case numeric20_8 amt of
        None \<Rightarrow> (Inl (PgError ''22003''), d)
      | Some x \<Rightarrow>
          if \<exists>r\<in>set (reviews d). r_chain r = chain \<and> r_tx r = txHash then (Inr (), d)
          else if (case relatedOrderID of None \<Rightarrow> False | Some i \<Rightarrow> \<not> has_order (orders d) i)
            then (Inl (PgError ''23503''), d)
          else (Inr (), d\<lparr>reviews := reviews d @ [review_row now chain txHash x reason relatedOrderID]\<rparr>))"

definition LogReviewItem ::
    "env \<Rightarrow> string \<Rightarrow> string \<Rightarrow> amount \<Rightarrow> review_reason \<Rightarrow> uuid option \<Rightarrow> db \<Rightarrow> unit res \<times> db" where
  "LogReviewItem e chain txHash amt reason relatedOrderID d =
     (case exec e InsertReview
             (insert_review_stmt (clock e InsertReview) chain txHash amt reason relatedOrderID) d of
        (Inl err, d') \<Rightarrow> (Inl (Wrap ''log review item'' err), d')
      | (Inr _, d') \<Rightarrow> (Inr (), d'))"

subsection \<open>The audit log\<close>

text \<open>
  \<open>Logger.Log\<close>. The details are maps of strings and integers, which always marshal. The
  number of the entry tells apart the statements of a loop.
\<close>

definition insert_audit_stmt ::
    "time \<Rightarrow> uuid option \<Rightarrow> string \<Rightarrow> string \<Rightarrow> string \<Rightarrow> (string \<times> jval) list option \<Rightarrow> db
      \<Rightarrow> unit res \<times> db" where
  "insert_audit_stmt now orderID chain txHash eventType details d =
     (if (case orderID of None \<Rightarrow> False | Some i \<Rightarrow> \<not> has_order (orders d) i)
        then (Inl (PgError ''23503''), d)
      else (Inr (), d\<lparr>audit := audit d @
              [\<lparr>a_order = orderID, a_chain = chain, a_tx = txHash, a_event = eventType,
                a_details = details, a_created = now\<rparr>]\<rparr>))"

definition Log ::
    "env \<Rightarrow> nat \<Rightarrow> uuid option \<Rightarrow> string \<Rightarrow> string \<Rightarrow> string \<Rightarrow> (string \<times> jval) list option \<Rightarrow> db
      \<Rightarrow> unit res \<times> db" where
  "Log e k orderID chain txHash eventType details d =
     exec e (InsertAudit eventType k)
       (insert_audit_stmt (clock e (InsertAudit eventType k)) orderID chain txHash eventType details) d"

end
