(* ===== verification/CursorStore.thy ===== *)
theory CursorStore
  imports Ledger
begin

text \<open>
  \<open>internal/db/cursor_store.go\<close> and the interface \<open>internal/chains/cursor.go\<close> it
  implements. The interface is a record of functions on a store of any type, as a Go
  interface value is; its contract is the locale \<open>cursor_store\<close>, interpreted on the
  PostgreSQL implementation. The zero \<open>time.Time\<close> is \<open>None\<close>.
\<close>

record 's cursor_ops =
  get_cursor :: "string \<Rightarrow> 's \<Rightarrow> (int \<times> time option) res \<times> 's"
  set_cursor :: "string \<Rightarrow> int \<Rightarrow> time \<Rightarrow> 's \<Rightarrow> unit res \<times> 's"

subsection \<open>The contract\<close>

text \<open>
  \<open>view s chain\<close> is the position the store holds. Reading returns it and changes nothing
  visible; a successful write makes it the written one, a failed write may or may not
  have; no operation touches another chain.
\<close>

locale cursor_store =
  fixes view :: "'s \<Rightarrow> string \<Rightarrow> int \<times> time option" and ops :: "'s cursor_ops"
  assumes get_result: "get_cursor ops c s = (Inr x, s') \<Longrightarrow> x = view s c"
    and get_view: "view (snd (get_cursor ops c s)) = view s"
    and set_done: "set_cursor ops c h t s = (Inr u, s') \<Longrightarrow> view s' c = (h, Some t)"
    and set_either: "view (snd (set_cursor ops c h t s)) c \<in> {view s c, (h, Some t)}"
    and set_other: "c' \<noteq> c \<Longrightarrow> view (snd (set_cursor ops c h t s)) c' = view s c'"
begin

lemma get_after_set:
  assumes "set_cursor ops c h t s = (Inr u, s')" "get_cursor ops c s' = (Inr x, s'')"
  shows "x = (h, Some t)"
  using get_result [OF assms(2)] set_done [OF assms(1)] by simp

lemma get_keeps: "get_cursor ops c s = (r, s') \<Longrightarrow> view s' = view s"
  using get_view [of c s] by simp

end

subsection \<open>The PostgreSQL store\<close>

definition cursor_view :: "db \<Rightarrow> string \<Rightarrow> int \<times> time option" where
  "cursor_view d chain = (case cursors d chain of None \<Rightarrow> (0, None) | Some r \<Rightarrow> (c_height r, c_at r))"

definition get_cursor_stmt :: "time \<Rightarrow> string \<Rightarrow> db \<Rightarrow> (int \<times> time option) res \<times> db" where
  "get_cursor_stmt now chain d =
     (case cursors d chain of
        Some r \<Rightarrow> (Inr (c_height r, c_at r), d)
      | None \<Rightarrow> (Inr (0, None),
          d\<lparr>cursors := (cursors d)(chain \<mapsto> \<lparr>c_height = 0, c_at = None, c_updated = now\<rparr>)\<rparr>))"

definition GetCursor :: "env \<Rightarrow> string \<Rightarrow> db \<Rightarrow> (int \<times> time option) res \<times> db" where
  "GetCursor e chain d = exec e GetCursorStmt (get_cursor_stmt (clock e GetCursorStmt) chain) d"

definition set_cursor_stmt :: "time \<Rightarrow> string \<Rightarrow> int \<Rightarrow> time \<Rightarrow> db \<Rightarrow> unit res \<times> db" where
  "set_cursor_stmt now chain height scannedAt d =
     (Inr (), d\<lparr>cursors := (cursors d)(chain \<mapsto>
        \<lparr>c_height = height, c_at = Some scannedAt, c_updated = now\<rparr>)\<rparr>)"

definition SetCursor :: "env \<Rightarrow> string \<Rightarrow> int \<Rightarrow> time \<Rightarrow> db \<Rightarrow> unit res \<times> db" where
  "SetCursor e chain height scannedAt d =
     exec e SetCursorStmt (set_cursor_stmt (clock e SetCursorStmt) chain height scannedAt) d"

definition pg_cursors :: "env \<Rightarrow> db cursor_ops" where
  "pg_cursors e = \<lparr>get_cursor = GetCursor e, set_cursor = SetCursor e\<rparr>"

lemma cursor_view_get_stmt [simp]: "cursor_view (snd (get_cursor_stmt now chain d)) = cursor_view d"
  by (auto simp: cursor_view_def get_cursor_stmt_def fun_eq_iff split: option.splits)

lemma cursor_view_set_stmt [simp]:
  "cursor_view (snd (set_cursor_stmt now chain h t d)) = (cursor_view d)(chain := (h, Some t))"
  by (auto simp: cursor_view_def set_cursor_stmt_def fun_eq_iff)

interpretation pg_store: cursor_store cursor_view "pg_cursors e" for e
proof unfold_locales
  fix c s x s'
  assume "get_cursor (pg_cursors e) c s = (Inr x, s')"
  then have "get_cursor_stmt (clock e GetCursorStmt) c s = (Inr x, s')"
    by (auto simp: pg_cursors_def GetCursor_def dest: exec_InrD)
  then show "x = cursor_view s c"
    by (auto simp: get_cursor_stmt_def cursor_view_def split: option.splits)
next
  fix c s
  show "cursor_view (snd (get_cursor (pg_cursors e) c s)) = cursor_view s"
    using snd_exec [of e GetCursorStmt "get_cursor_stmt (clock e GetCursorStmt) c" s]
    by (auto simp: pg_cursors_def GetCursor_def)
next
  fix c h t s u s'
  assume "set_cursor (pg_cursors e) c h t s = (Inr u, s')"
  then have "set_cursor_stmt (clock e SetCursorStmt) c h t s = (Inr u, s')"
    by (auto simp: pg_cursors_def SetCursor_def dest: exec_InrD)
  then have "s' = snd (set_cursor_stmt (clock e SetCursorStmt) c h t s)" by simp
  then show "cursor_view s' c = (h, Some t)" by simp
next
  fix c h t s
  show "cursor_view (snd (set_cursor (pg_cursors e) c h t s)) c \<in> {cursor_view s c, (h, Some t)}"
    using snd_exec [of e SetCursorStmt "set_cursor_stmt (clock e SetCursorStmt) c h t" s]
    by (auto simp: pg_cursors_def SetCursor_def)
next
  fix c' c :: string and h t s
  assume "c' \<noteq> c"
  then show "cursor_view (snd (set_cursor (pg_cursors e) c h t s)) c' = cursor_view s c'"
    using snd_exec [of e SetCursorStmt "set_cursor_stmt (clock e SetCursorStmt) c h t" s]
    by (auto simp: pg_cursors_def SetCursor_def)
qed

lemma orders_cursor_stmts [simp]:
  "orders (snd (get_cursor_stmt now c d)) = orders d"
  "orders (snd (set_cursor_stmt now c h t d)) = orders d"
  "reviews (snd (get_cursor_stmt now c d)) = reviews d"
  "reviews (snd (set_cursor_stmt now c h t d)) = reviews d"
  "audit (snd (get_cursor_stmt now c d)) = audit d"
  "audit (snd (set_cursor_stmt now c h t d)) = audit d"
  by (auto simp: get_cursor_stmt_def set_cursor_stmt_def split: option.splits)

end
