(* ===== verification/Steps.thy ===== *)
theory Steps
  imports Repository CursorStore "HOL-Library.Multiset"
begin

text \<open>
  The repository's statements keep the invariant and only move orders along the
  lifecycle, whatever happens to their round trips. \<open>db_step\<close> is one statement of any
  goroutine with any arguments, so its runs contain every interleaving of the watchers,
  the expiry loop and the HTTP requests; \<open>reachable\<close> are the databases of these runs.
\<close>

subsection \<open>Rows\<close>

lemma progress_row_ok [row_simps]:
  "order_ok a \<Longrightarrow> progress_target chain tx c a \<Longrightarrow>
   order_evolves a (progress_row now h c a) \<and> order_ok (progress_row now h c a)"
  by (auto simp: progress_target_def progress_row_def progress_status_def order_ok_def
      order_evolves_def claimed_def)

lemma claim_row_ok [row_simps]:
  "order_ok a \<Longrightarrow> free_pending chain a \<Longrightarrow>
   order_evolves a (claim_row now tx h x c a) \<and> order_ok (claim_row now tx h x c a)"
  by (auto simp: free_pending_def claim_row_def progress_status_def order_ok_def
      order_evolves_def claimed_def untouched_def)

lemma underpaid_row_ok [row_simps]:
  "order_ok a \<Longrightarrow> free_pending chain a \<Longrightarrow>
   order_evolves a (underpaid_row now tx h x a) \<and> order_ok (underpaid_row now tx h x a)"
  by (auto simp: free_pending_def underpaid_row_def order_ok_def order_evolves_def
      claimed_def untouched_def)

lemma expire_row_ok [row_simps]:
  "order_ok a \<Longrightarrow> past_due now a \<Longrightarrow>
   order_evolves a (expire_row now a) \<and> order_ok (expire_row now a)"
  by (auto simp: past_due_def expire_row_def order_ok_def order_evolves_def untouched_def)

subsection \<open>Statements keep the invariant\<close>

text \<open>
  \<open>good_step d d'\<close>: from a good database the statement leads to a good one and moves
  orders forward. The three laws of a preorder on good databases, as rules.
\<close>

definition good_step :: "db \<Rightarrow> db \<Rightarrow> bool" where
  "good_step d d' \<longleftrightarrow> (db_ok d \<longrightarrow> db_ok d' \<and> db_evolves d d')"

lemma good_step_refl [simp]: "good_step d d"
  by (simp add: good_step_def)

lemma good_step_trans [trans]: "good_step d d' \<Longrightarrow> good_step d' d'' \<Longrightarrow> good_step d d''"
  unfolding good_step_def by (blast intro: db_evolves_trans)

lemma good_step_exec [inv_intros]:
  "good_step d (snd (f d)) \<Longrightarrow> good_step d (snd (exec e s f d))"
  by (rule exec_preserves [of "\<lambda>d'. good_step d d'"]) simp_all

lemma good_step_update_orders:
  assumes "\<And>a. a \<in> set (orders d) \<Longrightarrow> P a \<Longrightarrow> order_ok a \<Longrightarrow> db_ok d \<Longrightarrow>
             order_evolves a (f a) \<and> order_ok (f a)"
  shows "good_step d (snd (update_orders P f d))"
proof -
  have "db_ok (snd (update_orders P f d)) \<and> db_evolves d (snd (update_orders P f d))"
    if ok: "db_ok d"
  proof
    show "db_ok (snd (update_orders P f d))"
      by (rule update_orders_ok [OF ok]) (use assms ok in blast)
    show "db_evolves d (snd (update_orders P f d))"
      by (rule update_orders_evolves) (use assms ok db_okD(2) [OF ok] in blast)
  qed
  then show ?thesis by (simp add: good_step_def)
qed

lemma snd_returning_row [simp]: "snd (returning_row x) = snd x"
  by (cases x; cases "fst x") (auto simp: returning_row_def)

lemma snd_nil_if_no_rows [simp]: "snd (nil_if_no_rows m x) = snd x"
  by (cases x; cases "fst x") (auto simp: nil_if_no_rows_def)

lemma good_step_insert_order [inv_intros]:
  assumes "\<And>r. stored_row a = Some r \<Longrightarrow> untouched r \<and> o_status r = Pending"
  shows "good_step d (snd (insert_order a d))"
proof -
  have "db_ok (d\<lparr>orders := orders d @ [r]\<rparr>) \<and> db_evolves d (d\<lparr>orders := orders d @ [r]\<rparr>)"
    if ok: "db_ok d" and r: "stored_row a = Some r" "0 < o_base r" "0 < o_expected r"
      and free: "\<forall>q\<in>set (orders d). \<not> conflicts q r" for r
  proof
    show ev: "db_evolves d (d\<lparr>orders := orders d @ [r]\<rparr>)"
      by (rule db_evolves_sub_orders) auto
    have "order_ok r" using r assms by (auto simp: order_ok_def)
    with ok free show "db_ok (d\<lparr>orders := orders d @ [r]\<rparr>)"
      by (intro db_ok_orders [OF ok _ _ ev]) (auto simp: unique_ok_append1 db_ok_def)
  qed
  then show ?thesis
    by (auto simp: insert_order_def good_step_def not_le split: option.splits)
qed

lemma new_order_untouched:
  "stored_row (new_order i u ch b off req now ex) = Some r \<Longrightarrow> untouched r \<and> o_status r = Pending"
  by (auto simp: stored_row_def new_order_def untouched_def split: option.splits)

lemma good_step_update_confirmations_stmt [inv_intros]:
  "good_step d (snd (update_confirmations_stmt now chain tx h c d))"
  unfolding update_confirmations_stmt_def
  by (auto intro!: good_step_update_orders dest: progress_row_ok)

lemma sort_key_ConsD: "sort_key k xs = y # ys \<Longrightarrow> y \<in> set xs"
  by (rule sort_key_hd_min(1))

lemma good_step_claim_stmt [inv_intros]:
  "good_step d (snd (claim_stmt e chain tx amt h c low high d))"
proof -
  have "good_step d (snd (update_orders (\<lambda>a. o_id a = o_id b) (claim_row now tx h x c) d))"
    if "b \<in> set (exact_candidates e chain low high (orders d))" for b x now
  proof (rule good_step_update_orders)
    fix a assume a: "a \<in> set (orders d)" "o_id a = o_id b" "order_ok a" "db_ok d"
    from that have b: "b \<in> set (orders d)" "free_pending chain b"
      by (auto simp: exact_candidates_def)
    then have "a = b" using a by (blast intro: unique_ok_idD dest: db_okD(1))
    with a b show "order_evolves a (claim_row now tx h x c a) \<and> order_ok (claim_row now tx h x c a)"
      using claim_row_ok [of a chain] by simp
  qed
  then show ?thesis
    by (auto simp: claim_stmt_def split: list.splits option.splits dest!: sort_key_ConsD)
qed

lemma best_candidate_in:
  "best_candidate lib amt mx cs best g = Inr (Some b) \<Longrightarrow> best = Some b \<or> b \<in> set cs"
  by (induction cs arbitrary: best g) (fastforce simp: Let_def split: if_splits)+

lemma good_step_mark_underpaid_stmt:
  assumes "b \<in> set (orders d)" "free_pending chain b"
  shows "good_step d (snd (mark_underpaid_stmt now (o_id b) tx h amt d))"
proof -
  have "good_step d (snd (update_orders (\<lambda>a. o_id a = o_id b) (underpaid_row now tx h x) d))" for x
  proof (rule good_step_update_orders)
    fix a assume a: "a \<in> set (orders d)" "o_id a = o_id b" "order_ok a" "db_ok d"
    then have "a = b" using assms by (blast intro: unique_ok_idD dest: db_okD(1))
    with a assms show "order_evolves a (underpaid_row now tx h x a) \<and> order_ok (underpaid_row now tx h x a)"
      using underpaid_row_ok [of a chain] by simp
  qed
  then show ?thesis by (auto simp: mark_underpaid_stmt_def split: option.splits)
qed

lemma underpaid_candidates_in:
  "b \<in> set (underpaid_candidates e chain amt rows) \<longleftrightarrow>
     b \<in> set rows \<and> free_pending chain b \<and> amt < o_expected b \<and> \<not> locked e (o_id b)"
  by (auto simp: underpaid_candidates_def)

lemma exec_ro_cases:
  obtains (ok) "exec e s (\<lambda>d. (Inr (f d), d)) d = (Inr (f d), d)"
        | (err) m where "exec e s (\<lambda>d. (Inr (f d), d)) d = (Inl (ConnError m), d)"
  by (rule exec_cases [of e s "\<lambda>d. (Inr (f d), d)" d]) auto

lemma snd_ClaimUnderpaid:
  "snd (ClaimUnderpaid lib e chain tx amt h mx d) = d \<or>
   (\<exists>b. b \<in> set (orders d) \<and> free_pending chain b \<and> amt < o_expected b \<and>
        snd (ClaimUnderpaid lib e chain tx amt h mx d) =
          snd (mark_underpaid_stmt (clock e MarkUnderpaid) (o_id b) tx h amt d))"
proof (cases rule: exec_ro_cases [of e BeginUnderpaid "\<lambda>_. ()" d])
  case beg: ok
  let ?cs = "underpaid_candidates e chain amt (orders d)"
  show ?thesis
  proof (cases rule: exec_ro_cases [of e SelectCandidates "\<lambda>d. underpaid_candidates e chain amt (orders d)" d])
    case sel: ok
    show ?thesis
    proof (cases "\<exists>b. best_candidate lib amt mx ?cs None 0 = Inr (Some b)")
      case True
      then obtain b where b: "best_candidate lib amt mx ?cs None 0 = Inr (Some b)" by blast
      then have "b \<in> set (orders d)" "free_pending chain b" "amt < o_expected b"
        by (auto dest!: best_candidate_in simp: underpaid_candidates_in)
      moreover have "snd (ClaimUnderpaid lib e chain tx amt h mx d) \<in>
          {d, snd (exec e MarkUnderpaid (mark_underpaid_stmt (clock e MarkUnderpaid) (o_id b) tx h amt) d)}"
        using beg sel b
        by (auto simp: ClaimUnderpaid_def exec_def [of e CommitUnderpaid]
            split: sum.splits prod.splits outcome.splits)
      ultimately show ?thesis using snd_exec by fastforce
    next
      case False
      then show ?thesis using beg sel
        by (auto simp: ClaimUnderpaid_def split: sum.splits option.splits)
    qed
  qed (use beg in \<open>simp add: ClaimUnderpaid_def\<close>)
qed (simp add: ClaimUnderpaid_def)

lemma good_step_ClaimUnderpaid [inv_intros]:
  "good_step d (snd (ClaimUnderpaid lib e chain tx amt h mx d))"
  using snd_ClaimUnderpaid [of lib e chain tx amt h mx d] good_step_mark_underpaid_stmt
  by auto

lemma good_step_expire [inv_intros]:
  "good_step d (snd (update_orders (past_due now) (expire_row now) d))"
  by (auto intro!: good_step_update_orders dest: expire_row_ok)

text \<open>A review item may name an order only after that order was marked underpaid by it.\<close>

definition review_args_ok ::
    "order list \<Rightarrow> string \<Rightarrow> string \<Rightarrow> amount \<Rightarrow> review_reason \<Rightarrow> uuid option \<Rightarrow> bool" where
  "review_args_ok rows chain tx amt reason related \<longleftrightarrow>
     (case related of
        None \<Rightarrow> reason = ReasonUnmatched
      | Some i \<Rightarrow> reason = ReasonUnderpaid \<and>
          (\<exists>a\<in>set rows. o_id a = i \<and> o_status a = Underpaid \<and> o_chain a = chain \<and>
             o_tx a = Some tx \<and> (\<forall>x. numeric20_8 amt = Some x \<longrightarrow> o_received a = Some x)))"

lemma good_step_insert_review [inv_intros]:
  assumes "review_args_ok (orders d) chain tx amt reason related"
  shows "good_step d (snd (insert_review_stmt now chain tx amt reason related d))"
  using assms
  by (auto simp: insert_review_stmt_def good_step_def db_ok_def db_evolves_def review_args_ok_def
      review_ok_def underpaid_by_def image_iff Let_def split: option.splits intro: order_evolves_refl)

lemma good_step_insert_audit [inv_intros]:
  "good_step d (snd (insert_audit_stmt now i chain tx ev det d))"
  by (auto simp: insert_audit_stmt_def good_step_def db_ok_def db_evolves_def audit_ok_def
      split: option.splits intro: order_evolves_refl)

lemma good_step_Log [inv_intros]: "good_step d (snd (Log e k i chain tx ev det d))"
  unfolding Log_def by (intro inv_intros)

lemma good_step_same_tables:
  "orders d' = orders d \<Longrightarrow> reviews d' = reviews d \<Longrightarrow> audit d' = audit d \<Longrightarrow> good_step d d'"
  by (auto simp: good_step_def db_ok_def intro!: db_evolves_sub_orders)

lemma good_step_cursor_stmts [inv_intros]:
  "good_step d (snd (get_cursor_stmt now c d))"
  "good_step d (snd (set_cursor_stmt now c h t d))"
  by (rule good_step_same_tables; simp)+

text \<open>The rows of a table may be scanned in any order.\<close>

lemma unique_ok_iff_pairwise:
  "unique_ok rows \<longleftrightarrow>
     distinct rows \<and> (\<forall>a\<in>set rows. \<forall>b\<in>set rows. a \<noteq> b \<longrightarrow> \<not> conflicts a b)"
proof
  assume u: "unique_ok rows"
  have "distinct rows" using u unfolding unique_ok_def
    by (induction rows) (auto simp: conflict_defs)
  with u show "distinct rows \<and> (\<forall>a\<in>set rows. \<forall>b\<in>set rows. a \<noteq> b \<longrightarrow> \<not> conflicts a b)"
    using unique_okD by blast
next
  assume "distinct rows \<and> (\<forall>a\<in>set rows. \<forall>b\<in>set rows. a \<noteq> b \<longrightarrow> \<not> conflicts a b)"
  then show "unique_ok rows"
    by (induction rows) (auto simp: unique_ok_def)
qed

lemma unique_ok_perm: "mset rows' = mset rows \<Longrightarrow> unique_ok rows' \<longleftrightarrow> unique_ok rows"
  using mset_eq_imp_distinct_iff [of rows' rows] mset_eq_setD [of rows' rows]
  by (simp add: unique_ok_iff_pairwise)

lemma good_step_reorder:
  assumes "mset rows = mset (orders d)"
  shows "good_step d (d\<lparr>orders := rows\<rparr>)"
proof -
  have sets: "set rows = set (orders d)" by (rule mset_eq_setD [OF assms])
  have ev: "db_evolves d (d\<lparr>orders := rows\<rparr>)" by (rule db_evolves_sub_orders) (simp_all add: sets)
  have "db_ok (d\<lparr>orders := rows\<rparr>)" if "db_ok d"
    by (rule db_ok_orders [OF that _ _ ev])
      (use that in \<open>simp_all add: sets unique_ok_perm [OF assms] db_okD\<close>)
  with ev show ?thesis by (simp add: good_step_def)
qed

subsection \<open>Runs\<close>

inductive db_step :: "amount \<Rightarrow> db \<Rightarrow> db \<Rightarrow> bool" for tol where
  insert_order:
    "db_step tol d (snd (exec e s (insert_order (new_order i u chain b off req now ex)) d))"
| confirm: "db_step tol d (snd (exec e s (update_confirmations_stmt now chain tx h c) d))"
| claim: 
    "db_step tol d (snd (exec e s (claim_stmt e' chain tx amt h c (amt - tol) (amt + tol)) d))"
| underpaid: "db_step tol d (snd (ClaimUnderpaid lib e chain tx amt h mx d))"
| expire: "db_step tol d (snd (exec e s (update_orders (past_due now) (expire_row now)) d))"
| review:
    "review_args_ok (orders d) chain tx amt reason related \<Longrightarrow>
     db_step tol d (snd (exec e s (insert_review_stmt now chain tx amt reason related) d))"
| log: "db_step tol d (snd (Log e k i chain tx ev det d))"
| get_cursor: "db_step tol d (snd (exec e s (get_cursor_stmt now chain) d))"
| set_cursor: "db_step tol d (snd (exec e s (set_cursor_stmt now chain h t) d))"
| reorder: "mset rows = mset (orders d) \<Longrightarrow> db_step tol d (d\<lparr>orders := rows\<rparr>)"

inductive_cases db_stepE: "db_step tol d d'"

abbreviation db_steps :: "amount \<Rightarrow> db \<Rightarrow> db \<Rightarrow> bool" where
  "db_steps tol \<equiv> (db_step tol)\<^sup>*\<^sup>*"

inductive reachable :: "amount \<Rightarrow> db \<Rightarrow> bool" for tol where
  start: "reachable tol empty_db"
| step: "reachable tol d \<Longrightarrow> db_step tol d d' \<Longrightarrow> reachable tol d'"

lemma db_step_good: "db_step tol d d' \<Longrightarrow> good_step d d'"
proof (induction rule: db_step.induct)
  case (insert_order d e s i u chain b off req now ex)
  show ?case by (intro good_step_exec good_step_insert_order) (rule new_order_untouched)
next
  case (review d chain tx amt reason related e s now)
  then show ?case by (intro good_step_exec good_step_insert_review)
next
  case (reorder rows d)
  then show ?case by (rule good_step_reorder)
qed (intro inv_intros)+

lemma db_steps_good: "db_steps tol d d' \<Longrightarrow> good_step d d'"
  by (induction rule: rtranclp_induct) (auto intro: good_step_trans db_step_good)

lemma db_steps_ok: "db_steps tol d d' \<Longrightarrow> db_ok d \<Longrightarrow> db_ok d'"
  and db_steps_evolves: "db_steps tol d d' \<Longrightarrow> db_ok d \<Longrightarrow> db_evolves d d'"
  using db_steps_good [of tol d d'] by (simp_all add: good_step_def)

lemma reachable_db_ok: "reachable tol d \<Longrightarrow> db_ok d"
  by (induction rule: reachable.induct) (use db_step_good in \<open>auto simp: good_step_def\<close>)

lemma reachable_db_steps: "db_steps tol d d' \<Longrightarrow> reachable tol d \<Longrightarrow> reachable tol d'"
  by (induction rule: rtranclp_induct) (auto intro: reachable.step)

subsection \<open>What confirms an order\<close>

text \<open>
  Only a payment within the tolerance starts or completes the confirmation of an order:
  the received amount differs from the expected one by at most the tolerance and half a
  unit of the column's last place.
\<close>

definition paid_within :: "amount \<Rightarrow> order \<Rightarrow> bool" where
  "paid_within tol a \<longleftrightarrow>
     (o_status a = Confirming \<or> o_status a = Confirmed \<longrightarrow>
        (\<exists>r. o_received a = Some r \<and> \<bar>o_expected a - r\<bar> \<le> tol + 1 / (2 * 10 ^ 8)))"

lemma paid_within_rows [row_simps]:
  "progress_target chain tx c a \<Longrightarrow> paid_within tol a \<Longrightarrow> paid_within tol (progress_row now h c a)"
  "paid_within tol (underpaid_row now tx h x a)"
  "paid_within tol (expire_row now a)"
  by (auto simp: paid_within_def progress_target_def progress_row_def underpaid_row_def expire_row_def)

lemma paid_within_claim_row:
  assumes "amt - tol \<le> o_expected a" "o_expected a \<le> amt + tol" "numeric20_8 amt = Some x"
  shows "paid_within tol (claim_row now tx h x c a)"
proof -
  have "x = round_half 8 amt" using assms(3) by (simp add: numeric20_8_SomeD)
  with round_half_close [of 8 amt] have "\<bar>x - amt\<bar> \<le> 1 / (2 * 10 ^ 8)" by simp
  with assms(1,2) have "\<bar>o_expected a - x\<bar> \<le> tol + 1 / (2 * 10 ^ 8)" by linarith
  then show ?thesis by (simp add: paid_within_def claim_row_def)
qed

definition all_paid_within :: "amount \<Rightarrow> db \<Rightarrow> bool" where
  "all_paid_within tol d \<longleftrightarrow> (\<forall>a\<in>set (orders d). paid_within tol a)"

lemma all_paid_exec:
  "all_paid_within tol d \<Longrightarrow> all_paid_within tol (snd (f d)) \<Longrightarrow> all_paid_within tol (snd (exec e s f d))"
  by (rule exec_preserves)

lemma all_paid_same_orders: "orders d' = orders d \<Longrightarrow> all_paid_within tol d' = all_paid_within tol d"
  by (simp add: all_paid_within_def)

lemma all_paid_update_orders:
  assumes "all_paid_within tol d"
    and "\<And>a. a \<in> set (orders d) \<Longrightarrow> P a \<Longrightarrow> paid_within tol a \<Longrightarrow> paid_within tol (f a)"
  shows "all_paid_within tol (snd (update_orders P f d))"
  using assms
  by (cases rule: update_orders_cases [of P f d]) (auto simp: all_paid_within_def set_update_rows)

lemma all_paid_claim_stmt:
  assumes "all_paid_within tol d" "db_ok d"
  shows "all_paid_within tol (snd (claim_stmt e chain tx amt h c (amt - tol) (amt + tol) d))"
proof -
  have "all_paid_within tol (snd (update_orders (\<lambda>a. o_id a = o_id b) (claim_row now tx h x c) d))"
    if "b \<in> set (exact_candidates e chain (amt - tol) (amt + tol) (orders d))" "numeric20_8 amt = Some x"
    for b x now
  proof (rule all_paid_update_orders [OF assms(1)])
    fix a assume a: "a \<in> set (orders d)" "o_id a = o_id b"
    have "a = b" using a that db_okD(1) [OF assms(2)]
      by (intro unique_ok_idD) (auto simp: exact_candidates_def)
    with that show "paid_within tol (claim_row now tx h x c a)"
      by (intro paid_within_claim_row) (auto simp: exact_candidates_def)
  qed
  with assms show ?thesis
    by (auto simp: claim_stmt_def split: list.splits option.splits dest!: sort_key_ConsD)
qed

lemma all_paid_mark_underpaid_stmt:
  "all_paid_within tol d \<Longrightarrow> all_paid_within tol (snd (mark_underpaid_stmt now i tx h amt d))"
  by (auto simp: mark_underpaid_stmt_def split: option.splits
      intro!: all_paid_update_orders row_simps)

lemma all_paid_insert_order:
  assumes "all_paid_within tol d"
  shows "all_paid_within tol (snd (insert_order (new_order i u chain b off req now ex) d))"
  using assms new_order_untouched [of i u chain b off req now ex]
  by (auto simp: insert_order_def all_paid_within_def paid_within_def split: option.splits)

lemma db_step_all_paid:
  assumes "db_step tol d d'" "db_ok d" "all_paid_within tol d"
  shows "all_paid_within tol d'"
  using assms
proof (induction rule: db_step.induct)
  case (confirm d e s now chain tx h c)
  then show ?case
    by (intro all_paid_exec)
      (auto simp: update_confirmations_stmt_def intro!: all_paid_update_orders paid_within_rows(1))
next
  case (underpaid d lib e chain tx amt h mx)
  then show ?case
    using snd_ClaimUnderpaid [of lib e chain tx amt h mx d] all_paid_mark_underpaid_stmt by auto
next
  case (expire d e s now)
  then show ?case by (intro all_paid_exec all_paid_update_orders row_simps)
next
  case (reorder rows d)
  then show ?case using mset_eq_setD [OF reorder.hyps] by (simp add: all_paid_within_def)
next
  case (review d chain tx amt reason related e s now)
  then show ?case
    by (intro all_paid_exec)
      (auto simp: insert_review_stmt_def all_paid_within_def split: option.splits)
next
  case (log d e k i chain tx ev det)
  then show ?case unfolding Log_def
    by (intro all_paid_exec)
      (auto simp: insert_audit_stmt_def all_paid_within_def split: option.splits)
next
  case (insert_order d e s i u chain b off req now ex)
  then show ?case by (intro all_paid_exec all_paid_insert_order)
next
  case (claim d e s e' chain tx amt h c)
  then show ?case by (intro all_paid_exec all_paid_claim_stmt)
next
  case (get_cursor d e s now chain)
  then show ?case by (intro all_paid_exec) (simp_all add: all_paid_within_def)
next
  case (set_cursor d e s now chain h t)
  then show ?case by (intro all_paid_exec) (simp_all add: all_paid_within_def)
qed

lemma reachable_all_paid: "reachable tol d \<Longrightarrow> all_paid_within tol d"
proof (induction rule: reachable.induct)
  case start
  show ?case by (simp add: all_paid_within_def empty_db_def)
next
  case (step d d')
  then show ?case by (blast intro: db_step_all_paid reachable_db_ok)
qed

end
