(* ===== verification/Chains.thy ===== *)
theory Chains
  imports Money
begin

text \<open>
  \<open>internal/chains/watcher.go\<close> and \<open>internal/chains/manager.go\<close>: the data that crosses
  the boundary between watchers and the orders service, the \<open>ChainWatcher\<close> interface as a
  record of functions with its contract (the locale \<open>chain_watcher\<close>), and the manager.
\<close>

subsection \<open>Chains, transfers, events\<close>

definition Tron :: string where "Tron = ''tron''"
definition TON :: string where "TON = ''ton''"
definition Polygon :: string where "Polygon = ''polygon''"
definition BSC :: string where "BSC = ''bsc''"

lemmas chain_defs = Tron_def TON_def Polygon_def BSC_def

record pending_transfer =
  pt_tx :: string
  pt_amount :: amount
  pt_height :: int

record transfer_event =
  ev_chain :: string
  ev_tx :: string
  ev_amount :: amount
  ev_height :: int
  ev_confs :: int
  ev_observed :: time

text \<open>\<open>TransferSink\<close>: what a watcher reports into, on a state of any type.\<close>

type_synonym 's sink = "transfer_event \<Rightarrow> 's \<Rightarrow> unit res \<times> 's"

subsection \<open>The ChainWatcher interface\<close>

text \<open>\<open>w_seed now t w\<close> is \<open>SeedPending\<close>; \<open>now\<close> is the time the watcher reads on the way.\<close>

record 'w watcher_iface =
  w_chain :: "'w \<Rightarrow> string"
  w_required :: "'w \<Rightarrow> int"
  w_seed :: "time \<Rightarrow> pending_transfer \<Rightarrow> 'w \<Rightarrow> unit res \<times> 'w"

text \<open>
  \<open>tracked w\<close> is the watcher's in-flight set, transaction hash to amount and height.
  Seeding never fails, never forgets or overwrites a transfer already tracked, and changes
  nothing else that the interface shows.
\<close>

locale chain_watcher =
  fixes iface :: "'w watcher_iface" and tracked :: "'w \<Rightarrow> string \<rightharpoonup> amount \<times> int"
  assumes seed_result: "fst (w_seed iface now t w) = Inr ()"
    and seed_chain: "w_chain iface (snd (w_seed iface now t w)) = w_chain iface w"
    and seed_required: "w_required iface (snd (w_seed iface now t w)) = w_required iface w"
    and seed_tracked: "tracked (snd (w_seed iface now t w)) =
      (case tracked w (pt_tx t) of
         None \<Rightarrow> (tracked w)(pt_tx t \<mapsto> (pt_amount t, pt_height t))
       | Some _ \<Rightarrow> tracked w)"
begin

lemma seed_keeps: "tracked w tx = Some x \<Longrightarrow> tracked (snd (w_seed iface now t w)) tx = Some x"
  by (auto simp: seed_tracked split: option.splits)

lemma seed_adds: "pt_tx t \<in> dom (tracked (snd (w_seed iface now t w)))"
  by (auto simp: seed_tracked split: option.splits)

lemma seed_twice:
  "tracked (snd (w_seed iface now' t (snd (w_seed iface now t w)))) =
   tracked (snd (w_seed iface now t w))"
  by (auto simp: seed_tracked split: option.splits)

end

subsection \<open>The manager\<close>

record 'w manager =
  iface :: "'w watcher_iface"
  watchers :: "string \<rightharpoonup> 'w"

definition NewManager :: "'w watcher_iface \<Rightarrow> 'w list \<Rightarrow> 'w manager" where
  "NewManager ops ws =
     \<lparr>iface = ops, watchers = foldl (\<lambda>m w. m(w_chain ops w \<mapsto> w)) Map.empty ws\<rparr>"

definition mgr_RequiredConfirmations :: "'w manager \<Rightarrow> string \<Rightarrow> int \<times> bool" where
  "mgr_RequiredConfirmations m chain =
     (case watchers m chain of
        None \<Rightarrow> (0, False)
      | Some w \<Rightarrow> (w_required (iface m) w, True))"

definition mgr_SeedPending ::
    "time \<Rightarrow> string \<Rightarrow> pending_transfer \<Rightarrow> 'w manager \<Rightarrow> unit res \<times> 'w manager" where
  "mgr_SeedPending now chain t m =
     (case watchers m chain of
        None \<Rightarrow> (Inl (NoWatcher chain), m)
      | Some w \<Rightarrow>
          (case w_seed (iface m) now t w of
             (r, w') \<Rightarrow> (r, m\<lparr>watchers := (watchers m)(chain \<mapsto> w')\<rparr>)))"

text \<open>
  Go ranges over a map in an unspecified order: \<open>range_order ks m\<close> says that \<open>ks\<close> is one.
  \<open>Chains()\<close> returns the keys in such an order.
\<close>

definition range_order :: "'k list \<Rightarrow> ('k \<rightharpoonup> 'v) \<Rightarrow> bool" where
  "range_order ks m \<longleftrightarrow> distinct ks \<and> set ks = dom m"

text \<open>
  \<open>Run\<close>: the watchers run side by side, \<open>exits\<close> lists how each of them ended, in the
  order they did: its chain, the error of its \<open>Run\<close> and whether the context was already
  cancelled then. The result is the first error of a watcher that stopped by itself.
\<close>

fun mgr_Run :: "(string \<times> goerr option \<times> bool) list \<Rightarrow> (string \<times> goerr) option" where
  "mgr_Run [] = None"
| "mgr_Run ((chain, err, cancelled) # exits) =
     (case err of
        Some x \<Rightarrow> if \<not> cancelled then Some (chain, x) else mgr_Run exits
      | None \<Rightarrow> mgr_Run exits)"

lemma find_snoc:
  "find P (xs @ [x]) = (case find P xs of None \<Rightarrow> if P x then Some x else None | Some y \<Rightarrow> Some y)"
  by (induction xs) auto

lemma find_unique:
  assumes "\<And>x y. x \<in> set xs \<Longrightarrow> y \<in> set xs \<Longrightarrow> P x \<Longrightarrow> P y \<Longrightarrow> x = y"
  shows "find P xs = Some w \<longleftrightarrow> w \<in> set xs \<and> P w"
  using assms by (induction xs) auto

lemma watchers_NewManager_foldl:
  "foldl (\<lambda>m w. m(w_chain ops w \<mapsto> w)) m0 ws chain =
     (case find (\<lambda>w. w_chain ops w = chain) (rev ws) of None \<Rightarrow> m0 chain | Some w \<Rightarrow> Some w)"
proof (induction ws arbitrary: m0)
  case (Cons w ws)
  show ?case unfolding foldl_Cons Cons.IH
    by (auto simp: find_snoc split: option.splits)
qed simp

lemma watchers_NewManager:
  "watchers (NewManager ops ws) chain = find (\<lambda>w. w_chain ops w = chain) (rev ws)"
  by (simp add: NewManager_def watchers_NewManager_foldl split: option.splits)

lemma iface_mgr_SeedPending [simp]: "iface (snd (mgr_SeedPending now chain t m)) = iface m"
  by (auto simp: mgr_SeedPending_def split: option.splits prod.splits)

lemma dom_mgr_SeedPending [simp]:
  "dom (watchers (snd (mgr_SeedPending now chain t m))) = dom (watchers m)"
  by (auto simp: mgr_SeedPending_def split: option.splits prod.splits)

end
