(* ===== verification/Service.thy ===== *)
theory Service
  imports Steps Chains
begin

text \<open>
  \<open>internal/orders/service.go\<close>: creating orders, resolving a transfer, expiring orders and
  reseeding the watchers. A logger call that only writes to \<open>slog\<close> has no effect here.
\<close>

record service =
  s_expiry :: duration
  s_tolerance :: amount
  s_max_gap :: amount
  s_offset_min :: int
  s_offset_max :: int
  s_max_retries :: int

definition minOrderUSD :: amount where
  "minOrderUSD = 1 / 100"

definition maxOrderUSD :: amount where
  "maxOrderUSD = 1000000"

subsection \<open>CreateOrder\<close>

definition CreateOrder ::
    "decimal_lib \<Rightarrow> env \<Rightarrow> entropy \<Rightarrow> service \<Rightarrow> 'w manager \<Rightarrow> string \<Rightarrow> amount \<Rightarrow> string \<Rightarrow> db
      \<Rightarrow> order res \<times> db" where
  "CreateOrder lib e g s mgr userID baseAmountUSD chainStr d =
     (if userID = [] then (Inl UserIDRequired, d)
      else if baseAmountUSD < minOrderUSD \<or> baseAmountUSD > maxOrderUSD then (Inl AmountOutOfRange, d)
      else if chainStr = [] then (Inl ChainRequired, d)
      else
        let chain = to_lower chainStr in
        case mgr_RequiredConfirmations mgr chain of (required, enabled) \<Rightarrow>
          if \<not> enabled then (Inl (ChainNotEnabled chainStr), d)
          else
            case CreateWithUniqueAmount e g userID chain baseAmountUSD required (s_expiry s)
                   (s_offset_min s) (s_offset_max s) (s_max_retries s) d of
              (Inl err, d1) \<Rightarrow> (Inl err, d1)
            | (Inr a, d1) \<Rightarrow>
                (case Log e 0 (Some (o_id a)) chain [] ''order_created''
                        (Some [(''user_id'', JStr userID),
                               (''base_amount_usd'', JStr (dec_string lib baseAmountUSD)),
                               (''expected_amount'', JStr (dec_string lib (o_expected a)))]) d1 of
                   (_, d2) \<Rightarrow> (Inr a, d2)))"

definition service_GetOrder :: "env \<Rightarrow> uuid \<Rightarrow> db \<Rightarrow> order res \<times> db" where
  "service_GetOrder e i d = GetOrder e i d"

lemma service_GetOrder_eq [simp]: "service_GetOrder = GetOrder"
  by (simp add: fun_eq_iff service_GetOrder_def)

subsection \<open>OnTransfer\<close>

definition logProgress :: "decimal_lib \<Rightarrow> env \<Rightarrow> order \<Rightarrow> transfer_event \<Rightarrow> db \<Rightarrow> db" where
  "logProgress lib e a ev d =
     (let d1 = snd (Log e 0 (Some (o_id a)) (ev_chain ev) (ev_tx ev) ''order_confirmation_progress''
                  (Some [(''status'', JStatus (o_status a)), (''confirmations'', JInt (o_confs a))]) d)
      in if o_status a = Confirmed then
           snd (Log e 0 (Some (o_id a)) (ev_chain ev) (ev_tx ev) ''order_confirmed''
                  (Some [(''received_amount'', JStr (dec_string lib (ev_amount ev)))]) d1)
         else d1)"

definition OnTransfer ::
    "decimal_lib \<Rightarrow> env \<Rightarrow> service \<Rightarrow> transfer_event \<Rightarrow> db \<Rightarrow> unit res \<times> db" where
  "OnTransfer lib e s ev d =
     (let amountStr = dec_string lib (ev_amount ev); chain = ev_chain ev; tx = ev_tx ev;
          d0 = snd (Log e 0 None chain tx ''transfer_observed''
                 (Some [(''amount'', JStr amountStr), (''confirmations'', JInt (ev_confs ev)),
                        (''block_height'', JInt (ev_height ev))]) d)
      in case UpdateConfirmations e chain tx (ev_height ev) (ev_confs ev) d0 of
        (Inl err, d1) \<Rightarrow> (Inl err, d1)
      | (Inr (Some a), d1) \<Rightarrow> (Inr (), logProgress lib e a ev d1)
      | (Inr None, d1) \<Rightarrow>
      (case TxAlreadyClaimed e chain tx d1 of
        (Inl err, d2) \<Rightarrow> (Inl err, d2)
      | (Inr True, d2) \<Rightarrow> (Inr (), d2)
      | (Inr False, d2) \<Rightarrow>
      (case ClaimExactMatch e chain tx (ev_amount ev) (ev_height ev) (ev_confs ev) (s_tolerance s) d2 of
        (Inl err, d3) \<Rightarrow> (Inl err, d3)
      | (Inr (Some a), d3) \<Rightarrow>
          (let d4 = snd (Log e 0 (Some (o_id a)) chain tx ''order_matched''
                      (Some [(''expected_amount'', JStr (dec_string lib (o_expected a))),
                             (''received_amount'', JStr amountStr)]) d3)
           in (Inr (), logProgress lib e a ev d4))
      | (Inr None, d3) \<Rightarrow>
      (case ClaimUnderpaid lib e chain tx (ev_amount ev) (ev_height ev) (s_max_gap s) d3 of
        (Inl err, d4) \<Rightarrow> (Inl err, d4)
      | (Inr (Some a), d4) \<Rightarrow>
          (let d5 = snd (Log e 0 (Some (o_id a)) chain tx ''order_underpaid''
                      (Some [(''expected_amount'', JStr (dec_string lib (o_expected a))),
                             (''received_amount'', JStr amountStr)]) d4)
           in (Inr (), snd (LogReviewItem e chain tx (ev_amount ev) ReasonUnderpaid (Some (o_id a)) d5)))
      | (Inr None, d4) \<Rightarrow>
          (let d5 = snd (Log e 0 None chain tx ''transfer_unmatched''
                      (Some [(''amount'', JStr amountStr)]) d4)
           in (Inr (), snd (LogReviewItem e chain tx (ev_amount ev) ReasonUnmatched None d5)))))))"

subsection \<open>Expiry\<close>

text \<open>The audit entries of the expired orders, numbered by their place in the result.\<close>

fun log_expired :: "env \<Rightarrow> nat \<Rightarrow> order list \<Rightarrow> db \<Rightarrow> db" where
  "log_expired e k [] d = d"
| "log_expired e k (a # as) d =
     log_expired e (Suc k) as (snd (Log e k (Some (o_id a)) (o_chain a) [] ''order_expired'' None d))"

definition expireOnce :: "env \<Rightarrow> db \<Rightarrow> db" where
  "expireOnce e d =
     (case ExpirePastDue e d of
        (Inl _, d1) \<Rightarrow> d1
      | (Inr expired, d1) \<Rightarrow> log_expired e 0 expired d1)"

text \<open>\<open>RunExpiryLoop\<close>: one \<open>expireOnce\<close> per tick until the context is cancelled.\<close>

fun RunExpiryLoop :: "env list \<Rightarrow> db \<Rightarrow> db" where
  "RunExpiryLoop [] d = d"
| "RunExpiryLoop (e # ticks) d = RunExpiryLoop ticks (expireOnce e d)"

subsection \<open>LoadPendingTransfers\<close>

fun seed_orders :: "time \<Rightarrow> string \<Rightarrow> order list \<Rightarrow> 'w manager \<Rightarrow> 'w manager" where
  "seed_orders now chain [] mgr = mgr"
| "seed_orders now chain (a # as) mgr =
     (case (o_tx a, o_received a) of
        (Some tx, Some received) \<Rightarrow>
          let blockHeight = (case o_height a of None \<Rightarrow> 0 | Some h \<Rightarrow> h);
              transfer = \<lparr>pt_tx = tx, pt_amount = received, pt_height = blockHeight\<rparr>
          in seed_orders now chain as (snd (mgr_SeedPending now chain transfer mgr))
      | _ \<Rightarrow> seed_orders now chain as mgr)"

text \<open>The list argument is the order in which \<open>Chains()\<close> lists the watchers.\<close>

fun LoadPendingTransfers ::
    "env \<Rightarrow> time \<Rightarrow> string list \<Rightarrow> 'w manager \<Rightarrow> db \<Rightarrow> unit res \<times> 'w manager \<times> db" where
  "LoadPendingTransfers e now [] mgr d = (Inr (), mgr, d)"
| "LoadPendingTransfers e now (chain # cs) mgr d =
     (case ListConfirming e chain d of
        (Inl err, d1) \<Rightarrow> (Inl (Wrap (''list confirming orders for '' @ chain) err), mgr, d1)
      | (Inr confirming, d1) \<Rightarrow>
          LoadPendingTransfers e now cs (seed_orders now chain confirming mgr) d1)"

end
