(* ===== verification/RepositoryFacts.thy ===== *)
theory RepositoryFacts
  imports Steps
begin

text \<open>
  What each repository method returns and stores when its round trips succeed, as
  equations on good databases; the proofs about the service rest on these and never
  unfold a statement again.
\<close>

subsection \<open>Updates that keep the indexes\<close>

lemma unique_ok_update_same_keys:
  assumes "unique_ok rows"
    and "\<And>r. r \<in> set rows \<Longrightarrow> P r \<Longrightarrow>
      o_id (f r) = o_id r \<and> o_chain (f r) = o_chain r \<and> o_tx (f r) = o_tx r \<and>
      o_status (f r) \<noteq> Pending"
  shows "unique_ok (update_rows P f rows)"
  unfolding unique_ok_def update_rows_def
  by (rule sorted_wrt_mapI [OF assms(1) [unfolded unique_ok_def]])
    (auto simp: conflict_defs assms(2))

lemma unique_ok_update_new_tx:
  assumes "unique_ok rows" "b \<in> set rows"
    and f: "o_id (f b) = o_id b" "o_chain (f b) = o_chain b" "o_status (f b) \<noteq> Pending"
      "o_tx (f b) = Some t"
    and free: "\<And>r. r \<in> set rows \<Longrightarrow> o_chain r = o_chain b \<Longrightarrow> o_tx r \<noteq> Some t"
  shows "unique_ok (update_rows (\<lambda>a. o_id a = o_id b) f rows)"
proof -
  have eq: "r = b" if "r \<in> set rows" "o_id r = o_id b" for r
    using assms(1,2) that by (blast intro: unique_ok_idD)
  show ?thesis
    unfolding unique_ok_def update_rows_def
  proof (rule sorted_wrt_mapI [OF assms(1) [unfolded unique_ok_def]])
    fix x y assume xy: "x \<in> set rows" "y \<in> set rows" "\<not> conflicts x y"
    then show "\<not> conflicts (if o_id x = o_id b then f x else x) (if o_id y = o_id b then f y else y)"
      using eq [of x] eq [of y] f free [of x] free [of y] by (auto simp: conflict_defs)
  qed
qed

lemma update_orders_done:
  "unique_ok (update_rows P f (orders d)) \<Longrightarrow>
   update_orders P f d =
     (Inr (map f (filter P (orders d))), d\<lparr>orders := update_rows P f (orders d)\<rparr>)"
  by (simp add: update_orders_def)

lemma filter_id_unique:
  "unique_ok rows \<Longrightarrow> b \<in> set rows \<Longrightarrow> filter (\<lambda>a. o_id a = o_id b) rows = [b]"
proof (induction rows)
  case (Cons r rows)
  show ?case
  proof (cases "r = b")
    case True
    with Cons.prems(1) show ?thesis
      by (auto simp: unique_ok_def conflict_defs filter_empty_conv)
  next
    case False
    with Cons have b: "b \<in> set rows" "unique_ok rows" "\<not> conflicts r b"
      by (auto simp: unique_ok_def)
    with Cons.IH show ?thesis by (auto simp: conflict_defs)
  qed
qed simp

subsection \<open>UpdateConfirmations\<close>

text \<open>At most one order of a chain carries a given transaction.\<close>

lemma filter_progress_target:
  assumes "unique_ok rows" "a \<in> set rows" "progress_target chain tx c a"
  shows "filter (progress_target chain tx c) rows = [a]"
    and "update_rows (progress_target chain tx c) f rows = update_rows (\<lambda>b. o_id b = o_id a) f rows"
proof -
  have same: "progress_target chain tx c b \<longleftrightarrow> o_id b = o_id a" if "b \<in> set rows" for b
  proof
    assume "progress_target chain tx c b"
    then have "b = a" using assms that
      by (intro unique_ok_txD [of rows b a tx]) (auto simp: progress_target_def)
    then show "o_id b = o_id a" by simp
  next
    assume "o_id b = o_id a"
    then have "b = a" using assms that by (blast intro: unique_ok_idD)
    with assms(3) show "progress_target chain tx c b" by simp
  qed
  have "filter (progress_target chain tx c) rows = filter (\<lambda>b. o_id b = o_id a) rows"
    by (rule filter_cong) (use same in auto)
  then show "filter (progress_target chain tx c) rows = [a]"
    using filter_id_unique [OF assms(1,2)] by simp
  show "update_rows (progress_target chain tx c) f rows = update_rows (\<lambda>b. o_id b = o_id a) f rows"
    unfolding update_rows_def by (rule map_cong) (use same in auto)
qed

lemma UpdateConfirmations_no_target:
  assumes "outcome_of e UpdateConfs = Runs" "in_i32 c" "unique_ok (orders d)"
    and "\<And>a. a \<in> set (orders d) \<Longrightarrow> \<not> progress_target chain tx c a"
  shows "UpdateConfirmations e chain tx h c d = (Inr None, d)"
proof -
  have "filter (progress_target chain tx c) (orders d) = []"
    using assms(4) by (simp add: filter_empty_conv)
  moreover have "update_rows (progress_target chain tx c) f (orders d) = orders d" for f
    using assms(4) by (simp add: update_rows_none)
  ultimately show ?thesis using assms(1-3)
    by (simp add: UpdateConfirmations_def update_confirmations_stmt_def update_orders_def
        returning_row_def nil_if_no_rows_def)
qed

lemma UpdateConfirmations_target:
  assumes "outcome_of e UpdateConfs = Runs" "in_i32 c" "unique_ok (orders d)"
    and "a \<in> set (orders d)" "progress_target chain tx c a"
  shows "UpdateConfirmations e chain tx h c d =
    (Inr (Some (progress_row (clock e UpdateConfs) h c a)),
     d\<lparr>orders := update_rows (\<lambda>b. o_id b = o_id a) (progress_row (clock e UpdateConfs) h c) (orders d)\<rparr>)"
proof -
  let ?f = "progress_row (clock e UpdateConfs) h c"
  have "unique_ok (update_rows (progress_target chain tx c) ?f (orders d))"
    by (rule unique_ok_update_same_keys [OF assms(3)])
      (auto simp: progress_row_def progress_status_def)
  then show ?thesis using assms filter_progress_target [OF assms(3-5)]
    by (simp add: UpdateConfirmations_def update_confirmations_stmt_def update_orders_done
        returning_row_def nil_if_no_rows_def)
qed

subsection \<open>TxAlreadyClaimed\<close>

lemma TxAlreadyClaimed_runs:
  "outcome_of e SelectTxExists = Runs \<Longrightarrow>
   TxAlreadyClaimed e chain tx d =
     (Inr (\<exists>a\<in>set (orders d). o_chain a = chain \<and> o_tx a = Some tx), d)"
  by (simp add: TxAlreadyClaimed_def)

subsection \<open>ClaimExactMatch\<close>

definition exact_match :: "env \<Rightarrow> string \<Rightarrow> amount \<Rightarrow> amount \<Rightarrow> order \<Rightarrow> bool" where
  "exact_match e chain tolerance amt a \<longleftrightarrow>
     free_pending chain a \<and> \<bar>o_expected a - amt\<bar> \<le> tolerance \<and> \<not> locked e (o_id a)"

lemma in_exact_candidates:
  "a \<in> set (exact_candidates e chain (amt - tol) (amt + tol) rows) \<longleftrightarrow>
     a \<in> set rows \<and> exact_match e chain tol amt a"
  by (auto simp: exact_candidates_def exact_match_def abs_le_iff)

lemma ClaimExactMatch_none:
  assumes "outcome_of e UpdateClaim = Runs" "in_i32 c"
    and "\<And>a. a \<in> set (orders d) \<Longrightarrow> \<not> exact_match e chain tol amt a"
  shows "ClaimExactMatch e chain tx amt h c tol d = (Inr None, d)"
proof -
  have "exact_candidates e chain (amt - tol) (amt + tol) (orders d) = []"
    using assms(3) in_exact_candidates [of _ e chain amt tol "orders d"]
    by (metis ex_in_conv set_empty)
  then show ?thesis using assms(1,2)
    by (simp add: ClaimExactMatch_def claim_stmt_def nil_if_no_rows_def)
qed

lemma ClaimExactMatch_some:
  assumes "outcome_of e UpdateClaim = Runs" "in_i32 c" "unique_ok (orders d)"
    and "numeric20_8 amt = Some x"
    and ex: "a0 \<in> set (orders d)" "exact_match e chain tol amt a0"
    and free: "\<And>r. r \<in> set (orders d) \<Longrightarrow> o_chain r = chain \<Longrightarrow> o_tx r \<noteq> Some tx"
  obtains a where "a \<in> set (orders d)" "exact_match e chain tol amt a"
    "\<And>b. b \<in> set (orders d) \<Longrightarrow> exact_match e chain tol amt b \<Longrightarrow> o_expires a \<le> o_expires b"
    "ClaimExactMatch e chain tx amt h c tol d =
      (Inr (Some (claim_row (clock e UpdateClaim) tx h x c a)),
       d\<lparr>orders := update_rows (\<lambda>b. o_id b = o_id a) (claim_row (clock e UpdateClaim) tx h x c)
          (orders d)\<rparr>)"
proof -
  let ?cs = "exact_candidates e chain (amt - tol) (amt + tol) (orders d)"
  let ?f = "claim_row (clock e UpdateClaim) tx h x c"
  have "?cs \<noteq> []" using ex in_exact_candidates [of a0 e chain amt tol "orders d"] by auto
  then obtain a as where s: "sort_key o_expires ?cs = a # as"
    by (cases "sort_key o_expires ?cs") auto
  from sort_key_hd_min [OF s] have a: "a \<in> set (orders d)" "exact_match e chain tol amt a"
    and old: "\<And>b. b \<in> set (orders d) \<Longrightarrow> exact_match e chain tol amt b \<Longrightarrow> o_expires a \<le> o_expires b"
    by (auto simp: in_exact_candidates)
  have ch: "o_chain a = chain" using a by (simp add: exact_match_def free_pending_def)
  have "unique_ok (update_rows (\<lambda>b. o_id b = o_id a) ?f (orders d))"
    by (rule unique_ok_update_new_tx [OF assms(3) a(1), where t = tx])
      (use free ch in \<open>auto simp: claim_row_def progress_status_def\<close>)
  then have "ClaimExactMatch e chain tx amt h c tol d =
      (Inr (Some (?f a)), d\<lparr>orders := update_rows (\<lambda>b. o_id b = o_id a) ?f (orders d)\<rparr>)"
    using assms(1,2,4) s filter_id_unique [OF assms(3) a(1)]
    by (simp add: ClaimExactMatch_def claim_stmt_def update_orders_done returning_row_def
        nil_if_no_rows_def)
  then show ?thesis using a old that by blast
qed

subsection \<open>ClaimUnderpaid\<close>

definition healthy :: "env \<Rightarrow> bool" where
  "healthy e \<longleftrightarrow> (\<forall>s. outcome_of e s = Runs)"

lemma healthy_runs [simp]: "healthy e \<Longrightarrow> outcome_of e s = Runs"
  by (simp add: healthy_def)

definition short_match ::
    "decimal_lib \<Rightarrow> env \<Rightarrow> string \<Rightarrow> amount \<Rightarrow> amount \<Rightarrow> order \<Rightarrow> bool" where
  "short_match lib e chain maxGap amt a \<longleftrightarrow>
     free_pending chain a \<and> amt < o_expected a \<and> \<not> locked e (o_id a) \<and>
     gap_percent lib amt a \<le> maxGap"

lemma best_candidate_keeps:
  "(\<And>c. c \<in> set cs \<Longrightarrow> o_expected c \<noteq> 0 \<and> g \<le> gap_percent lib amt c) \<Longrightarrow>
   best_candidate lib amt mx cs (Some b) g = Inr (Some b)"
  by (induction cs) (force simp: Let_def)+

lemma best_candidate_skips:
  "(\<And>c. c \<in> set cs \<Longrightarrow> o_expected c \<noteq> 0 \<and> mx < gap_percent lib amt c) \<Longrightarrow>
   best_candidate lib amt mx cs None g = Inr None"
  by (induction cs) (auto simp: Let_def)

context decimal_library
begin

text \<open>The gap grows with the expected amount, so the first candidate has the smallest.\<close>

lemma gap_percent_mono:
  assumes "0 \<le> amt" "amt < o_expected a" "o_expected a \<le> o_expected b"
  shows "gap_percent lib amt a \<le> gap_percent lib amt b"
proof -
  have pos: "0 < o_expected a" "0 < o_expected b" using assms by linarith+
  have "amt / o_expected b \<le> amt / o_expected a"
    using assms pos by (intro divide_left_mono) auto
  then have "(o_expected a - amt) / o_expected a \<le> (o_expected b - amt) / o_expected b"
    using pos by (simp add: diff_divide_distrib)
  then have "dec_div lib (o_expected a - amt) (o_expected a)
      \<le> dec_div lib (o_expected b - amt) (o_expected b)"
    using assms pos by (intro div_mono) auto
  then show ?thesis by (simp add: gap_percent_def)
qed

lemma best_candidate_sorted:
  assumes "0 \<le> amt" "sorted (map o_expected (c # cs))" "\<And>b. b \<in> set (c # cs) \<Longrightarrow> amt < o_expected b"
  shows "best_candidate lib amt mx (c # cs) None 0 =
    Inr (if gap_percent lib amt c \<le> mx then Some c else None)"
proof -
  have nz: "o_expected b \<noteq> 0" if "b \<in> set (c # cs)" for b
    using assms(1) assms(3) [OF that] by linarith
  have g: "gap_percent lib amt c \<le> gap_percent lib amt b" if "b \<in> set cs" for b
    using assms that by (intro gap_percent_mono) auto
  show ?thesis
  proof (cases "gap_percent lib amt c \<le> mx")
    case True
    have "best_candidate lib amt mx cs (Some c) (gap_percent lib amt c) = Inr (Some c)"
      by (rule best_candidate_keeps) (use nz g in auto)
    with True nz show ?thesis by (simp add: Let_def not_less)
  next
    case False
    have "best_candidate lib amt mx cs None 0 = Inr None"
      by (rule best_candidate_skips) (use nz g False in \<open>force simp: not_le\<close>)
    with False nz show ?thesis by (simp add: Let_def not_le)
  qed
qed

lemma best_candidate_cases:
  assumes "0 \<le> amt"
  shows "(\<forall>a\<in>set rows. \<not> short_match lib e chain mx amt a) \<and>
       best_candidate lib amt mx (underpaid_candidates e chain amt rows) None 0 = Inr None \<or>
     (\<exists>a\<in>set rows. short_match lib e chain mx amt a \<and>
       (\<forall>b\<in>set rows. free_pending chain b \<and> amt < o_expected b \<and> \<not> locked e (o_id b) \<longrightarrow>
          o_expected a \<le> o_expected b) \<and>
       best_candidate lib amt mx (underpaid_candidates e chain amt rows) None 0 = Inr (Some a))"
proof (cases "underpaid_candidates e chain amt rows")
  case Nil
  then have "\<not> short_match lib e chain mx amt a" if "a \<in> set rows" for a
    using that underpaid_candidates_in [of a e chain amt rows] by (auto simp: short_match_def)
  with Nil show ?thesis by simp
next
  case (Cons c cs)
  have in_iff: "b \<in> set (c # cs) \<longleftrightarrow>
      b \<in> set rows \<and> free_pending chain b \<and> amt < o_expected b \<and> \<not> locked e (o_id b)" for b
    using underpaid_candidates_in [of b e chain amt rows] by (simp add: Cons)
  have srt: "sorted (map o_expected (c # cs))"
    using Cons unfolding underpaid_candidates_def by (metis sorted_sort_key)
  have best: "best_candidate lib amt mx (c # cs) None 0 =
      Inr (if gap_percent lib amt c \<le> mx then Some c else None)"
    by (rule best_candidate_sorted [OF assms srt]) (simp only: in_iff)
  have c: "c \<in> set rows \<and> free_pending chain c \<and> amt < o_expected c \<and> \<not> locked e (o_id c)"
    using in_iff [of c] by simp
  have min: "o_expected c \<le> o_expected b"
    if "b \<in> set rows" "free_pending chain b" "amt < o_expected b" "\<not> locked e (o_id b)" for b
    using that in_iff [of b] srt by auto
  show ?thesis
  proof (cases "gap_percent lib amt c \<le> mx")
    case True
    with best c min Cons show ?thesis by (intro disjI2 bexI [of _ c]) (auto simp: short_match_def)
  next
    case False
    have "\<not> short_match lib e chain mx amt a" if "a \<in> set rows" for a
      using gap_percent_mono [OF assms, of c a] min [of a] c False that
      by (auto simp: short_match_def)
    with best False Cons show ?thesis by simp
  qed
qed

lemma ClaimUnderpaid_none:
  assumes "healthy e" "0 \<le> amt" "\<And>a. a \<in> set (orders d) \<Longrightarrow> \<not> short_match lib e chain mx amt a"
  shows "ClaimUnderpaid lib e chain tx amt h mx d = (Inr None, d)"
  using best_candidate_cases [OF assms(2), of "orders d" e chain mx] assms
  by (auto simp: ClaimUnderpaid_def)

lemma ClaimUnderpaid_some:
  assumes "healthy e" "0 \<le> amt" "unique_ok (orders d)" "numeric20_8 amt = Some x"
    and ex: "a0 \<in> set (orders d)" "short_match lib e chain mx amt a0"
    and free: "\<And>r. r \<in> set (orders d) \<Longrightarrow> o_chain r = chain \<Longrightarrow> o_tx r \<noteq> Some tx"
  obtains a where "a \<in> set (orders d)" "short_match lib e chain mx amt a"
    "\<And>b. b \<in> set (orders d) \<Longrightarrow> free_pending chain b \<Longrightarrow> amt < o_expected b \<Longrightarrow>
       \<not> locked e (o_id b) \<Longrightarrow> o_expected a \<le> o_expected b"
    "ClaimUnderpaid lib e chain tx amt h mx d =
      (Inr (Some (underpaid_row (clock e MarkUnderpaid) tx h x a)),
       d\<lparr>orders := update_rows (\<lambda>b. o_id b = o_id a) (underpaid_row (clock e MarkUnderpaid) tx h x)
          (orders d)\<rparr>)"
proof -
  let ?f = "underpaid_row (clock e MarkUnderpaid) tx h x"
  obtain a where a: "a \<in> set (orders d)" "short_match lib e chain mx amt a"
    and min: "\<And>b. b \<in> set (orders d) \<Longrightarrow> free_pending chain b \<Longrightarrow> amt < o_expected b \<Longrightarrow>
       \<not> locked e (o_id b) \<Longrightarrow> o_expected a \<le> o_expected b"
    and best: "best_candidate lib amt mx (underpaid_candidates e chain amt (orders d)) None 0 = Inr (Some a)"
    using best_candidate_cases [OF assms(2), of "orders d" e chain mx] ex by blast
  have ch: "o_chain a = chain" using a by (simp add: short_match_def free_pending_def)
  have "unique_ok (update_rows (\<lambda>b. o_id b = o_id a) ?f (orders d))"
    by (rule unique_ok_update_new_tx [OF assms(3) a(1), where t = tx])
      (use free ch in \<open>auto simp: underpaid_row_def\<close>)
  then have "ClaimUnderpaid lib e chain tx amt h mx d =
      (Inr (Some (?f a)), d\<lparr>orders := update_rows (\<lambda>b. o_id b = o_id a) ?f (orders d)\<rparr>)"
    using assms(1,4) best filter_id_unique [OF assms(3) a(1)]
    by (simp add: ClaimUnderpaid_def mark_underpaid_stmt_def update_orders_done returning_row_def)
  then show ?thesis using a min that by blast
qed

end

end
