(* ===== verification/ServiceFacts.thy ===== *)
theory ServiceFacts
  imports Service RepositoryFacts
begin

text \<open>
  Facts about the orders service: each handler is a sequence of database steps (so it
  keeps the invariant and moves orders forward under every failure), and the effect of
  \<open>OnTransfer\<close> on the tables in each of its cases.
\<close>

named_theorems step_dests

subsection \<open>Methods as database steps\<close>

lemma db_steps1: "db_step tol d d' \<Longrightarrow> db_steps tol d d'"
  by (rule r_into_rtranclp)

lemma Log_steps [step_dests]: "db_steps tol d (snd (Log e k i chain tx ev det d))"
  by (rule db_steps1) (rule db_step.log)

lemma Log_stepsD: "Log e k i chain tx ev det d = (r, d') \<Longrightarrow> db_steps tol d d'"
  by (metis Log_steps snd_conv)

lemma tables_Log [simp]:
  "orders (snd (Log e k i chain tx ev det d)) = orders d"
  "reviews (snd (Log e k i chain tx ev det d)) = reviews d"
  "cursors (snd (Log e k i chain tx ev det d)) = cursors d"
  using snd_exec [of e "InsertAudit ev k" "insert_audit_stmt (clock e (InsertAudit ev k)) i chain tx ev det" d]
  by (auto simp: Log_def insert_audit_stmt_def split: option.splits if_splits)

lemma tables_logProgress [simp]:
  "orders (logProgress lib e a ev d) = orders d"
  "reviews (logProgress lib e a ev d) = reviews d"
  "cursors (logProgress lib e a ev d) = cursors d"
  by (simp_all add: logProgress_def Let_def)

lemma logProgress_steps: "db_steps tol d (logProgress lib e a ev d)"
  by (auto simp: logProgress_def Let_def intro: Log_steps rtranclp_trans [OF Log_steps Log_steps])

lemma UpdateConfirmations_steps [step_dests]:
  "UpdateConfirmations e chain tx h c d = (r, d') \<Longrightarrow> db_steps tol d d'"
  by (metis UpdateConfirmations_def snd_nil_if_no_rows snd_conv db_step.confirm db_steps1)

lemma TxAlreadyClaimed_same: "TxAlreadyClaimed e chain tx d = (r, d') \<Longrightarrow> d' = d"
  by (auto simp: TxAlreadyClaimed_def exec_def split: outcome.splits)

lemma ClaimExactMatch_steps [step_dests]:
  "ClaimExactMatch e chain tx amt h c tol d = (r, d') \<Longrightarrow> db_steps tol d d'"
  by (metis ClaimExactMatch_def snd_nil_if_no_rows snd_conv db_step.claim db_steps1)

lemma ClaimUnderpaid_steps [step_dests]:
  "ClaimUnderpaid lib e chain tx amt h mx d = (r, d') \<Longrightarrow> db_steps tol d d'"
  by (metis snd_conv db_step.underpaid db_steps1)

lemma snd_LogReviewItem:
  "snd (LogReviewItem e chain tx amt reason i d) =
   snd (exec e InsertReview (insert_review_stmt (clock e InsertReview) chain tx amt reason i) d)"
  by (auto simp: LogReviewItem_def split: sum.splits prod.splits)

lemma LogReviewItem_steps [step_dests]:
  "review_args_ok (orders d) chain tx amt reason i \<Longrightarrow> db_steps tol d (snd (LogReviewItem e chain tx amt reason i d))"
  unfolding snd_LogReviewItem by (intro db_steps1 db_step.review)

lemma orders_LogReviewItem [simp]:
  "orders (snd (LogReviewItem e chain tx amt reason i d)) = orders d"
  using snd_exec [of e InsertReview "insert_review_stmt (clock e InsertReview) chain tx amt reason i" d]
  by (auto simp: snd_LogReviewItem insert_review_stmt_def split: option.splits if_splits)

lemma review_args_ok_None [simp]: "review_args_ok rows chain tx amt ReasonUnmatched None"
  by (simp add: review_args_ok_def)

text \<open>An underpaid claim leaves the order it returns in the table, attributed and final.\<close>

lemma ClaimUnderpaid_SomeD:
  assumes "ClaimUnderpaid lib e chain tx amt h mx d = (Inr (Some a), d')"
  obtains b x where "b \<in> set (orders d)" "free_pending chain b"
    "numeric20_8 amt = Some x"
    "mark_underpaid_stmt (clock e MarkUnderpaid) (o_id b) tx h amt d = (Inr a, d')"
proof -
  from assms obtain b d1 where b: "best_candidate lib amt mx (underpaid_candidates e chain amt (orders d)) None 0 = Inr (Some b)"
    and m: "exec e MarkUnderpaid (mark_underpaid_stmt (clock e MarkUnderpaid) (o_id b) tx h amt) d = (Inr a, d1)"
    and d': "d' = d1"
    by (auto simp: ClaimUnderpaid_def exec_def [of e BeginUnderpaid] exec_def [of e SelectCandidates]
        exec_def [of e CommitUnderpaid] split: outcome.splits sum.splits option.splits prod.splits)
  from best_candidate_in [OF b] have "b \<in> set (orders d)" "free_pending chain b"
    by (auto simp: underpaid_candidates_in)
  moreover from m d' have s: "mark_underpaid_stmt (clock e MarkUnderpaid) (o_id b) tx h amt d = (Inr a, d')"
    by (auto dest: exec_InrD)
  moreover from s obtain x where "numeric20_8 amt = Some x"
    by (auto simp: mark_underpaid_stmt_def split: option.splits)
  ultimately show ?thesis using that by blast
qed

lemma ClaimUnderpaid_review_args:
  assumes "ClaimUnderpaid lib e chain tx amt h mx d = (Inr (Some a), d')" "db_ok d"
  shows "review_args_ok (orders d') chain tx amt ReasonUnderpaid (Some (o_id a))"
proof -
  from assms(1) obtain b x where b: "b \<in> set (orders d)" "free_pending chain b"
    and x: "numeric20_8 amt = Some x"
    and m: "mark_underpaid_stmt (clock e MarkUnderpaid) (o_id b) tx h amt d = (Inr a, d')"
    by (rule ClaimUnderpaid_SomeD)
  let ?f = "underpaid_row (clock e MarkUnderpaid) tx h x"
  have one: "filter (\<lambda>a. o_id a = o_id b) (orders d) = [b]"
    using b(1) db_okD(1) [OF assms(2)] by (rule filter_id_unique [rotated])
  from m x one have a: "a = ?f b"
    and d': "d' = d\<lparr>orders := update_rows (\<lambda>a. o_id a = o_id b) ?f (orders d)\<rparr>"
    by (auto simp: mark_underpaid_stmt_def update_orders_def returning_row_def Let_def
        split: option.splits if_splits)
  have "?f b \<in> set (orders d')" using b(1) by (auto simp: d' set_update_rows)
  with a b x show ?thesis
    by (auto simp: review_args_ok_def underpaid_row_def free_pending_def intro!: bexI [of _ "?f b"])
qed

lemma OnTransfer_steps:
  assumes "db_ok d"
  shows "db_steps (s_tolerance s) d (snd (OnTransfer lib e s ev d))"
proof -
  let ?tol = "s_tolerance s"
  define chain where "chain = ev_chain ev"
  define tx where "tx = ev_tx ev"
  define d0 where "d0 = snd (Log e 0 None chain tx ''transfer_observed''
     (Some [(''amount'', JStr (dec_string lib (ev_amount ev))), (''confirmations'', JInt (ev_confs ev)),
            (''block_height'', JInt (ev_height ev))]) d)"
  have s0: "db_steps ?tol d d0" unfolding d0_def by (rule Log_steps)
  obtain r1 d1 where u: "UpdateConfirmations e chain tx (ev_height ev) (ev_confs ev) d0 = (r1, d1)"
    by (metis surj_pair)
  have s1: "db_steps ?tol d d1" using s0 UpdateConfirmations_steps [OF u] by (rule rtranclp_trans)
  obtain r3 d3 where c: "ClaimExactMatch e chain tx (ev_amount ev) (ev_height ev) (ev_confs ev)
      (s_tolerance s) d1 = (r3, d3)" by (metis surj_pair)
  have s3: "db_steps ?tol d d3" using s1 ClaimExactMatch_steps [OF c] by (rule rtranclp_trans)
  obtain r4 d4 where p: "ClaimUnderpaid lib e chain tx (ev_amount ev) (ev_height ev) (s_max_gap s) d3 = (r4, d4)"
    by (metis surj_pair)
  have s4: "db_steps ?tol d d4" using s3 ClaimUnderpaid_steps [OF p] by (rule rtranclp_trans)
  have review: "db_steps ?tol d (snd (LogReviewItem e chain tx (ev_amount ev) ReasonUnderpaid (Some (o_id a))
      (snd (Log e 0 i chain tx v det d4))))" if "r4 = Inr (Some a)" for a i v det
  proof -
    have "db_ok d3" using db_steps_ok [OF s3 assms] .
    with p that have "review_args_ok (orders d4) chain tx (ev_amount ev) ReasonUnderpaid (Some (o_id a))"
      using ClaimUnderpaid_review_args by blast
    then have "db_steps ?tol (snd (Log e 0 i chain tx v det d4))
        (snd (LogReviewItem e chain tx (ev_amount ev) ReasonUnderpaid (Some (o_id a))
          (snd (Log e 0 i chain tx v det d4))))"
      by (intro LogReviewItem_steps) simp
    with s4 Log_steps [of ?tol d4] show ?thesis by (meson rtranclp_trans)
  qed
  have unmatched: "db_steps ?tol d (snd (LogReviewItem e chain tx (ev_amount ev) ReasonUnmatched None
      (snd (Log e 0 i chain tx v det d4))))" for i v det
    using s4 Log_steps [of ?tol d4] LogReviewItem_steps [OF review_args_ok_None]
    by (meson rtranclp_trans)
  have matched: "db_steps ?tol d (logProgress lib e a ev (snd (Log e 0 i chain tx v det d3)))" for a i v det
    using s3 Log_steps [of ?tol d3] logProgress_steps by (meson rtranclp_trans)
  have progress: "db_steps ?tol d (logProgress lib e a ev d1)" for a
    using s1 logProgress_steps by (rule rtranclp_trans)
  have same: "TxAlreadyClaimed e chain tx d1 = (r, d2) \<Longrightarrow> d2 = d1" for r d2
    by (rule TxAlreadyClaimed_same)
  show ?thesis
    unfolding OnTransfer_def Let_def chain_def [symmetric] tx_def [symmetric] d0_def [symmetric]
    by (auto simp: u s1 progress split: sum.splits option.splits prod.splits bool.splits dest!: same)
      (auto simp: c s3 p s4 matched review unmatched split: sum.splits option.splits prod.splits bool.splits)
qed

lemma log_expired_steps: "db_steps tol d (log_expired e k as d)"
  by (induction as arbitrary: k d) (auto intro: rtranclp_trans [OF Log_steps])

lemma expireOnce_steps: "db_steps tol d (expireOnce e d)"
proof -
  obtain r d1 where x: "exec e UpdateExpired (update_orders (past_due (clock e UpdateExpired))
      (expire_row (clock e UpdateExpired))) d = (r, d1)" by (metis surj_pair)
  then have "db_steps tol d d1" by (metis db_step.expire db_steps1 snd_conv)
  then show ?thesis using log_expired_steps
    by (auto simp: expireOnce_def ExpirePastDue_def x split: sum.splits intro: rtranclp_trans)
qed

end
