(* ===== verification/Matching.thy ===== *)
theory Matching
  imports ServiceFacts
begin

text \<open>
  What the service promises about a transfer (docs.md, "How matching works"), stated on an
  abstract ledger: orders by id, review items by chain and transaction. \<open>transfer_spec\<close> has
  one rule per numbered step of the document, and \<open>OnTransfer\<close> refines it.
\<close>

subsection \<open>The abstract ledger\<close>

record ledger =
  l_orders :: "uuid \<rightharpoonup> order"
  l_reviews :: "string \<times> string \<rightharpoonup> review_item"

definition by_id :: "order list \<Rightarrow> uuid \<rightharpoonup> order" where
  "by_id rows = map_of (map (\<lambda>a. (o_id a, a)) rows)"

definition by_tx :: "review_item list \<Rightarrow> string \<times> string \<rightharpoonup> review_item" where
  "by_tx rows = map_of (map (\<lambda>r. ((r_chain r, r_tx r), r)) rows)"

definition ledger_of :: "db \<Rightarrow> ledger" where
  "ledger_of d = \<lparr>l_orders = by_id (orders d), l_reviews = by_tx (reviews d)\<rparr>"

lemma ledger_of_sel [simp]:
  "l_orders (ledger_of d) = by_id (orders d)" "l_reviews (ledger_of d) = by_tx (reviews d)"
  by (simp_all add: ledger_of_def)

lemma by_id_SomeD: "by_id rows i = Some a \<Longrightarrow> a \<in> set rows \<and> o_id a = i"
  by (auto simp: by_id_def dest!: map_of_SomeD)

lemma by_id_iff: "unique_ok rows \<Longrightarrow> by_id rows i = Some a \<longleftrightarrow> a \<in> set rows \<and> o_id a = i"
proof
  assume u: "unique_ok rows" and a: "a \<in> set rows \<and> o_id a = i"
  have "distinct (map o_id rows)"
    using u unfolding unique_ok_def by (induction rows) (auto simp: conflict_defs)
  then show "by_id rows i = Some a"
    using a unfolding by_id_def by (intro map_of_is_SomeI) (auto simp: comp_def)
qed (rule by_id_SomeD)

lemma by_id_update:
  assumes "unique_ok rows" "a \<in> set rows" "\<And>b. o_id (f b) = o_id b"
  shows "by_id (update_rows (\<lambda>b. o_id b = o_id a) f rows) = (by_id rows)(o_id a \<mapsto> f a)"
proof
  fix i
  have "by_id (update_rows (\<lambda>b. o_id b = o_id a) f rows) i =
      (if i = o_id a then map_option f (by_id rows i) else by_id rows i)"
    unfolding by_id_def by (induction rows) (auto simp: assms(3))
  moreover have "by_id rows (o_id a) = Some a" using assms(1,2) by (simp add: by_id_iff)
  ultimately show "by_id (update_rows (\<lambda>b. o_id b = o_id a) f rows) i = ((by_id rows)(o_id a \<mapsto> f a)) i"
    by auto
qed

lemma by_tx_None_iff: "by_tx rows (chain, tx) = None \<longleftrightarrow> (\<forall>r\<in>set rows. \<not> (r_chain r = chain \<and> r_tx r = tx))"
  by (auto simp: by_tx_def map_of_eq_None_iff image_iff)

lemma by_tx_snoc:
  "by_tx rows (r_chain r, r_tx r) = None \<Longrightarrow> by_tx (rows @ [r]) = (by_tx rows)((r_chain r, r_tx r) \<mapsto> r)"
  by (auto simp: by_tx_def map_add_def fun_eq_iff split: option.splits)

definition with_review :: "ledger \<Rightarrow> review_item \<Rightarrow> ledger" where
  "with_review L r =
     (if l_reviews L (r_chain r, r_tx r) = None
      then L\<lparr>l_reviews := (l_reviews L)((r_chain r, r_tx r) \<mapsto> r)\<rparr> else L)"

lemma l_orders_with_review [simp]: "l_orders (with_review L r) = l_orders L"
  by (simp add: with_review_def)

lemma ledger_insert_review:
  assumes "healthy e" "numeric20_8 amt = Some x" "\<And>j. i = Some j \<Longrightarrow> has_order (orders d) j"
  shows "ledger_of (snd (LogReviewItem e chain tx amt reason i d)) =
    with_review (ledger_of d) (review_row (clock e InsertReview) chain tx x reason i)"
  using assms
  by (auto simp: snd_LogReviewItem insert_review_stmt_def with_review_def ledger_of_def by_tx_None_iff
      by_tx_snoc split: option.splits)

lemma ledger_insert_unmatched:
  "healthy e \<Longrightarrow> numeric20_8 amt = Some x \<Longrightarrow>
   ledger_of (snd (LogReviewItem e chain tx amt reason None d)) =
     with_review (ledger_of d) (review_row (clock e InsertReview) chain tx x reason None)"
  by (rule ledger_insert_review) auto

subsection \<open>The specification\<close>

definition l_claimed :: "ledger \<Rightarrow> string \<Rightarrow> string \<Rightarrow> bool" where
  "l_claimed L chain tx \<longleftrightarrow> (\<exists>i a. l_orders L i = Some a \<and> o_chain a = chain \<and> o_tx a = Some tx)"

definition l_has :: "ledger \<Rightarrow> (order \<Rightarrow> bool) \<Rightarrow> bool" where
  "l_has L P \<longleftrightarrow> (\<exists>i a. l_orders L i = Some a \<and> P a)"

definition advances :: "transfer_event \<Rightarrow> order \<Rightarrow> bool" where
  "advances ev a \<longleftrightarrow> progress_target (ev_chain ev) (ev_tx ev) (ev_confs ev) a"

definition pays :: "env \<Rightarrow> service \<Rightarrow> transfer_event \<Rightarrow> order \<Rightarrow> bool" where
  "pays e s ev a \<longleftrightarrow> exact_match e (ev_chain ev) (s_tolerance s) (ev_amount ev) a"

definition underpays :: "decimal_lib \<Rightarrow> env \<Rightarrow> service \<Rightarrow> transfer_event \<Rightarrow> order \<Rightarrow> bool" where
  "underpays lib e s ev a \<longleftrightarrow> short_match lib e (ev_chain ev) (s_max_gap s) (ev_amount ev) a"

text \<open>\<open>x\<close> is the amount as the NUMERIC(20,8) columns hold it.\<close>

inductive transfer_spec ::
    "decimal_lib \<Rightarrow> env \<Rightarrow> service \<Rightarrow> transfer_event \<Rightarrow> amount \<Rightarrow> ledger \<Rightarrow> ledger \<Rightarrow> bool"
  for lib e s ev x where
  advance:
    "l_orders L i = Some a \<Longrightarrow> advances ev a \<Longrightarrow>
     transfer_spec lib e s ev x L
       (L\<lparr>l_orders := (l_orders L)(i \<mapsto>
          progress_row (clock e UpdateConfs) (ev_height ev) (ev_confs ev) a)\<rparr>)"
| repeat:
    "l_claimed L (ev_chain ev) (ev_tx ev) \<Longrightarrow> \<not> l_has L (advances ev) \<Longrightarrow>
     transfer_spec lib e s ev x L L"
| exact:
    "\<not> l_claimed L (ev_chain ev) (ev_tx ev) \<Longrightarrow>
     l_orders L i = Some a \<Longrightarrow> pays e s ev a \<Longrightarrow>
     (\<And>j b. l_orders L j = Some b \<Longrightarrow> pays e s ev b \<Longrightarrow> o_expires a \<le> o_expires b) \<Longrightarrow>
     transfer_spec lib e s ev x L
       (L\<lparr>l_orders := (l_orders L)(i \<mapsto>
          claim_row (clock e UpdateClaim) (ev_tx ev) (ev_height ev) x (ev_confs ev) a)\<rparr>)"
| short:
    "\<not> l_claimed L (ev_chain ev) (ev_tx ev) \<Longrightarrow> \<not> l_has L (pays e s ev) \<Longrightarrow>
     l_orders L i = Some a \<Longrightarrow> underpays lib e s ev a \<Longrightarrow>
     (\<And>j b. l_orders L j = Some b \<Longrightarrow> underpays lib e s ev b \<Longrightarrow> o_expected a \<le> o_expected b) \<Longrightarrow>
     transfer_spec lib e s ev x L
       (with_review
          (L\<lparr>l_orders := (l_orders L)(i \<mapsto>
             underpaid_row (clock e MarkUnderpaid) (ev_tx ev) (ev_height ev) x a)\<rparr>)
          (review_row (clock e InsertReview) (ev_chain ev) (ev_tx ev) x ReasonUnderpaid (Some i)))"
| unmatched:
    "\<not> l_claimed L (ev_chain ev) (ev_tx ev) \<Longrightarrow> \<not> l_has L (pays e s ev) \<Longrightarrow>
     \<not> l_has L (underpays lib e s ev) \<Longrightarrow>
     transfer_spec lib e s ev x L
       (with_review L
          (review_row (clock e InsertReview) (ev_chain ev) (ev_tx ev) x ReasonUnmatched None))"

inductive_cases transfer_specE: "transfer_spec lib e s ev x L L'"

lemma l_claimed_ledger:
  "unique_ok (orders d) \<Longrightarrow>
   l_claimed (ledger_of d) chain tx \<longleftrightarrow> (\<exists>a\<in>set (orders d). o_chain a = chain \<and> o_tx a = Some tx)"
  by (auto simp: l_claimed_def by_id_iff)

lemma l_has_ledger:
  "unique_ok (orders d) \<Longrightarrow> l_has (ledger_of d) P \<longleftrightarrow> (\<exists>a\<in>set (orders d). P a)"
  by (auto simp: l_has_def by_id_iff)

lemma id_rows [simp]:
  "o_id (progress_row now h c a) = o_id a"
  "o_id (claim_row now tx h x c a) = o_id a"
  "o_id (underpaid_row now tx h x a) = o_id a"
  by (simp_all add: progress_row_def claim_row_def underpaid_row_def)

subsection \<open>OnTransfer refines it\<close>

lemma ledger_Log [simp]: "ledger_of (snd (Log e k i chain tx v det d)) = ledger_of d"
  by (simp add: ledger_of_def)

lemma ledger_logProgress [simp]: "ledger_of (logProgress lib e a ev d) = ledger_of d"
  by (simp add: ledger_of_def)

lemma ledger_update:
  assumes "unique_ok (orders d)" "a \<in> set (orders d)" "\<And>b. o_id (f b) = o_id b"
  shows "ledger_of (d\<lparr>orders := update_rows (\<lambda>b. o_id b = o_id a) f (orders d)\<rparr>) =
    (ledger_of d)\<lparr>l_orders := (by_id (orders d))(o_id a \<mapsto> f a)\<rparr>"
  by (simp add: ledger_of_def by_id_update [OF assms])

text \<open>The effect of each case, in a healthy environment.\<close>

abbreviation observed :: "decimal_lib \<Rightarrow> env \<Rightarrow> transfer_event \<Rightarrow> db \<Rightarrow> db" where
  "observed lib e ev d \<equiv>
     snd (Log e 0 None (ev_chain ev) (ev_tx ev) ''transfer_observed''
       (Some [(''amount'', JStr (dec_string lib (ev_amount ev))), (''confirmations'', JInt (ev_confs ev)),
              (''block_height'', JInt (ev_height ev))]) d)"

lemma OnTransfer_advance:
  assumes "healthy e" "unique_ok (orders d)" "in_i32 (ev_confs ev)"
    and "a \<in> set (orders d)" "advances ev a"
  shows "fst (OnTransfer lib e s ev d) = Inr () \<and>
    ledger_of (snd (OnTransfer lib e s ev d)) = (ledger_of d)\<lparr>l_orders := (by_id (orders d))(o_id a \<mapsto>
      progress_row (clock e UpdateConfs) (ev_height ev) (ev_confs ev) a)\<rparr>"
  using assms UpdateConfirmations_target [of e "ev_confs ev" "observed lib e ev d" a "ev_chain ev" "ev_tx ev" "ev_height ev"]
    ledger_update [of "observed lib e ev d" a "progress_row (clock e UpdateConfs) (ev_height ev) (ev_confs ev)"]
  by (simp add: OnTransfer_def advances_def Let_def)

lemma OnTransfer_no_advance:
  assumes "healthy e" "unique_ok (orders d)" "in_i32 (ev_confs ev)"
    and "\<And>a. a \<in> set (orders d) \<Longrightarrow> \<not> advances ev a"
  shows "UpdateConfirmations e (ev_chain ev) (ev_tx ev) (ev_height ev) (ev_confs ev) (observed lib e ev d) =
    (Inr None, observed lib e ev d)"
  using assms by (intro UpdateConfirmations_no_target) (auto simp: advances_def)

lemma OnTransfer_repeat:
  assumes "healthy e" "unique_ok (orders d)" "in_i32 (ev_confs ev)"
    and "\<And>a. a \<in> set (orders d) \<Longrightarrow> \<not> advances ev a"
    and "\<exists>a\<in>set (orders d). o_chain a = ev_chain ev \<and> o_tx a = Some (ev_tx ev)"
  shows "OnTransfer lib e s ev d = (Inr (), observed lib e ev d)"
  using assms OnTransfer_no_advance [OF assms(1-4), of lib]
  by (auto simp: OnTransfer_def Let_def TxAlreadyClaimed_runs)

text \<open>A transaction no order carries cannot advance one.\<close>

lemma unclaimed_no_advance:
  "\<not> (\<exists>a\<in>set rows. o_chain a = ev_chain ev \<and> o_tx a = Some (ev_tx ev)) \<Longrightarrow> a \<in> set rows \<Longrightarrow>
   \<not> advances ev a"
  by (auto simp: advances_def progress_target_def)

lemma OnTransfer_unclaimed:
  assumes "healthy e" "\<not> (\<exists>a\<in>set (orders d). o_chain a = ev_chain ev \<and> o_tx a = Some (ev_tx ev))"
  shows "TxAlreadyClaimed e (ev_chain ev) (ev_tx ev) (observed lib e ev d) = (Inr False, observed lib e ev d)"
  using assms by (simp add: TxAlreadyClaimed_runs)

lemma OnTransfer_exact:
  assumes h: "healthy e" and u: "unique_ok (orders d)" and c: "in_i32 (ev_confs ev)"
    and new: "\<not> (\<exists>a\<in>set (orders d). o_chain a = ev_chain ev \<and> o_tx a = Some (ev_tx ev))"
    and x: "numeric20_8 (ev_amount ev) = Some x"
    and ex: "a0 \<in> set (orders d)" "pays e s ev a0"
  obtains a where "a \<in> set (orders d)" "pays e s ev a"
    "\<And>b. b \<in> set (orders d) \<Longrightarrow> pays e s ev b \<Longrightarrow> o_expires a \<le> o_expires b"
    "fst (OnTransfer lib e s ev d) = Inr ()"
    "ledger_of (snd (OnTransfer lib e s ev d)) = (ledger_of d)\<lparr>l_orders := (by_id (orders d))(o_id a \<mapsto>
       claim_row (clock e UpdateClaim) (ev_tx ev) (ev_height ev) x (ev_confs ev) a)\<rparr>"
proof -
  let ?d = "observed lib e ev d"
  let ?f = "claim_row (clock e UpdateClaim) (ev_tx ev) (ev_height ev) x (ev_confs ev)"
  obtain a where a: "a \<in> set (orders d)" "pays e s ev a"
    and old: "\<And>b. b \<in> set (orders d) \<Longrightarrow> pays e s ev b \<Longrightarrow> o_expires a \<le> o_expires b"
    and eq: "ClaimExactMatch e (ev_chain ev) (ev_tx ev) (ev_amount ev) (ev_height ev) (ev_confs ev)
        (s_tolerance s) ?d = (Inr (Some (?f a)), ?d\<lparr>orders := update_rows (\<lambda>b. o_id b = o_id a) ?f (orders ?d)\<rparr>)"
    by (rule ClaimExactMatch_some [where e = e and c = "ev_confs ev" and d = ?d and
          amt = "ev_amount ev" and x = x and ?a0.0 = a0 and chain = "ev_chain ev" and
          tol = "s_tolerance s" and tx = "ev_tx ev" and h = "ev_height ev"])
      (use h u c x new ex in \<open>auto simp: pays_def\<close>)
  have "ledger_of (?d\<lparr>orders := update_rows (\<lambda>b. o_id b = o_id a) ?f (orders ?d)\<rparr>) =
      (ledger_of ?d)\<lparr>l_orders := (by_id (orders ?d))(o_id a \<mapsto> ?f a)\<rparr>"
    by (rule ledger_update) (simp_all add: u a)
  then have "fst (OnTransfer lib e s ev d) = Inr () \<and>
      ledger_of (snd (OnTransfer lib e s ev d)) = (ledger_of d)\<lparr>l_orders := (by_id (orders d))(o_id a \<mapsto> ?f a)\<rparr>"
    using eq by (simp add: OnTransfer_def Let_def OnTransfer_unclaimed [OF h new]
        OnTransfer_no_advance [OF h u c unclaimed_no_advance [OF new]])
  with a old that show ?thesis by blast
qed

lemma OnTransfer_not_exact:
  assumes h: "healthy e" and u: "unique_ok (orders d)" and c: "in_i32 (ev_confs ev)"
    and new: "\<not> (\<exists>a\<in>set (orders d). o_chain a = ev_chain ev \<and> o_tx a = Some (ev_tx ev))"
    and np: "\<And>a. a \<in> set (orders d) \<Longrightarrow> \<not> pays e s ev a"
  shows "ClaimExactMatch e (ev_chain ev) (ev_tx ev) (ev_amount ev) (ev_height ev) (ev_confs ev)
      (s_tolerance s) (observed lib e ev d) = (Inr None, observed lib e ev d)"
  using h c np by (intro ClaimExactMatch_none) (auto simp: pays_def)

context decimal_library
begin

lemma OnTransfer_short:
  assumes h: "healthy e" and u: "unique_ok (orders d)" and c: "in_i32 (ev_confs ev)"
    and new: "\<not> (\<exists>a\<in>set (orders d). o_chain a = ev_chain ev \<and> o_tx a = Some (ev_tx ev))"
    and np: "\<And>a. a \<in> set (orders d) \<Longrightarrow> \<not> pays e s ev a"
    and x: "numeric20_8 (ev_amount ev) = Some x" and amt: "0 \<le> ev_amount ev"
    and ex: "a0 \<in> set (orders d)" "underpays lib e s ev a0"
  obtains a where "a \<in> set (orders d)" "underpays lib e s ev a"
    "\<And>b. b \<in> set (orders d) \<Longrightarrow> underpays lib e s ev b \<Longrightarrow> o_expected a \<le> o_expected b"
    "fst (OnTransfer lib e s ev d) = Inr ()"
    "ledger_of (snd (OnTransfer lib e s ev d)) =
       with_review ((ledger_of d)\<lparr>l_orders := (by_id (orders d))(o_id a \<mapsto>
         underpaid_row (clock e MarkUnderpaid) (ev_tx ev) (ev_height ev) x a)\<rparr>)
         (review_row (clock e InsertReview) (ev_chain ev) (ev_tx ev) x ReasonUnderpaid (Some (o_id a)))"
proof -
  let ?d = "observed lib e ev d"
  let ?f = "underpaid_row (clock e MarkUnderpaid) (ev_tx ev) (ev_height ev) x"
  obtain a where a: "a \<in> set (orders d)" "underpays lib e s ev a"
    and min: "\<And>b. b \<in> set (orders d) \<Longrightarrow> free_pending (ev_chain ev) b \<Longrightarrow> ev_amount ev < o_expected b \<Longrightarrow>
       \<not> locked e (o_id b) \<Longrightarrow> o_expected a \<le> o_expected b"
    and eq: "ClaimUnderpaid lib e (ev_chain ev) (ev_tx ev) (ev_amount ev) (ev_height ev) (s_max_gap s) ?d =
        (Inr (Some (?f a)), ?d\<lparr>orders := update_rows (\<lambda>b. o_id b = o_id a) ?f (orders ?d)\<rparr>)"
    by (rule ClaimUnderpaid_some [where e = e and d = ?d and amt = "ev_amount ev" and x = x and
          ?a0.0 = a0 and chain = "ev_chain ev" and mx = "s_max_gap s" and tx = "ev_tx ev" and
          h = "ev_height ev"])
      (use h u x amt new ex in \<open>auto simp: underpays_def\<close>)
  have closest: "o_expected a \<le> o_expected b" if "b \<in> set (orders d)" "underpays lib e s ev b" for b
    using min that by (auto simp: underpays_def short_match_def)
  define d1 where "d1 = ?d\<lparr>orders := update_rows (\<lambda>b. o_id b = o_id a) ?f (orders ?d)\<rparr>"
  have l1: "ledger_of d1 = (ledger_of d)\<lparr>l_orders := (by_id (orders d))(o_id a \<mapsto> ?f a)\<rparr>"
    unfolding d1_def by (subst ledger_update) (simp_all add: u a)
  have o1: "has_order (orders d1) (o_id a)"
    using a(1) by (auto simp: d1_def has_order_def set_update_rows intro!: bexI [of _ "?f a"])
  have rev: "ledger_of (snd (LogReviewItem e (ev_chain ev) (ev_tx ev) (ev_amount ev) ReasonUnderpaid
        (Some (o_id a)) (snd (Log e 0 i chain tx v det d1)))) =
      with_review (ledger_of d1)
        (review_row (clock e InsertReview) (ev_chain ev) (ev_tx ev) x ReasonUnderpaid (Some (o_id a)))"
    for i chain tx v det
    by (subst ledger_insert_review [OF h x]) (use o1 in auto)
  have "fst (OnTransfer lib e s ev d) = Inr () \<and>
      ledger_of (snd (OnTransfer lib e s ev d)) = with_review (ledger_of d1)
        (review_row (clock e InsertReview) (ev_chain ev) (ev_tx ev) x ReasonUnderpaid (Some (o_id a)))"
    using eq [folded d1_def]
    by (simp add: OnTransfer_def Let_def OnTransfer_unclaimed [OF h new] rev
        OnTransfer_no_advance [OF h u c unclaimed_no_advance [OF new]]
        OnTransfer_not_exact [OF h u c new np])
  with a closest l1 that show ?thesis by simp
qed

lemma OnTransfer_unmatched:
  assumes h: "healthy e" and u: "unique_ok (orders d)" and c: "in_i32 (ev_confs ev)"
    and new: "\<not> (\<exists>a\<in>set (orders d). o_chain a = ev_chain ev \<and> o_tx a = Some (ev_tx ev))"
    and np: "\<And>a. a \<in> set (orders d) \<Longrightarrow> \<not> pays e s ev a"
    and nu: "\<And>a. a \<in> set (orders d) \<Longrightarrow> \<not> underpays lib e s ev a"
    and x: "numeric20_8 (ev_amount ev) = Some x" and amt: "0 \<le> ev_amount ev"
  shows "fst (OnTransfer lib e s ev d) = Inr () \<and>
    ledger_of (snd (OnTransfer lib e s ev d)) =
      with_review (ledger_of d)
        (review_row (clock e InsertReview) (ev_chain ev) (ev_tx ev) x ReasonUnmatched None)"
proof -
  let ?d = "observed lib e ev d"
  have "ClaimUnderpaid lib e (ev_chain ev) (ev_tx ev) (ev_amount ev) (ev_height ev) (s_max_gap s) ?d = (Inr None, ?d)"
    using h amt nu by (intro ClaimUnderpaid_none) (auto simp: underpays_def)
  then show ?thesis
    by (simp add: OnTransfer_def Let_def OnTransfer_unclaimed [OF h new] ledger_insert_unmatched [OF h x]
        OnTransfer_no_advance [OF h u c unclaimed_no_advance [OF new]]
        OnTransfer_not_exact [OF h u c new np])
qed

lemma OnTransfer_refines:
  assumes h: "healthy e" and u: "unique_ok (orders d)" and c: "in_i32 (ev_confs ev)"
    and x: "numeric20_8 (ev_amount ev) = Some x" and amt: "0 \<le> ev_amount ev"
  shows "fst (OnTransfer lib e s ev d) = Inr () \<and>
    transfer_spec lib e s ev x (ledger_of d) (ledger_of (snd (OnTransfer lib e s ev d)))"
proof (cases "\<exists>a\<in>set (orders d). advances ev a")
  case True
  then obtain a where "a \<in> set (orders d)" "advances ev a" by blast
  then show ?thesis
    using OnTransfer_advance [OF h u c, of a lib s] advance [of "ledger_of d" "o_id a" a]
    by (simp add: by_id_iff [OF u])
next
  case na: False
  show ?thesis
  proof (cases "\<exists>a\<in>set (orders d). o_chain a = ev_chain ev \<and> o_tx a = Some (ev_tx ev)")
    case True
    then show ?thesis
      using na OnTransfer_repeat [OF h u c _ True, of lib s] repeat [of "ledger_of d" ev]
      by (simp add: l_claimed_ledger [OF u] l_has_ledger [OF u])
  next
    case new: False
    have nc: "\<not> l_claimed (ledger_of d) (ev_chain ev) (ev_tx ev)" using new by (simp add: l_claimed_ledger [OF u])
    show ?thesis
    proof (cases "\<exists>a\<in>set (orders d). pays e s ev a")
      case True
      then obtain a0 where a0: "a0 \<in> set (orders d)" "pays e s ev a0" by blast
      obtain a where a: "a \<in> set (orders d)" "pays e s ev a"
        and old: "\<And>b. b \<in> set (orders d) \<Longrightarrow> pays e s ev b \<Longrightarrow> o_expires a \<le> o_expires b"
        and eq: "fst (OnTransfer lib e s ev d) = Inr ()"
          "ledger_of (snd (OnTransfer lib e s ev d)) = (ledger_of d)\<lparr>l_orders := (by_id (orders d))(o_id a \<mapsto>
             claim_row (clock e UpdateClaim) (ev_tx ev) (ev_height ev) x (ev_confs ev) a)\<rparr>"
        by (rule OnTransfer_exact [OF h u c new x a0, of lib]) blast
      have "l_orders (ledger_of d) (o_id a) = Some a" using a by (simp add: by_id_iff [OF u])
      from exact [OF nc this a(2)] old eq show ?thesis by (auto dest: by_id_SomeD)
    next
      case np: False
      have lp: "\<not> l_has (ledger_of d) (pays e s ev)" using np by (simp add: l_has_ledger [OF u])
      show ?thesis
      proof (cases "\<exists>a\<in>set (orders d). underpays lib e s ev a")
        case True
        then obtain a0 where a0: "a0 \<in> set (orders d)" "underpays lib e s ev a0" by blast
        obtain a where a: "a \<in> set (orders d)" "underpays lib e s ev a"
          and near: "\<And>b. b \<in> set (orders d) \<Longrightarrow> underpays lib e s ev b \<Longrightarrow> o_expected a \<le> o_expected b"
          and eq: "fst (OnTransfer lib e s ev d) = Inr ()"
            "ledger_of (snd (OnTransfer lib e s ev d)) =
               with_review ((ledger_of d)\<lparr>l_orders := (by_id (orders d))(o_id a \<mapsto>
                 underpaid_row (clock e MarkUnderpaid) (ev_tx ev) (ev_height ev) x a)\<rparr>)
                 (review_row (clock e InsertReview) (ev_chain ev) (ev_tx ev) x ReasonUnderpaid (Some (o_id a)))"
          by (rule OnTransfer_short [OF h u c new _ x amt a0]) (use np in blast)+
        have "l_orders (ledger_of d) (o_id a) = Some a" using a by (simp add: by_id_iff [OF u])
        from short [OF nc lp this a(2)] near eq show ?thesis by (auto dest: by_id_SomeD)
      next
        case False
        with np show ?thesis
          using OnTransfer_unmatched [OF h u c new _ _ x amt, of s] unmatched [OF nc lp, of lib]
          by (simp add: l_has_ledger [OF u])
      qed
    qed
  qed
qed

end

end
