(* ===== verification/Creation.thy ===== *)
theory Creation
  imports ServiceFacts
begin

text \<open>
  Creating an order: what the retry loop of \<open>CreateWithUniqueAmount\<close> stores and returns,
  when it succeeds and when it gives up. The contract of \<open>rand.Intn\<close> is the locale
  \<open>entropy_source\<close>.
\<close>

locale entropy_source =
  fixes g :: entropy
  assumes rand_range: "0 < n \<Longrightarrow> 0 \<le> rand_intn g k n \<and> rand_intn g k n < n"
begin

lemma draw_offset_range:
  assumes "draw_offset g lo hi k = Inr off" "lo \<le> hi" "in_i64 lo" "in_i64 hi"
  shows "lo \<le> off \<and> off \<le> hi"
proof (cases "lo = hi")
  case False
  define n where "n = i64 (hi - lo + 1)"
  have n: "0 < n" and off: "off = i64 (lo + rand_intn g k n)"
    using assms(1,2) False by (auto simp: draw_offset_def n_def Let_def split: if_splits)
  have "n \<le> hi - lo + 1"
  proof (cases "in_i64 (hi - lo + 1)")
    case False
    then show ?thesis using assms(2-4) n in_i64_i64 [of "hi - lo + 1"]
      by (auto simp: n_def in_i64_def)
  qed (simp add: n_def)
  with rand_range [OF n, of k] assms(2) have b: "lo \<le> lo + rand_intn g k n" "lo + rand_intn g k n \<le> hi"
    by auto
  then have "in_i64 (lo + rand_intn g k n)" using assms(3,4) by (blast intro: in_i64_between)
  with b off show ?thesis by simp
qed (use assms in \<open>auto simp: draw_offset_def\<close>)

end

text \<open>A deterministic source, for the closed instances.\<close>

definition counting_entropy :: entropy where
  "counting_entropy = \<lparr>rand_intn = (\<lambda>k n. int k mod n), new_uuid = of_nat\<rparr>"

interpretation counting: entropy_source counting_entropy
  by unfold_locales (simp add: counting_entropy_def)

subsection \<open>The insert\<close>

lemma insert_order_Inr:
  assumes "insert_order a d = (Inr u, d')"
  obtains r where "stored_row a = Some r" "in_i32 (o_required a)" "0 < o_base r" "0 < o_expected r"
    "\<forall>q\<in>set (orders d). \<not> conflicts q r" "d' = d\<lparr>orders := orders d @ [r]\<rparr>"
  using assms by (auto simp: insert_order_def not_le split: if_splits option.splits)

lemma insert_order_Inl_same: "insert_order a d = (Inl err, d') \<Longrightarrow> d' = d"
  by (auto simp: insert_order_def split: if_splits option.splits)

lemma exec_insert_order_retry:
  assumes "exec e s (insert_order a) d = (Inl err, d')" "isUniqueViolation err"
  shows "d' = d"
  using assms
  by (cases rule: exec_cases [of e s "insert_order a" d])
    (auto simp: isUniqueViolation_def dest: insert_order_Inl_same)

lemma create_attempts_Inr:
  assumes "create_attempts e mk chain mr k n d = (Inr a, d')"
  shows "\<exists>j<n. mk (k + j) = Inr a \<and> insert_order a d = (Inr (), d')"
  using assms
proof (induction n arbitrary: k)
  case (Suc n)
  from Suc.prems obtain b where b: "mk k = Inr b" by (auto split: sum.splits)
  show ?case
  proof (cases "fst (exec e (InsertOrder k) (insert_order b) d)")
    case (Inr u)
    then have "exec e (InsertOrder k) (insert_order b) d = (Inr (), snd (exec e (InsertOrder k) (insert_order b) d))"
      by (metis prod.collapse unit.exhaust)
    with Suc.prems b have "a = b" "insert_order b d = (Inr (), d')"
      by (auto split: sum.splits prod.splits dest: exec_InrD)
    with b show ?thesis by (intro exI [of _ 0]) simp
  next
    case (Inl err)
    then obtain d1 where x: "exec e (InsertOrder k) (insert_order b) d = (Inl err, d1)"
      by (metis prod.collapse)
    with Suc.prems b have v: "isUniqueViolation err"
      and rest: "create_attempts e mk chain mr (Suc k) n d1 = (Inr a, d')"
      by (auto split: if_splits)
    from Suc.IH [OF rest [unfolded exec_insert_order_retry [OF x v]]]
    obtain j where "j < n" "mk (Suc k + j) = Inr a" "insert_order a d = (Inr (), d')" by blast
    then show ?thesis by (intro exI [of _ "Suc j"]) simp
  qed
qed simp

text \<open>A retry happens only for a unique violation; any other failure is the result.\<close>

lemma create_attempts_steps:
  assumes "\<And>j a. mk j = Inr a \<Longrightarrow> \<exists>i u ch b off req now ex. a = new_order i u ch b off req now ex"
  shows "db_steps tol d (snd (create_attempts e mk chain mr k n d))"
proof (induction n arbitrary: k d)
  case (Suc n)
  have one: "db_steps tol d (snd (exec e s (insert_order a) d))" if "mk j = Inr a" for a j s
    using assms [OF that] by (metis db_step.insert_order db_steps1)
  show ?case
  proof (cases "mk k")
    case (Inr a)
    obtain r d1 where x: "exec e (InsertOrder k) (insert_order a) d = (r, d1)" by (metis surj_pair)
    have s1: "db_steps tol d d1" using one [OF Inr, of "InsertOrder k"] by (simp add: x)
    with Suc.IH [of d1 "Suc k"] show ?thesis
      by (auto simp: Inr x split: sum.splits intro: rtranclp_trans)
  qed simp
qed simp

lemma build_order_new:
  "build_order e g u ch b req ex lo hi j = Inr a \<Longrightarrow>
   \<exists>off. draw_offset g lo hi j = Inr off \<and>
     a = new_order (new_uuid g j) u ch b off req (clock e (InsertOrder j)) ex"
  by (auto simp: build_order_def split: sum.splits)

lemma CreateWithUniqueAmount_steps:
  "db_steps tol d (snd (CreateWithUniqueAmount e g u ch b req ex lo hi mr d))"
  unfolding CreateWithUniqueAmount_def
  by (simp, intro impI create_attempts_steps) (blast dest: build_order_new)

lemma CreateOrder_steps: "db_steps tol d (snd (CreateOrder lib e g s mgr u b ch d))"
  using CreateWithUniqueAmount_steps [of tol d e g u "to_lower ch" b
      "fst (mgr_RequiredConfirmations mgr (to_lower ch))" "s_expiry s" "s_offset_min s" "s_offset_max s" "s_max_retries s"]
  by (auto simp: CreateOrder_def Let_def split: sum.splits prod.splits
      intro: rtranclp_trans dest!: Log_stepsD [of _ _ _ _ _ _ _ _ _ _ tol])

end
