(* ===== verification/Samples.thy ===== *)
theory Samples
  imports Matching Creation
begin

text \<open>
  Concrete data for the closed instances of the properties: an environment where every
  round trip succeeds, the service with its default configuration, and a database with
  two pending orders for ten dollars on one chain.
\<close>

definition calm :: "time \<Rightarrow> env" where
  "calm t = \<lparr>clock = (\<lambda>_. t), outcome_of = (\<lambda>_. Runs), locked = (\<lambda>_. False)\<rparr>"

lemma calm_sel [simp]:
  "clock (calm t) s = t" "outcome_of (calm t) s = Runs" "locked (calm t) i = False"
  by (simp_all add: calm_def)

lemma healthy_calm [simp]: "healthy (calm t)"
  by (simp add: healthy_def)

definition default_service :: service where
  "default_service =
     \<lparr>s_expiry = 1200000000000, s_tolerance = 2 / 100, s_max_gap = 50,
      s_offset_min = 1, s_offset_max = 99, s_max_retries = 20\<rparr>"

lemma default_service_sel [simp]:
  "s_expiry default_service = 1200000000000" "s_tolerance default_service = 2 / 100"
  "s_max_gap default_service = 50" "s_offset_min default_service = 1"
  "s_offset_max default_service = 99" "s_max_retries default_service = 20"
  by (simp_all add: default_service_def)

definition order_A :: order where
  "order_A = new_order 1 ''alice'' ''tron'' 10 1 3 100 1000"

definition order_B :: order where
  "order_B = new_order 2 ''bob'' ''tron'' 10 99 3 200 1000"

lemmas sample_orders = order_A_def order_B_def new_order_def

definition two_pending :: db where
  "two_pending = empty_db\<lparr>orders := [order_A, order_B]\<rparr>"

lemma two_pending_sel [simp]:
  "orders two_pending = [order_A, order_B]" "reviews two_pending = []" "audit two_pending = []"
  by (simp_all add: two_pending_def empty_db_def)

definition event :: "string \<Rightarrow> amount \<Rightarrow> int \<Rightarrow> transfer_event" where
  "event tx amt c = \<lparr>ev_chain = ''tron'', ev_tx = tx, ev_amount = amt, ev_height = 7,
     ev_confs = c, ev_observed = 0\<rparr>"

lemma event_sel [simp]:
  "ev_chain (event tx amt c) = ''tron''" "ev_tx (event tx amt c) = tx"
  "ev_amount (event tx amt c) = amt" "ev_height (event tx amt c) = 7" "ev_confs (event tx amt c) = c"
  by (simp_all add: event_def)

lemma db_ok_two_pending [simp]: "db_ok two_pending"
  by (simp add: db_ok_def unique_ok_def conflict_defs sample_orders order_ok_def untouched_def)

lemma stored_A: "stored_row order_A = Some order_A" and stored_B: "stored_row order_B = Some order_B"
proof -
  have p: "has_places 8 (10::rat)" "has_places 8 (100001 / 10000)" "has_places 8 (100099 / 10000)"
    using has_places_int_div [of 8 1000000000] has_places_int_div [of 8 1000010000]
      has_places_int_div [of 8 1000990000] by simp_all
  then show "stored_row order_A = Some order_A" "stored_row order_B = Some order_B"
    by (simp_all add: stored_row_def sample_orders numeric20_8_exact)
qed

text \<open>It is reachable: two orders were created.\<close>

lemma reachable_two_pending: "reachable tol two_pending"
proof -
  have a: "insert_order order_A empty_db = (Inr (), empty_db\<lparr>orders := [order_A]\<rparr>)"
    by (simp add: insert_order_def stored_A empty_db_def in_i32_def) (simp add: sample_orders)
  have b: "insert_order order_B (empty_db\<lparr>orders := [order_A]\<rparr>) = (Inr (), two_pending)"
    by (simp add: insert_order_def stored_B empty_db_def in_i32_def two_pending_def)
      (simp add: sample_orders conflict_defs)
  have "reachable tol (snd (exec (calm 0) (InsertOrder 0) (insert_order order_A) empty_db))"
    unfolding order_A_def by (rule reachable.step [OF reachable.start db_step.insert_order])
  then have "reachable tol (empty_db\<lparr>orders := [order_A]\<rparr>)" by (simp add: a)
  then have "reachable tol (snd (exec (calm 0) (InsertOrder 0) (insert_order order_B) (empty_db\<lparr>orders := [order_A]\<rparr>)))"
    unfolding order_B_def by (rule reachable.step [OF _ db_step.insert_order])
  then show ?thesis by (simp add: b)
qed

text \<open>Amounts in ten-thousandths are stored unchanged.\<close>

lemma numeric20_8_4:
  "0 \<le> k \<Longrightarrow> k < 10 ^ 16 \<Longrightarrow> numeric20_8 (of_int k / 10000) = Some (of_int k / 10000)"
  using has_places_int_div [of 8 "k * 10000"]
  by (intro numeric20_8_exact) (simp_all add: field_simps)

text \<open>A transfer of exactly the amount bob was asked for, and what the service does with it.\<close>

definition pays_B :: transfer_event where
  "pays_B = event ''t'' (100099 / 10000) 1"

lemma orders_after_pays_B:
  "orders (snd (OnTransfer lib (calm 5) default_service pays_B two_pending)) =
     [claim_row 5 ''t'' 7 (100099 / 10000) 1 order_A, order_B]"
proof -
  have n: "numeric20_8 (100099 / 10000) = Some (100099 / 10000)"
    using numeric20_8_4 [of 100099] by simp
  show ?thesis
    by (simp add: OnTransfer_def Let_def pays_B_def UpdateConfirmations_def update_confirmations_stmt_def
        in_i32_def update_orders_def progress_target_def returning_row_def nil_if_no_rows_def
        TxAlreadyClaimed_def ClaimExactMatch_def claim_stmt_def exact_candidates_def free_pending_def
        n sample_orders claim_row_def progress_status_def unique_ok_def conflict_defs)
qed

end
