(* ===== verification/OrderProperties.thy ===== *)
theory OrderProperties
  imports Samples
begin

text \<open>
  The properties of the orders service: what holds in every reachable database, how
  orders move, and what a transfer, a creation and an expiry pass do.
\<close>

subsection \<open>Every interleaving, every failure\<close>

text \<open>
  C1. In every database that any interleaving of the program's statements can reach, with
  any of them failing before or after the server ran it, the invariant holds: the three
  unique indexes, the row invariant of every order (in particular a confirmed order has a
  transaction and at least its required confirmations), one review item per transaction,
  and every reference to an order resolves.
\<close>

theorem reachable_invariant: "reachable tol d \<Longrightarrow> db_ok d"
  by (rule reachable_db_ok)

theorem reachable_invariant_witness: "db_ok two_pending \<and> length (orders two_pending) = 2"
  using reachable_invariant [OF reachable_two_pending [of 0]] by simp

text \<open>
  C2. A transaction pays at most one order of its chain, and an order that is confirming or
  confirmed received its expected amount up to the tolerance (and half a unit of the last
  place of the column).
\<close>

theorem payment_safety:
  assumes "reachable tol d"
    and "a \<in> set (orders d)" "b \<in> set (orders d)" "o_chain a = o_chain b"
    and "o_tx a = Some t" "o_tx b = Some t"
  shows "a = b \<and> (o_status a = Confirming \<or> o_status a = Confirmed \<longrightarrow>
    (\<exists>r. o_received a = Some r \<and> \<bar>o_expected a - r\<bar> \<le> tol + 1 / (2 * 10 ^ 8)))"
proof -
  have "a = b"
    using assms(2-6) db_okD(1) [OF reachable_db_ok [OF assms(1)]] by (intro unique_ok_txD)
  moreover have "paid_within tol a"
    using reachable_all_paid [OF assms(1)] assms(2) by (simp add: all_paid_within_def)
  ultimately show ?thesis by (simp add: paid_within_def)
qed

theorem payment_safety_witness:
  "\<bar>o_expected order_A - 100099 / 10000\<bar> \<le> 2 / 100 + 1 / (2 * 10 ^ 8)"
proof -
  let ?a = "claim_row 5 ''t'' 7 (100099 / 10000) 1 order_A"
  have r: "reachable (2 / 100) (snd (OnTransfer reference_decimal (calm 5) default_service pays_B two_pending))"
    using reachable_db_steps [OF OnTransfer_steps [OF db_ok_two_pending, of default_service] reachable_two_pending]
    by simp
  from payment_safety [OF r, of ?a ?a "''t''"] show ?thesis
    by (auto simp: orders_after_pays_B claim_row_def progress_status_def sample_orders)
qed

text \<open>
  C4. Whatever runs between two moments, an order present at the first is present at the
  second, with the same identity, amount and requirements, a status the lifecycle allows,
  its transaction and received amount kept, its confirmations not decreased, and unchanged
  altogether once it is confirmed, underpaid or expired. The audit log and the review
  queue only grow at the end.
\<close>

theorem orders_only_evolve:
  assumes "reachable tol d" "db_steps tol d d'"
  shows "(\<forall>a\<in>set (orders d). \<exists>b\<in>set (orders d'). order_evolves a b) \<and>
    prefix (audit d) (audit d') \<and> prefix (reviews d) (reviews d')"
  using db_steps_evolves [OF assms(2) reachable_db_ok [OF assms(1)]] by (simp add: db_evolves_def)

theorem orders_only_evolve_witness:
  "\<exists>b\<in>set (orders (snd (OnTransfer reference_decimal (calm 5) default_service (event ''t'' 10 1) two_pending))).
     order_evolves order_A b"
proof -
  have "db_steps (2 / 100) two_pending
      (snd (OnTransfer reference_decimal (calm 5) default_service (event ''t'' 10 1) two_pending))"
    using OnTransfer_steps [OF db_ok_two_pending, of default_service] by simp
  from orders_only_evolve [OF reachable_two_pending this] show ?thesis by simp
qed

text \<open>
  A transfer event, a request to create an order and an expiry pass are made of the
  program's statements only, whatever fails on the way: from a reachable database each
  leads to a reachable one.
\<close>

lemma handlers_reach:
  assumes "reachable (s_tolerance s) d"
  shows "reachable (s_tolerance s) (snd (OnTransfer lib e s ev d)) \<and>
    reachable (s_tolerance s) (snd (CreateOrder lib e g s mgr userID amt chainStr d)) \<and>
    reachable (s_tolerance s) (expireOnce e d)"
  using assms OnTransfer_steps [OF reachable_db_ok [OF assms], of s] CreateOrder_steps expireOnce_steps
  by (blast intro: reachable_db_steps)

subsection \<open>Resolving a transfer\<close>

text \<open>
  C9. When its round trips succeed, \<open>OnTransfer\<close> does what the documentation's five steps
  say: on the abstract ledger it is a step of \<open>transfer_spec\<close>, and it returns no error.
\<close>

theorem OnTransfer_refines_spec:
  assumes "decimal_library lib" "healthy e" "db_ok d" "in_i32 (ev_confs ev)"
    and "0 \<le> ev_amount ev" "numeric20_8 (ev_amount ev) = Some x"
  shows "fst (OnTransfer lib e s ev d) = Inr () \<and>
    transfer_spec lib e s ev x (ledger_of d) (ledger_of (snd (OnTransfer lib e s ev d)))"
  using assms by (intro decimal_library.OnTransfer_refines) (simp_all add: db_okD)

theorem OnTransfer_refines_spec_witness:
  "fst (OnTransfer reference_decimal (calm 5) default_service (event ''t'' (100001 / 10000) 1) two_pending) = Inr ()"
  using OnTransfer_refines_spec [OF ref_dec.decimal_library_axioms healthy_calm db_ok_two_pending,
      of "event ''t'' (100001 / 10000) 1" "100001 / 10000" 5 default_service]
    numeric20_8_4 [of 100001] by (simp add: in_i32_def)

definition accounted :: "db \<Rightarrow> string \<Rightarrow> string \<Rightarrow> bool" where
  "accounted d chain tx \<longleftrightarrow>
     (\<exists>a\<in>set (orders d). o_chain a = chain \<and> o_tx a = Some tx) \<or>
     (\<exists>r\<in>set (reviews d). r_chain r = chain \<and> r_tx r = tx)"

lemma accounted_ledger:
  "unique_ok (orders d) \<Longrightarrow>
   accounted d chain tx \<longleftrightarrow>
     l_claimed (ledger_of d) chain tx \<or> l_reviews (ledger_of d) (chain, tx) \<noteq> None"
  by (auto simp: accounted_def l_claimed_ledger by_tx_None_iff)

lemma transfer_spec_accounts:
  assumes "transfer_spec lib e s ev x L L'"
  shows "l_claimed L' (ev_chain ev) (ev_tx ev) \<or> l_reviews L' (ev_chain ev, ev_tx ev) \<noteq> None"
  using assms
proof (induction rule: transfer_spec.induct)
  case (advance L i a)
  then show ?case
    by (auto simp: l_claimed_def advances_def progress_target_def progress_row_def intro!: exI [of _ i])
next
  case (exact L i a)
  then show ?case
    by (auto simp: l_claimed_def pays_def exact_match_def free_pending_def claim_row_def intro!: exI [of _ i])
qed (auto simp: with_review_def)

lemma accounted_evolves:
  assumes "db_evolves d d'" "accounted d chain tx"
  shows "accounted d' chain tx"
  using assms(2) unfolding accounted_def
proof
  assume "\<exists>a\<in>set (orders d). o_chain a = chain \<and> o_tx a = Some tx"
  then obtain a where a: "a \<in> set (orders d)" "o_chain a = chain" "o_tx a = Some tx" by blast
  obtain b where "b \<in> set (orders d')" "order_evolves a b" by (rule db_evolvesE [OF assms(1) a(1)])
  with a show "(\<exists>a\<in>set (orders d'). o_chain a = chain \<and> o_tx a = Some tx) \<or>
      (\<exists>r\<in>set (reviews d'). r_chain r = chain \<and> r_tx r = tx)"
    by (intro disjI1 bexI [of _ b]) (auto simp: order_evolves_def)
next
  assume "\<exists>r\<in>set (reviews d). r_chain r = chain \<and> r_tx r = tx"
  moreover have "set (reviews d) \<subseteq> set (reviews d')"
    using assms(1) by (auto simp: db_evolves_def dest: set_mono_prefix)
  ultimately show "(\<exists>a\<in>set (orders d'). o_chain a = chain \<and> o_tx a = Some tx) \<or>
      (\<exists>r\<in>set (reviews d'). r_chain r = chain \<and> r_tx r = tx)"
    by blast
qed

lemma OnTransfer_accounts:
  assumes "decimal_library lib" "healthy e" "db_ok d" "in_i32 (ev_confs ev)"
    and "0 \<le> ev_amount ev" "numeric20_8 (ev_amount ev) = Some x"
  shows "accounted (snd (OnTransfer lib e s ev d)) (ev_chain ev) (ev_tx ev)"
proof -
  have "transfer_spec lib e s ev x (ledger_of d) (ledger_of (snd (OnTransfer lib e s ev d)))"
    using assms by (intro decimal_library.OnTransfer_refines [THEN conjunct2]) (simp_all add: db_okD)
  from transfer_spec_accounts [OF this] show ?thesis
    using db_steps_ok [OF OnTransfer_steps [OF assms(3)] assms(3)]
    by (simp add: accounted_ledger db_okD(1))
qed

text \<open>
  C10. Received money is never dropped: a transfer that was processed without error is
  attributed to an order of its chain or is in the review queue, and stays so whatever
  happens afterwards.
\<close>

theorem transfer_never_dropped:
  assumes "decimal_library lib" "healthy e" "db_ok d" "in_i32 (ev_confs ev)"
    and "0 \<le> ev_amount ev" "numeric20_8 (ev_amount ev) = Some x"
    and "db_steps tol (snd (OnTransfer lib e s ev d)) d'"
  shows "accounted d' (ev_chain ev) (ev_tx ev)"
  using OnTransfer_accounts [OF assms(1-6), of s]
    db_steps_evolves [OF assms(7) db_steps_ok [OF OnTransfer_steps [OF assms(3)] assms(3)]]
  by (blast intro: accounted_evolves)

theorem transfer_never_dropped_witness:
  "accounted (snd (OnTransfer reference_decimal (calm 5) default_service (event ''t'' 3 1) two_pending))
     ''tron'' ''t''"
  using transfer_never_dropped [OF ref_dec.decimal_library_axioms healthy_calm db_ok_two_pending,
      of "event ''t'' 3 1" 3 0 5 default_service]
    numeric20_8_4 [of 30000] by (simp add: in_i32_def)

definition settled :: "order \<Rightarrow> order" where
  "settled a = a\<lparr>o_updated := 0\<rparr>"

lemma ledger_tx_unique:
  assumes "unique_ok (orders d)" "l_orders (ledger_of d) i = Some a" "l_orders (ledger_of d) j = Some b"
    and "o_chain a = o_chain b" "o_tx a = Some t" "o_tx b = Some t"
  shows "i = j"
proof -
  have "a \<in> set (orders d)" "o_id a = i" "b \<in> set (orders d)" "o_id b = j"
    using assms(2,3) by (auto dest: by_id_SomeD)
  with assms show ?thesis by (metis unique_ok_txD)
qed

lemma progress_again:
  assumes "order_ok a" "o_status a = Confirming" "o_height a = Some h" "o_confs a = c"
  shows "settled (progress_row now h c a) = settled a"
  using assms by (cases a) (simp add: settled_def progress_row_def progress_status_def order_ok_def)

lemma spec_leaves_claimed_row:
  assumes "transfer_spec lib e s ev x L L'" "L' = ledger_of d'" "unique_ok (orders d')"
    and "l_orders L' i = Some a" "advances ev a"
  shows "o_height a = Some (ev_height ev) \<and> o_confs a = ev_confs ev"
  using assms(1)
proof (cases rule: transfer_spec.cases)
  case (advance j b)
  let ?f = "progress_row (clock e UpdateConfs) (ev_height ev) (ev_confs ev) b"
  have "l_orders L' j = Some ?f" using advance by simp
  then have "i = j" using assms(2-5) advance
    by (intro ledger_tx_unique [of d' i a j ?f "ev_tx ev"])
      (auto simp: advances_def progress_target_def progress_row_def)
  with assms(4) advance show ?thesis by (auto simp: progress_row_def)
next
  case repeat
  with assms(4,5) show ?thesis by (auto simp: l_has_def)
next
  case (exact j b)
  let ?f = "claim_row (clock e UpdateClaim) (ev_tx ev) (ev_height ev) x (ev_confs ev) b"
  have "l_orders L' j = Some ?f" using exact by simp
  then have "i = j" using assms(2-5) exact
    by (intro ledger_tx_unique [of d' i a j ?f "ev_tx ev"])
      (auto simp: advances_def progress_target_def claim_row_def pays_def exact_match_def free_pending_def)
  with assms(4) exact show ?thesis by (auto simp: claim_row_def)
next
  case (short j b)
  let ?f = "underpaid_row (clock e MarkUnderpaid) (ev_tx ev) (ev_height ev) x b"
  have f: "l_orders L' j = Some ?f" using short by simp
  then have "i = j" using assms(2-5) short
    by (intro ledger_tx_unique [of d' i a j ?f "ev_tx ev"])
      (auto simp: advances_def progress_target_def underpaid_row_def underpays_def short_match_def free_pending_def)
  with f assms(4) have "a = ?f" by simp
  with assms(5) show ?thesis by (simp add: advances_def progress_target_def underpaid_row_def)
next
  case unmatched
  then have "l_orders L i = Some a" using assms(4) by simp
  with unmatched assms(5) show ?thesis
    by (auto simp: l_claimed_def advances_def progress_target_def)
qed

lemma spec_claims_or_reviews:
  assumes "transfer_spec lib e s ev x L L'" "\<not> l_claimed L' (ev_chain ev) (ev_tx ev)"
  shows "l_orders L' = l_orders L \<and> \<not> l_has L (pays e s ev) \<and> \<not> l_has L (underpays lib e s ev) \<and>
    l_reviews L' (ev_chain ev, ev_tx ev) \<noteq> None"
  using assms
proof (cases rule: transfer_spec.cases)
  case (advance i a)
  with assms(2) show ?thesis
    by (auto simp: l_claimed_def advances_def progress_target_def progress_row_def split: if_splits)
next
  case (exact i a)
  with assms(2) show ?thesis
    by (auto simp: l_claimed_def pays_def exact_match_def free_pending_def claim_row_def split: if_splits)
next
  case (short i a)
  with assms(2) show ?thesis
    by (auto simp: l_claimed_def underpays_def short_match_def free_pending_def underpaid_row_def
        with_review_def split: if_splits)
qed (auto simp: with_review_def)

lemma spec_twice:
  assumes one: "transfer_spec lib e s ev x L L'" and two: "transfer_spec lib e' s ev x L' L''"
    and L': "L' = ledger_of d'" "db_ok d'" and lk: "locked e' = locked e"
  shows "map_option settled (l_orders L'' i) = map_option settled (l_orders L' i) \<and>
    l_reviews L'' = l_reviews L'"
  using two
proof (cases rule: transfer_spec.cases)
  case (advance j a)
  have "o_height a = Some (ev_height ev) \<and> o_confs a = ev_confs ev"
    by (rule spec_leaves_claimed_row [OF one L'(1) db_okD(1) [OF L'(2)] advance(2,3)])
  moreover have "order_ok a" "o_status a = Confirming"
    using advance L' by (auto dest: by_id_SomeD db_okD(2) simp: advances_def progress_target_def)
  ultimately show ?thesis using advance progress_again by auto
next
  case repeat
  then show ?thesis by simp
next
  case (exact j a)
  have "pays e s ev = pays e' s ev" using lk by (auto simp: pays_def exact_match_def fun_eq_iff)
  with exact spec_claims_or_reviews [OF one exact(2)] show ?thesis by (auto simp: l_has_def)
next
  case (short j a)
  have "underpays lib e s ev = underpays lib e' s ev"
    using lk by (auto simp: underpays_def short_match_def fun_eq_iff)
  with short spec_claims_or_reviews [OF one short(2)] show ?thesis by (auto simp: l_has_def)
next
  case unmatched
  with spec_claims_or_reviews [OF one unmatched(2)] show ?thesis by (auto simp: with_review_def)
qed

text \<open>
  C11. Delivering the same event again (at a later time, with the same rows free) changes
  nothing but the timestamp of the last update: no order is claimed twice, no review item
  is added.
\<close>

theorem redelivery_idempotent:
  assumes "decimal_library lib" "healthy e" "healthy e'" "locked e' = locked e" "db_ok d"
    and "in_i32 (ev_confs ev)" "0 \<le> ev_amount ev" "numeric20_8 (ev_amount ev) = Some x"
  shows "let d1 = snd (OnTransfer lib e s ev d); d2 = snd (OnTransfer lib e' s ev d1)
    in map_option settled (by_id (orders d2) i) = map_option settled (by_id (orders d1) i) \<and>
       by_tx (reviews d2) = by_tx (reviews d1)"
proof -
  define d1 where "d1 = snd (OnTransfer lib e s ev d)"
  define d2 where "d2 = snd (OnTransfer lib e' s ev d1)"
  have ok1: "db_ok d1" unfolding d1_def by (rule db_steps_ok [OF OnTransfer_steps]) (rule assms(5))+
  have one: "transfer_spec lib e s ev x (ledger_of d) (ledger_of d1)"
    unfolding d1_def using assms(1-8)
    by (intro decimal_library.OnTransfer_refines [THEN conjunct2]) (simp_all add: db_okD)
  have two: "transfer_spec lib e' s ev x (ledger_of d1) (ledger_of d2)"
    unfolding d2_def using assms(1-8) ok1
    by (intro decimal_library.OnTransfer_refines [THEN conjunct2]) (simp_all add: db_okD)
  from spec_twice [OF one two refl ok1 assms(4)] show ?thesis
    by (simp add: Let_def d1_def d2_def)
qed

theorem redelivery_idempotent_witness:
  "let d1 = snd (OnTransfer reference_decimal (calm 5) default_service pays_B two_pending);
       d2 = snd (OnTransfer reference_decimal (calm 6) default_service pays_B d1)
   in map_option settled (by_id (orders d2) 1) = map_option settled (by_id (orders d1) 1)"
  using redelivery_idempotent [OF ref_dec.decimal_library_axioms healthy_calm healthy_calm _ db_ok_two_pending,
      of 6 5 pays_B "100099 / 10000" default_service 1] numeric20_8_4 [of 100099]
  by (simp add: pays_B_def in_i32_def calm_def Let_def)

text \<open>
  C22. The loop of \<open>ClaimUnderpaid\<close> is equivalent to taking the candidate with the smallest
  expected amount, when its gap is within the limit: rounding in the division never makes
  a farther order win, and no division by zero happens.
\<close>

theorem best_candidate_is_closest:
  assumes "decimal_library lib" "0 \<le> amt"
  shows "best_candidate lib amt maxGap (underpaid_candidates e chain amt rows) None 0 =
    Inr (case underpaid_candidates e chain amt rows of
           [] \<Rightarrow> None
         | c # _ \<Rightarrow> if gap_percent lib amt c \<le> maxGap then Some c else None)"
proof (cases "underpaid_candidates e chain amt rows")
  case (Cons c cs)
  have "sorted (map o_expected (c # cs))"
    using Cons unfolding underpaid_candidates_def by (metis sorted_sort_key)
  moreover have "amt < o_expected b" if "b \<in> set (c # cs)" for b
    using that Cons underpaid_candidates_in [of b e chain amt rows] by simp
  ultimately show ?thesis
    using decimal_library.best_candidate_sorted [OF assms, of c cs maxGap] by (simp add: Cons)
qed simp

theorem best_candidate_is_closest_witness:
  "best_candidate reference_decimal 6 50 (underpaid_candidates (calm 0) ''tron'' 6 [order_B, order_A]) None 0 =
     Inr (case underpaid_candidates (calm 0) ''tron'' 6 [order_B, order_A] of
           [] \<Rightarrow> None
         | c # _ \<Rightarrow> if gap_percent reference_decimal 6 c \<le> 50 then Some c else None)"
  by (rule best_candidate_is_closest [OF ref_dec.decimal_library_axioms]) simp

text \<open>
  C36. Two pending orders whose expected amounts lie within the tolerance of each other
  cannot be told apart: a payment of exactly the amount the younger one asks for leaves it
  pending and is attributed to another order. With the default configuration (offsets of at
  most 0.0099, tolerance 0.02) this is any two orders for the same base amount.
\<close>

theorem exact_payment_misattributed:
  assumes "healthy e" "db_ok d" "in_i32 (ev_confs ev)" "numeric20_8 (ev_amount ev) = Some x"
    and new: "\<forall>a\<in>set (orders d). \<not> (o_chain a = ev_chain ev \<and> o_tx a = Some (ev_tx ev))"
    and a: "a \<in> set (orders d)" "free_pending (ev_chain ev) a" "\<not> locked e (o_id a)"
    and b: "b \<in> set (orders d)" "o_expires a < o_expires b"
    and near: "\<bar>o_expected a - o_expected b\<bar> \<le> s_tolerance s" and exact: "ev_amount ev = o_expected b"
  shows "by_id (orders (snd (OnTransfer lib e s ev d))) (o_id b) = Some b \<and>
    (\<exists>c. o_id c \<noteq> o_id b \<and> o_chain c = ev_chain ev \<and> o_tx c = Some (ev_tx ev) \<and>
       by_id (orders (snd (OnTransfer lib e s ev d))) (o_id c) = Some c)"
proof -
  have u: "unique_ok (orders d)" using assms(2) by (rule db_okD)
  have pa: "pays e s ev a" using a near exact by (auto simp: pays_def exact_match_def)
  have n: "\<not> (\<exists>a\<in>set (orders d). o_chain a = ev_chain ev \<and> o_tx a = Some (ev_tx ev))"
    using new by blast
  obtain c where c: "c \<in> set (orders d)" "pays e s ev c"
    and old: "\<And>b. b \<in> set (orders d) \<Longrightarrow> pays e s ev b \<Longrightarrow> o_expires c \<le> o_expires b"
    and eq: "ledger_of (snd (OnTransfer lib e s ev d)) = (ledger_of d)\<lparr>l_orders := (by_id (orders d))(o_id c \<mapsto>
        claim_row (clock e UpdateClaim) (ev_tx ev) (ev_height ev) x (ev_confs ev) c)\<rparr>"
    by (rule OnTransfer_exact [OF assms(1) u assms(3) n assms(4) a(1) pa, of lib]) blast
  let ?c = "claim_row (clock e UpdateClaim) (ev_tx ev) (ev_height ev) x (ev_confs ev) c"
  have "o_id c \<noteq> o_id b" using unique_ok_idD [OF u c(1) b(1)] old [OF a(1) pa] b(2) by auto
  moreover have orders: "by_id (orders (snd (OnTransfer lib e s ev d))) = (by_id (orders d))(o_id c \<mapsto> ?c)"
    using arg_cong [OF eq, of l_orders] by simp
  moreover have "by_id (orders d) (o_id b) = Some b" using b(1) by (simp add: by_id_iff [OF u])
  moreover have "o_chain ?c = ev_chain ev" "o_tx ?c = Some (ev_tx ev)"
    using c(2) by (auto simp: pays_def exact_match_def free_pending_def claim_row_def)
  ultimately show ?thesis by (intro conjI exI [of _ ?c]) simp_all
qed

theorem exact_payment_misattributed_witness:
  "by_id (orders (snd (OnTransfer reference_decimal (calm 5) default_service pays_B two_pending))) 2 = Some order_B"
proof -
  have "numeric20_8 (ev_amount pays_B) = Some (100099 / 10000)"
    using numeric20_8_4 [of 100099] by (simp add: pays_B_def)
  from exact_payment_misattributed [OF healthy_calm db_ok_two_pending _ this, of order_A 5 order_B
      default_service reference_decimal]
  show ?thesis by (simp add: pays_B_def in_i32_def sample_orders free_pending_def)
qed

end
