(* ===== verification/CreationProperties.thy ===== *)
theory CreationProperties
  imports Samples
begin

text \<open>
  The properties of creating orders, of the expiry pass and of the audit trail.
\<close>

subsection \<open>Creating an order\<close>

lemma CreateOrder_Inr:
  assumes "CreateOrder lib e g s mgr u b ch d = (Inr a, d')"
  obtains req d1 where "u \<noteq> []" "minOrderUSD \<le> b" "b \<le> maxOrderUSD"
    "mgr_RequiredConfirmations mgr (to_lower ch) = (req, True)"
    "CreateWithUniqueAmount e g u (to_lower ch) b req (s_expiry s) (s_offset_min s) (s_offset_max s)
       (s_max_retries s) d = (Inr a, d1)" "orders d' = orders d1"
proof -
  obtain req on where m: "mgr_RequiredConfirmations mgr (to_lower ch) = (req, on)" by (metis surj_pair)
  obtain r d1 where c: "CreateWithUniqueAmount e g u (to_lower ch) b req (s_expiry s) (s_offset_min s)
      (s_offset_max s) (s_max_retries s) d = (r, d1)" by (metis surj_pair)
  have v: "u \<noteq> []" "\<not> (b < minOrderUSD \<or> b > maxOrderUSD)" "ch \<noteq> []" on
    using assms by (auto simp: CreateOrder_def m Let_def split: if_splits)
  then have r: "r = Inr a" and d': "orders d' = orders d1"
    using assms by (auto simp: CreateOrder_def m c Let_def split: sum.splits prod.splits dest!: sym [of "(_, _)"])
      (metis snd_conv tables_Log(1))+
  show ?thesis using v m c r d' by (intro that) auto
qed

text \<open>
  C20. A created order asks for the base amount plus an offset of the configured range, on an
  enabled chain with that chain's confirmations; exactly one row was added, the order with
  its amounts rounded to the columns' eight places, and it conflicts with no other row: no
  pending order of the chain has its amount.
\<close>

theorem created_order:
  assumes "entropy_source g" "in_i64 (s_offset_min s)" "in_i64 (s_offset_max s)"
    and "CreateOrder lib e g s mgr u b ch d = (Inr a, d')"
  shows "1 / 100 \<le> b \<and> b \<le> 10 ^ 6 \<and> o_status a = Pending \<and> o_base a = b \<and> o_chain a = to_lower ch \<and>
    mgr_RequiredConfirmations mgr (to_lower ch) = (o_required a, True) \<and>
    (\<exists>off. s_offset_min s \<le> off \<and> off \<le> s_offset_max s \<and> o_expected a = b + of_int off / 10 ^ 4) \<and>
    (\<exists>r. orders d' = orders d @ [r] \<and>
       r = a\<lparr>o_base := round_half 8 (o_base a), o_expected := round_half 8 (o_expected a)\<rparr> \<and>
       (\<forall>q\<in>set (orders d). \<not> conflicts q r))"
proof -
  obtain req d1 where v: "u \<noteq> []" "minOrderUSD \<le> b" "b \<le> maxOrderUSD"
    and m: "mgr_RequiredConfirmations mgr (to_lower ch) = (req, True)"
    and c: "CreateWithUniqueAmount e g u (to_lower ch) b req (s_expiry s) (s_offset_min s) (s_offset_max s)
       (s_max_retries s) d = (Inr a, d1)" and d': "orders d' = orders d1"
    using assms(4) by (rule CreateOrder_Inr)
  from c have le: "s_offset_min s \<le> s_offset_max s"
    by (auto simp: CreateWithUniqueAmount_def split: if_splits)
  with c obtain j where j: "build_order e g u (to_lower ch) b req (s_expiry s) (s_offset_min s) (s_offset_max s) j = Inr a"
    and ins: "insert_order a d = (Inr (), d1)"
    by (auto simp: CreateWithUniqueAmount_def dest!: create_attempts_Inr)
  obtain off where off: "draw_offset g (s_offset_min s) (s_offset_max s) j = Inr off"
    and a: "a = new_order (new_uuid g j) u (to_lower ch) b off req (clock e (InsertOrder j)) (s_expiry s)"
    using build_order_new [OF j] by blast
  have range: "s_offset_min s \<le> off \<and> off \<le> s_offset_max s"
    by (rule entropy_source.draw_offset_range [OF assms(1) off le assms(2,3)])
  obtain r where r: "stored_row a = Some r" "\<forall>q\<in>set (orders d). \<not> conflicts q r" "d1 = d\<lparr>orders := orders d @ [r]\<rparr>"
    using ins by (rule insert_order_Inr) blast
  have "r = a\<lparr>o_base := round_half 8 (o_base a), o_expected := round_half 8 (o_expected a)\<rparr>"
    using r(1) by (auto simp: stored_row_def dest!: numeric20_8_SomeD split: option.splits)
  with v m range r d' show ?thesis
    by (auto simp: a new_order_def minOrderUSD_def maxOrderUSD_def)
qed

text \<open>A manager with one watcher, on TRON, that requires three confirmations.\<close>

definition tron_only :: "unit manager" where
  "tron_only = NewManager \<lparr>w_chain = (\<lambda>_. ''tron''), w_required = (\<lambda>_. 3), w_seed = (\<lambda>_ _ w. (Inr (), w))\<rparr> [()]"

lemma tron_only_required [simp]: "mgr_RequiredConfirmations tron_only ''tron'' = (3, True)"
  by (simp add: tron_only_def NewManager_def mgr_RequiredConfirmations_def)

lemma to_lower_TRON [simp]: "to_lower ''TRON'' = ''tron''"
  by (simp add: to_lower_def lower_char_def Let_def char_of_def bit_simps)

definition created_C :: order where
  "created_C = new_order 0 ''carol'' ''tron'' 5 1 3 5 1200000000000"

lemma stored_C: "stored_row created_C = Some created_C"
proof -
  have p: "has_places 8 (5::rat)" "has_places 8 (50001 / 10000)"
    using has_places_int_div [of 8 500000000] has_places_int_div [of 8 500010000] by simp_all
  then show ?thesis by (simp add: stored_row_def created_C_def new_order_def numeric20_8_exact)
qed

lemma create_C:
  "\<exists>d'. CreateOrder reference_decimal (calm 5) counting_entropy default_service tron_only ''carol'' 5 ''TRON'' two_pending =
     (Inr created_C, d')"
proof -
  have b: "build_order (calm 5) counting_entropy ''carol'' ''tron'' 5 3 1200000000000 1 99 0 = Inr created_C"
    by (simp add: build_order_def draw_offset_def counting_entropy_def created_C_def in_i64_def Let_def)
  have c: "created_C\<lparr>o_id := i\<rparr> = created_C \<Longrightarrow> i = 0" for i by (simp add: created_C_def new_order_def)
  have ins: "insert_order created_C two_pending = (Inr (), two_pending\<lparr>orders := [order_A, order_B, created_C]\<rparr>)"
    by (simp add: insert_order_def stored_C) (simp add: created_C_def new_order_def in_i32_def conflict_defs sample_orders)
  have n: "(20 :: nat) = Suc 19" by simp
  have "create_attempts (calm 5) (build_order (calm 5) counting_entropy ''carol'' ''tron'' 5 3 1200000000000 1 99)
      ''tron'' 20 0 20 two_pending = (Inr created_C, two_pending\<lparr>orders := [order_A, order_B, created_C]\<rparr>)"
    by (subst n, subst create_attempts.simps) (simp add: b ins)
  then show ?thesis
    by (simp add: CreateOrder_def minOrderUSD_def maxOrderUSD_def Let_def CreateWithUniqueAmount_def split: prod.split)
qed

theorem created_order_witness:
  "\<exists>d' r. CreateOrder reference_decimal (calm 5) counting_entropy default_service tron_only ''carol'' 5 ''TRON'' two_pending =
     (Inr created_C, d') \<and> orders d' = [order_A, order_B, r] \<and> \<not> conflicts order_A r"
proof -
  obtain d' where c: "CreateOrder reference_decimal (calm 5) counting_entropy default_service tron_only ''carol'' 5 ''TRON'' two_pending =
     (Inr created_C, d')" using create_C by blast
  from created_order [OF counting.entropy_source_axioms _ _ c] c show ?thesis
    by (auto simp: in_i64_def)
qed

subsection \<open>The retry loop\<close>

text \<open>The order built and the row stored in attempt k, when nothing is wrong with them.\<close>

definition attempts_are ::
    "(nat \<Rightarrow> order res) \<Rightarrow> (nat \<Rightarrow> order) \<Rightarrow> (nat \<Rightarrow> order) \<Rightarrow> bool" where
  "attempts_are mk built stored \<longleftrightarrow> (\<forall>k. mk k = Inr (built k) \<and> stored_row (built k) = Some (stored k) \<and>
     in_i32 (o_required (built k)) \<and> 0 < o_base (stored k) \<and> 0 < o_expected (stored k))"

lemma insert_attempt:
  assumes "attempts_are mk built stored" "healthy e"
  shows "exec e (InsertOrder k) (insert_order (built k)) d =
    (if \<exists>q\<in>set (orders d). conflicts q (stored k) then (Inl (PgError uniqueViolation), d)
     else (Inr (), d\<lparr>orders := orders d @ [stored k]\<rparr>))"
proof -
  have "stored_row (built k) = Some (stored k)" "in_i32 (o_required (built k))"
    "\<not> o_base (stored k) \<le> 0" "\<not> o_expected (stored k) \<le> 0"
    using assms(1) by (auto simp: attempts_are_def not_le)
  then show ?thesis using assms(2) by (simp add: insert_order_def)
qed

lemma create_attempts_find:
  assumes "attempts_are mk built stored" "healthy e"
  shows "create_attempts e mk ch mr k n d =
    (case find (\<lambda>j. \<forall>q\<in>set (orders d). \<not> conflicts q (stored j)) [k..<k + n] of
       Some j \<Rightarrow> (Inr (built j), d\<lparr>orders := orders d @ [stored j]\<rparr>)
     | None \<Rightarrow> (Inl (NoUniqueAmount ch mr), d))"
proof (induction n arbitrary: k)
  case (Suc n)
  have mk: "mk k = Inr (built k)" using assms(1) by (simp add: attempts_are_def)
  have up: "[k..<k + Suc n] = k # [Suc k..<Suc k + n]" by (simp add: upt_conv_Cons del: upt_Suc)
  show ?case
  proof (cases "\<exists>q\<in>set (orders d). conflicts q (stored k)")
    case True
    then have "create_attempts e mk ch mr k (Suc n) d = create_attempts e mk ch mr (Suc k) n d"
      using insert_attempt [OF assms, of k d] mk
      by (simp add: isUniqueViolation_def)
    with Suc.IH [of "Suc k"] True show ?thesis unfolding up by auto
  next
    case False
    then show ?thesis using insert_attempt [OF assms, of k d] mk unfolding up by auto
  qed
qed simp

text \<open>
  C21. With a working database, \<open>CreateWithUniqueAmount\<close> inserts the order of the first of its
  \<open>maxRetries\<close> attempts whose row conflicts with no row of the table, and fails with "could
  not allocate a unique expected_amount", leaving the database as it was, exactly when all
  of them conflict.
\<close>

theorem create_takes_first_free_amount:
  assumes "healthy e" "offsetMin \<le> offsetMax"
    and "attempts_are (build_order e g u ch b req expiry offsetMin offsetMax) built stored"
  shows "CreateWithUniqueAmount e g u ch b req expiry offsetMin offsetMax maxRetries d =
    (case find (\<lambda>j. \<forall>q\<in>set (orders d). \<not> conflicts q (stored j)) [0..<nat maxRetries] of
       Some j \<Rightarrow> (Inr (built j), d\<lparr>orders := orders d @ [stored j]\<rparr>)
     | None \<Rightarrow> (Inl (NoUniqueAmount ch maxRetries), d))"
  using create_attempts_find [OF assms(3,1), of ch maxRetries 0 "nat maxRetries" d] assms(2)
  by (simp add: CreateWithUniqueAmount_def)

text \<open>Only one offset, and a table where its amount is taken.\<close>

theorem create_takes_first_free_amount_witness:
  "CreateWithUniqueAmount (calm 5) counting_entropy ''dave'' ''tron'' 10 3 9 1 1 20 two_pending =
     (Inl (NoUniqueAmount ''tron'' 20), two_pending)"
proof -
  let ?o = "\<lambda>k. new_order (of_nat k) ''dave'' ''tron'' 10 1 3 5 9"
  have p: "has_places 8 (10::rat)" "has_places 8 (100001 / 10000)"
    using has_places_int_div [of 8 1000000000] has_places_int_div [of 8 1000010000] by simp_all
  have a: "attempts_are (build_order (calm 5) counting_entropy ''dave'' ''tron'' 10 3 9 1 1) ?o ?o"
    by (simp add: attempts_are_def build_order_def draw_offset_def counting_entropy_def stored_row_def
        numeric20_8_exact p new_order_def in_i32_def)
  have c: "find (\<lambda>j. \<forall>q\<in>set (orders two_pending). \<not> conflicts q (?o j)) js = None" for js
    by (simp add: find_None_iff conflict_defs sample_orders)
  from create_takes_first_free_amount [OF _ _ a, of 20 two_pending] show ?thesis unfolding c by simp
qed

text \<open>
  C27. A request that is refused leaves the database as it was: no validation error, no
  exhausted retry budget and no failed statement creates an order (a lost reply to the
  INSERT aside, after which the row may be there).
\<close>

theorem refused_order_changes_nothing:
  assumes "\<forall>k m. outcome_of e (InsertOrder k) \<noteq> ReplyLost m"
    and "CreateOrder lib e g s mgr u b ch d = (Inl err, d')"
  shows "d' = d"
proof -
  have one: "d1 = d" if "exec e (InsertOrder k) (insert_order a) d = (Inl x, d1)" for k a x d1
    using that assms(1)
    by (cases rule: exec_cases [of e "InsertOrder k" "insert_order a" d]) (auto dest: insert_order_Inl_same)
  have loop: "d1 = d" if "create_attempts e mk c mr k n d = (Inl x, d1)" for mk c mr k n x d1
    using that
  proof (induction n arbitrary: k)
    case (Suc n)
    then show ?case
      by (auto split: sum.splits prod.splits if_splits dest: one)
  qed simp
  then have "d1 = d" if "CreateWithUniqueAmount e g u c b r ex lo hi mr d = (Inl x, d1)" for c r ex lo hi mr x d1
    using that by (auto simp: CreateWithUniqueAmount_def split: if_splits)
  with assms(2) show ?thesis
    by (auto simp: CreateOrder_def Let_def split: if_splits sum.splits prod.splits)
qed

theorem refused_order_changes_nothing_witness:
  "snd (CreateOrder reference_decimal (calm 5) counting_entropy default_service tron_only ''carol'' 5 ''eth'' two_pending) = two_pending"
proof -
  have l: "to_lower ''eth'' = ''eth''"
    by (simp add: to_lower_def lower_char_def Let_def)
  have c: "CreateOrder reference_decimal (calm 5) counting_entropy default_service tron_only ''carol'' 5 ''eth'' two_pending =
      (Inl (ChainNotEnabled ''eth''), two_pending)"
    by (simp add: CreateOrder_def minOrderUSD_def maxOrderUSD_def l mgr_RequiredConfirmations_def tron_only_def
        NewManager_def Let_def)
  from refused_order_changes_nothing [OF _ c] show ?thesis using c by simp
qed

subsection \<open>Expiry\<close>

lemma expire_update:
  assumes "healthy e" "unique_ok (orders d)"
  shows "ExpirePastDue e d =
    (Inr (map (expire_row (clock e UpdateExpired)) (filter (past_due (clock e UpdateExpired)) (orders d))),
     d\<lparr>orders := update_rows (past_due (clock e UpdateExpired)) (expire_row (clock e UpdateExpired)) (orders d)\<rparr>)"
proof -
  have "unique_ok (update_rows (past_due now) (expire_row now) (orders d))" for now
    by (rule unique_ok_update_same_keys [OF assms(2)]) (simp add: expire_row_def)
  then show ?thesis using assms(1) by (simp add: ExpirePastDue_def update_orders_done)
qed

lemma log_expired_audit:
  assumes "healthy e" "\<forall>a\<in>set as. has_order (orders d) (o_id a)"
  shows "orders (log_expired e k as d) = orders d \<and>
    map (\<lambda>x. (a_order x, a_event x)) (audit (log_expired e k as d)) =
      map (\<lambda>x. (a_order x, a_event x)) (audit d) @ map (\<lambda>a. (Some (o_id a), ''order_expired'')) as"
  using assms(2)
proof (induction as arbitrary: k d)
  case (Cons a as)
  let ?d = "snd (Log e k (Some (o_id a)) (o_chain a) [] ''order_expired'' None d)"
  have "orders ?d = orders d" by simp
  moreover have "map (\<lambda>x. (a_order x, a_event x)) (audit ?d) =
      map (\<lambda>x. (a_order x, a_event x)) (audit d) @ [(Some (o_id a), ''order_expired'')]"
    using assms(1) Cons.prems by (simp add: Log_def insert_audit_stmt_def)
  ultimately show ?case using Cons.IH [of ?d "Suc k"] Cons.prems by simp
qed simp

lemma expire_pass:
  assumes "healthy e" "unique_ok (orders d)"
  shows "let now = clock e UpdateExpired; d' = expireOnce e d in
    orders d' = update_rows (past_due now) (expire_row now) (orders d) \<and>
    list_all (\<lambda>a. \<not> past_due now a) (orders d') \<and>
    map (\<lambda>x. (a_order x, a_event x)) (audit d') = map (\<lambda>x. (a_order x, a_event x)) (audit d) @
      map (\<lambda>a. (Some (o_id a), ''order_expired'')) (filter (past_due now) (orders d))"
proof -
  let ?now = "clock e UpdateExpired"
  let ?d = "d\<lparr>orders := update_rows (past_due ?now) (expire_row ?now) (orders d)\<rparr>"
  let ?as = "map (expire_row ?now) (filter (past_due ?now) (orders d))"
  have "\<forall>a\<in>set ?as. has_order (orders ?d) (o_id a)"
  proof
    fix x assume "x \<in> set ?as"
    then have "x \<in> set (orders ?d)" by (auto simp: set_update_rows)
    then show "has_order (orders ?d) (o_id x)" unfolding has_order_def by blast
  qed
  note l = log_expired_audit [OF assms(1) this, of 0]
  have "list_all (\<lambda>a. \<not> past_due ?now a) (orders ?d)"
    by (auto simp: list_all_iff set_update_rows expire_row_def past_due_def)
  moreover have "map (\<lambda>a. (Some (o_id a), ''order_expired'')) ?as =
      map (\<lambda>a. (Some (o_id a), ''order_expired'')) (filter (past_due ?now) (orders d))"
    by (simp add: expire_row_def)
  ultimately show ?thesis using l
    by (simp add: expireOnce_def expire_update [OF assms] Let_def)
qed

text \<open>
  C23. An expiry pass expires exactly the pending orders whose expiry time has passed, leaves
  every other row as it is, leaves none past due, and writes one audit entry for each
  expired order.
\<close>

theorem expiry_pass_effect:
  assumes "healthy e" "unique_ok (orders d)"
  shows "let now = clock e UpdateExpired; d' = expireOnce e d;
        due = (\<lambda>a. o_status a = Pending \<and> o_expires a < now) in
    orders d' = map (\<lambda>a. if due a then a\<lparr>o_status := Expired, o_updated := now\<rparr> else a) (orders d) \<and>
    list_all (\<lambda>a. \<not> due a) (orders d') \<and>
    map (\<lambda>x. (a_order x, a_event x)) (audit d') = map (\<lambda>x. (a_order x, a_event x)) (audit d) @
      map (\<lambda>a. (Some (o_id a), ''order_expired'')) (filter due (orders d))"
  using expire_pass [OF assms] unfolding past_due_def expire_row_def update_rows_def Let_def .

theorem expiry_pass_effect_witness:
  "map o_status (orders (expireOnce (calm 1150) two_pending)) = [Expired, Pending]"
proof -
  have e: "o_expires order_A = 1100" "o_expires order_B = 1200" by (simp_all add: sample_orders)
  from expiry_pass_effect [OF healthy_calm db_okD(1) [OF db_ok_two_pending], of 1150] e show ?thesis
    by (simp add: Let_def) (simp add: sample_orders)
qed

subsection \<open>The audit trail\<close>

text \<open>The environment in which the first audit insert has been made by hand.\<close>

definition after_first_log :: "env \<Rightarrow> env" where
  "after_first_log e = e\<lparr>outcome_of := (outcome_of e)(InsertAudit ''transfer_observed'' 0 := NotRun [])\<rparr>"

lemma after_first_log_sel [simp]:
  "clock (after_first_log e) = clock e" "locked (after_first_log e) = locked e"
  by (simp_all add: after_first_log_def)

lemma exec_after_first_log:
  "exec (after_first_log e) UpdateConfs = exec e UpdateConfs"
  "exec (after_first_log e) SelectTxExists = exec e SelectTxExists"
  "exec (after_first_log e) UpdateClaim = exec e UpdateClaim"
  "exec (after_first_log e) BeginUnderpaid = exec e BeginUnderpaid"
  "exec (after_first_log e) SelectCandidates = exec e SelectCandidates"
  "exec (after_first_log e) MarkUnderpaid = exec e MarkUnderpaid"
  "exec (after_first_log e) CommitUnderpaid = exec e CommitUnderpaid"
  "exec (after_first_log e) InsertReview = exec e InsertReview"
  "v \<noteq> ''transfer_observed'' \<Longrightarrow> exec (after_first_log e) (InsertAudit v k) = exec e (InsertAudit v k)"
  by (auto simp: after_first_log_def exec_def fun_eq_iff)

lemma Log_after_first_log:
  "v \<noteq> ''transfer_observed'' \<Longrightarrow> Log (after_first_log e) k i c t v = Log e k i c t v"
  by (simp add: Log_def fun_eq_iff exec_after_first_log)

lemma calls_after_first_log:
  "UpdateConfirmations (after_first_log e) = UpdateConfirmations e"
  "TxAlreadyClaimed (after_first_log e) = TxAlreadyClaimed e"
  "ClaimExactMatch (after_first_log e) = ClaimExactMatch e"
  "ClaimUnderpaid lib (after_first_log e) = ClaimUnderpaid lib e"
  "LogReviewItem (after_first_log e) = LogReviewItem e"
  "logProgress lib (after_first_log e) = logProgress lib e"
  unfolding fun_eq_iff UpdateConfirmations_def TxAlreadyClaimed_def ClaimExactMatch_def Let_def logProgress_def
      claim_stmt_def exact_candidates_def underpaid_candidates_def ClaimUnderpaid_def LogReviewItem_def
      exec_after_first_log(1-8) after_first_log_sel
  by (simp_all add: Log_after_first_log)

lemma OnTransfer_after_first_log:
  "OnTransfer lib e s ev d = OnTransfer lib (after_first_log e) s ev (observed lib e ev d)"
proof -
  have f: "observed lib (after_first_log e) ev d' = d'" for d'
    by (simp add: Log_def exec_def after_first_log_def)
  have l: "Log (after_first_log e) k i c t ''order_matched'' = Log e k i c t ''order_matched''"
    "Log (after_first_log e) k i c t ''order_underpaid'' = Log e k i c t ''order_underpaid''"
    "Log (after_first_log e) k i c t ''transfer_unmatched'' = Log e k i c t ''transfer_unmatched''" for k i c t
    by (rule Log_after_first_log, simp)+
  show ?thesis
    unfolding OnTransfer_def Let_def f unfolding calls_after_first_log l by (rule refl)
qed

text \<open>
  C26. Whatever the outcome of a transfer event (claimed, repeated, underpaid, unmatched, or
  refused because a statement failed), the audit log records that it was observed, before
  anything else the event adds, as long as that one insert runs.
\<close>

theorem transfer_is_audited:
  assumes "db_ok d" "outcome_of e (InsertAudit ''transfer_observed'' 0) = Runs"
  shows "\<exists>x. prefix (audit d @ [x]) (audit (snd (OnTransfer lib e s ev d))) \<and>
    a_event x = ''transfer_observed'' \<and> a_chain x = ev_chain ev \<and> a_tx x = ev_tx ev \<and>
    a_details x = Some [(''amount'', JStr (dec_string lib (ev_amount ev))),
      (''confirmations'', JInt (ev_confs ev)), (''block_height'', JInt (ev_height ev))]"
proof -
  let ?d = "observed lib e ev d"
  have ok: "db_ok ?d" by (rule db_steps_ok [OF Log_steps assms(1)])
  have "db_evolves ?d (snd (OnTransfer lib e s ev d))"
    unfolding OnTransfer_after_first_log [of lib e s ev d]
    by (rule db_steps_evolves [OF OnTransfer_steps [OF ok] ok])
  then have p: "prefix (audit ?d) (audit (snd (OnTransfer lib e s ev d)))" by (simp add: db_evolves_def)
  have "audit ?d = audit d @ [\<lparr>a_order = None, a_chain = ev_chain ev, a_tx = ev_tx ev,
      a_event = ''transfer_observed'', a_details = Some [(''amount'', JStr (dec_string lib (ev_amount ev))),
        (''confirmations'', JInt (ev_confs ev)), (''block_height'', JInt (ev_height ev))],
      a_created = clock e (InsertAudit ''transfer_observed'' 0)\<rparr>]"
    by (simp add: Log_def assms(2) insert_audit_stmt_def)
  with p show ?thesis by auto
qed

theorem transfer_is_audited_witness:
  "audit (snd (OnTransfer reference_decimal (calm 5) default_service (event ''t'' 3 1) two_pending)) \<noteq> []"
proof -
  have "outcome_of (calm 5) (InsertAudit ''transfer_observed'' 0) = Runs" by simp
  from transfer_is_audited [OF db_ok_two_pending this, of reference_decimal default_service "event ''t'' 3 1"]
  show ?thesis by (auto simp: prefix_def)
qed

end
