(* ===== verification/Tracking.thy ===== *)
theory Tracking
  imports Chains CursorStore
begin

text \<open>
  What the three watchers share: the in-flight set (transaction hash to what is known of
  the transfer), and the loop over a snapshot of it that reports every transfer and
  forgets the final ones. The contract of the sink they report into is the locale
  \<open>transfer_sink\<close>.
\<close>

type_synonym 'p tracking = "string \<rightharpoonup> 'p"

text \<open>\<open>pendingTransfer\<close> of the packages \<open>tron\<close> and \<open>evm\<close>.\<close>

record tracked =
  tr_amount :: amount
  tr_height :: int

subsection \<open>The report loop\<close>

text \<open>The snapshot: \<open>ks\<close> is the order in which Go ranges over the map.\<close>

definition items_of :: "string list \<Rightarrow> 'p tracking \<Rightarrow> (string \<times> 'p) list" where
  "items_of ks pend = map (\<lambda>tx. (tx, the (pend tx))) ks"

fun report_items ::
    "(string \<Rightarrow> 'p \<Rightarrow> transfer_event) \<Rightarrow> ('p \<Rightarrow> bool) \<Rightarrow> 's sink \<Rightarrow> (string \<times> 'p) list
      \<Rightarrow> 'p tracking \<Rightarrow> 's \<Rightarrow> 'p tracking \<times> 's" where
  "report_items mk fin sink [] pend s = (pend, s)"
| "report_items mk fin sink ((tx, p) # items) pend s =
     (let s' = snd (sink (mk tx p) s)
      in report_items mk fin sink items (if fin p then pend(tx := None) else pend) s')"

definition deliver :: "'s sink \<Rightarrow> transfer_event list \<Rightarrow> 's \<Rightarrow> 's" where
  "deliver sink evs s = foldl (\<lambda>s ev. snd (sink ev s)) s evs"

lemma deliver_simps [simp]:
  "deliver sink [] s = s"
  "deliver sink (ev # evs) s = deliver sink evs (snd (sink ev s))"
  by (simp_all add: deliver_def)

lemma deliver_append [simp]: "deliver sink (xs @ ys) s = deliver sink ys (deliver sink xs s)"
  by (simp add: deliver_def)

text \<open>Without the final ones.\<close>

definition unfinished :: "('p \<Rightarrow> bool) \<Rightarrow> 'p tracking \<Rightarrow> 'p tracking" where
  "unfinished fin pend tx =
     (case pend tx of None \<Rightarrow> None | Some p \<Rightarrow> if fin p then None else Some p)"

lemma report_items_eq:
  "report_items mk fin sink items pend s =
     ((\<lambda>tx. if \<exists>p. (tx, p) \<in> set items \<and> fin p then None else pend tx),
      deliver sink (map (\<lambda>(tx, p). mk tx p) items) s)"
proof (induction items arbitrary: pend s)
  case (Cons item items)
  obtain tx p where "item = (tx, p)" by (cases item)
  then show ?case by (auto simp: Let_def Cons.IH fun_eq_iff)
qed simp

lemma report_items_range:
  assumes "range_order ks pend"
  shows "report_items mk fin sink (items_of ks pend) pend s =
     (unfinished fin pend, deliver sink (map (\<lambda>tx. mk tx (the (pend tx))) ks) s)"
proof -
  have "(\<exists>p. (tx, p) \<in> set (items_of ks pend) \<and> fin p) \<longleftrightarrow> tx \<in> dom pend \<and> fin (the (pend tx))" for tx
    using assms by (auto simp: items_of_def range_order_def)
  then have "(\<lambda>tx. if \<exists>p. (tx, p) \<in> set (items_of ks pend) \<and> fin p then None else pend tx) =
      unfinished fin pend"
    by (auto simp: unfinished_def fun_eq_iff split: option.splits)
  then show ?thesis unfolding report_items_eq by (simp add: items_of_def comp_def)
qed

subsection \<open>The contract of a sink\<close>

text \<open>
  Whatever event it is given, a sink keeps the invariant of its state and only lets the
  state evolve (whether it returns an error or not).
\<close>

locale transfer_sink =
  fixes sink :: "'s sink" and inv :: "'s \<Rightarrow> bool" and evolves :: "'s \<Rightarrow> 's \<Rightarrow> bool"
  assumes sink_inv: "inv s \<Longrightarrow> inv (snd (sink ev s))"
    and sink_evolves: "inv s \<Longrightarrow> evolves s (snd (sink ev s))"
    and evolves_refl: "evolves s s"
    and evolves_trans: "evolves s t \<Longrightarrow> evolves t u \<Longrightarrow> evolves s u"
begin

lemma deliver_inv: "inv s \<Longrightarrow> inv (deliver sink evs s)"
  by (induction evs arbitrary: s) (auto intro: sink_inv)

lemma deliver_evolves: "inv s \<Longrightarrow> evolves s (deliver sink evs s)"
  by (induction evs arbitrary: s) (auto intro: evolves_refl evolves_trans sink_evolves sink_inv)

lemma report_items_evolves:
  "inv s \<Longrightarrow> inv (snd (report_items mk fin sink items pend s)) \<and>
    evolves s (snd (report_items mk fin sink items pend s))"
  by (simp add: report_items_eq deliver_inv deliver_evolves)

text \<open>An event of the list is delivered at some moment, with evolution before and after.\<close>

lemma deliver_splitE:
  assumes "ev \<in> set evs" "inv s"
  obtains s1 where "inv s1" "evolves s s1" "evolves (snd (sink ev s1)) (deliver sink evs s)"
proof -
  from assms(1) obtain xs ys where evs: "evs = xs @ ev # ys" by (auto dest: split_list)
  have "inv (deliver sink xs s)" "evolves s (deliver sink xs s)"
    using assms(2) by (simp_all add: deliver_inv deliver_evolves)
  then show thesis using that by (simp add: evs deliver_evolves sink_inv)
qed

end

subsection \<open>Seeding\<close>

text \<open>The body of the three \<open>SeedPending\<close>: an entry only when there is none.\<close>

definition seed :: "string \<Rightarrow> 'p \<Rightarrow> 'p tracking \<Rightarrow> 'p tracking" where
  "seed tx p pend = (if pend tx = None then pend(tx \<mapsto> p) else pend)"

lemma seed_apply: "seed tx p pend tx' = (if tx' = tx \<and> pend tx = None then Some p else pend tx')"
  by (simp add: seed_def)

text \<open>What the interface shows of an in-flight set.\<close>

definition heights :: "tracked tracking \<Rightarrow> string \<rightharpoonup> amount \<times> int" where
  "heights pend tx = map_option (\<lambda>t. (tr_amount t, tr_height t)) (pend tx)"

subsection \<open>Confirmations by height\<close>

text \<open>The count \<open>emit\<close> reports and the one the refresh loop compares, in \<open>int64\<close>.\<close>

definition height_confs :: "int \<Rightarrow> int \<Rightarrow> int" where
  "height_confs latest h = i64 (latest - h + 1)"

lemma height_confs_small:
  "0 \<le> latest \<Longrightarrow> latest < 2 ^ 62 \<Longrightarrow> 0 \<le> h \<Longrightarrow> h < 2 ^ 62 \<Longrightarrow> height_confs latest h = latest - h + 1"
  unfolding height_confs_def by (rule i64_id) (simp add: in_i64_def)

definition emitted_confs :: "int \<Rightarrow> int \<Rightarrow> int" where
  "emitted_confs latest h = (if height_confs latest h < 0 then 0 else height_confs latest h)"

lemma emitted_confs_nonneg [simp]: "0 \<le> emitted_confs latest h"
  by (simp add: emitted_confs_def)

lemma emitted_confs_max: "emitted_confs latest h = max 0 (height_confs latest h)"
  by (simp add: emitted_confs_def max_def)

end
