(* ===== verification/Strconv.thy ===== *)
theory Strconv
  imports Prelude "HOL-Library.List_Lexorder" "HOL-Library.Char_ord"
begin

text \<open>
  What the program uses of Go's standard library to read and print numbers and strings:
  \<open>strconv.ParseInt\<close> and \<open>Atoi\<close>, \<open>big.Int.SetString\<close>, \<open>strconv.FormatInt\<close> and the verb
  \<open>%x\<close>, \<open>ParseBool\<close>, \<open>strings.Split\<close>, \<open>TrimSpace\<close> and \<open>url.Values.Encode\<close>, on ASCII
  strings; with the round trips between printing and reading.
\<close>

subsection \<open>Digits\<close>

definition byte_of :: "char \<Rightarrow> nat" where
  "byte_of c = of_char c"

definition digit_char :: "nat \<Rightarrow> char" where
  "digit_char d = char_of (if d < 10 then 48 + d else 87 + d)"

definition digit_val :: "char \<Rightarrow> nat option" where
  "digit_val c =
     (let n = byte_of c in
      if 48 \<le> n \<and> n \<le> 57 then Some (n - 48)
      else if 97 \<le> n \<and> n \<le> 122 then Some (n - 87)
      else if 65 \<le> n \<and> n \<le> 90 then Some (n - 55)
      else None)"

lemma digit_val_digit_char [simp]: "d < 16 \<Longrightarrow> digit_val (digit_char d) = Some d"
  by (simp add: digit_val_def digit_char_def byte_of_def Let_def)

lemma byte_of_digit_char: "d < 16 \<Longrightarrow> 48 \<le> byte_of (digit_char d) \<and> byte_of (digit_char d) < 128"
  by (simp add: digit_char_def byte_of_def)

fun print_nat :: "nat \<Rightarrow> nat \<Rightarrow> string" where
  "print_nat b n =
     (if b < 2 \<or> n < b then [digit_char n] else print_nat b (n div b) @ [digit_char (n mod b)])"

declare print_nat.simps [simp del]

fun read_digits :: "nat \<Rightarrow> string \<Rightarrow> nat \<Rightarrow> nat option" where
  "read_digits b [] acc = Some acc"
| "read_digits b (c # cs) acc =
     (case digit_val c of
        None \<Rightarrow> None
      | Some d \<Rightarrow> if d < b then read_digits b cs (acc * b + d) else None)"

definition read_nat :: "nat \<Rightarrow> string \<Rightarrow> nat option" where
  "read_nat b s = (if s = [] then None else read_digits b s 0)"

lemma read_digits_append:
  "read_digits b (s @ t) acc = Option.bind (read_digits b s acc) (read_digits b t)"
  by (induction s arbitrary: acc) (auto split: option.splits)

lemma print_nat_not_Nil [simp]: "print_nat b n \<noteq> []"
  by (subst print_nat.simps) simp

lemma read_digits_print_nat:
  assumes "2 \<le> b" "b \<le> 16"
  shows "\<exists>k. \<forall>acc. read_digits b (print_nat b n) acc = Some (acc * b ^ k + n)"
proof (induction n rule: less_induct)
  case (less n)
  show ?case
  proof (cases "n < b")
    case True
    then show ?thesis using assms by (intro exI [of _ 1]) (simp add: print_nat.simps [of b n])
  next
    case False
    then have "n div b < n" using assms by (simp add: div_less_dividend)
    from less.IH [OF this] obtain k
      where k: "\<And>acc. read_digits b (print_nat b (n div b)) acc = Some (acc * b ^ k + n div b)" by blast
    have m: "n mod b < b" "n mod b < 16" using assms mod_less_divisor [of b n] by linarith+
    have "read_digits b (print_nat b n) acc = Some (acc * b ^ Suc k + n)" for acc
    proof -
      have "print_nat b n = print_nat b (n div b) @ [digit_char (n mod b)]"
        using False assms by (subst print_nat.simps) simp
      then have "read_digits b (print_nat b n) acc = Some ((acc * b ^ k + n div b) * b + n mod b)"
        using m by (simp add: read_digits_append k)
      then show ?thesis by (simp add: distrib_right)
    qed
    then show ?thesis by blast
  qed
qed

lemma read_print_nat: "2 \<le> b \<Longrightarrow> b \<le> 16 \<Longrightarrow> read_nat b (print_nat b n) = Some n"
  using read_digits_print_nat [of b n] by (auto simp: read_nat_def)

lemma print_nat_digits:
  assumes "2 \<le> b" "b \<le> 16" "c \<in> set (print_nat b n)"
  shows "48 \<le> byte_of c"
  using assms(3)
proof (induction n rule: less_induct)
  case (less n)
  show ?case
  proof (cases "n < b")
    case True
    then show ?thesis using less.prems assms byte_of_digit_char [of n]
      by (simp add: print_nat.simps [of b n])
  next
    case False
    then have "n div b < n" using assms by (simp add: div_less_dividend)
    moreover have "c \<in> set (print_nat b (n div b)) \<or> c = digit_char (n mod b)"
      using less.prems False assms by (subst (asm) print_nat.simps) auto
    moreover have "n mod b < 16" using assms mod_less_divisor [of b n] by linarith
    ultimately show ?thesis using less.IH byte_of_digit_char [of "n mod b"] by auto
  qed
qed

subsection \<open>Signed numbers\<close>

text \<open>An optional sign, then digits up to the end.\<close>

definition read_int :: "nat \<Rightarrow> string \<Rightarrow> int option" where
  "read_int b s =
     (case s of
        CHR ''-'' # t \<Rightarrow> map_option (\<lambda>n. - int n) (read_nat b t)
      | CHR ''+'' # t \<Rightarrow> map_option int (read_nat b t)
      | _ \<Rightarrow> map_option int (read_nat b s))"

definition print_int :: "nat \<Rightarrow> int \<Rightarrow> string" where
  "print_int b n = (if n < 0 then CHR ''-'' # print_nat b (nat (- n)) else print_nat b (nat n))"

lemma read_int_unsigned:
  assumes "s \<noteq> []" "48 \<le> byte_of (hd s)"
  shows "read_int b s = map_option int (read_nat b s)"
proof (cases s)
  case (Cons c t)
  have "c \<noteq> CHR ''-''" "c \<noteq> CHR ''+''" using assms(2) by (auto simp: Cons byte_of_def)
  then show ?thesis by (simp add: read_int_def Cons split: char.splits bool.splits)
qed (use assms in simp)

lemma read_print_int:
  assumes "2 \<le> b" "b \<le> 16"
  shows "read_int b (print_int b n) = Some n"
proof (cases "n < 0")
  case True
  then show ?thesis using read_print_nat [OF assms] by (simp add: print_int_def read_int_def)
next
  case False
  have "48 \<le> byte_of (hd (print_nat b (nat n)))" by (rule print_nat_digits [OF assms hd_in_set]) simp
  with False show ?thesis using read_print_nat [OF assms]
    by (simp add: print_int_def read_int_unsigned)
qed

text \<open>\<open>strconv.FormatInt(n, 10)\<close>, and \<open>strconv.ParseInt(s, 10, 64)\<close> (also \<open>Atoi\<close>).\<close>

definition FormatInt :: "int \<Rightarrow> string" where
  "FormatInt n = print_int 10 n"

definition ParseInt :: "string \<Rightarrow> int option" where
  "ParseInt s =
     (case read_int 10 s of
        Some n \<Rightarrow> if in_i64 n then Some n else None
      | None \<Rightarrow> None)"

lemma ParseInt_FormatInt: "in_i64 n \<Longrightarrow> ParseInt (FormatInt n) = Some n"
  by (simp add: ParseInt_def FormatInt_def read_print_int)

lemma ParseInt_in_i64: "ParseInt s = Some n \<Longrightarrow> in_i64 n"
  by (auto simp: ParseInt_def split: option.splits if_splits)

text \<open>\<open>strconv.ParseBool\<close>.\<close>

definition ParseBool :: "string \<Rightarrow> bool option" where
  "ParseBool s =
     (if s \<in> {''1'', ''t'', ''T'', ''TRUE'', ''true'', ''True''} then Some True
      else if s \<in> {''0'', ''f'', ''F'', ''FALSE'', ''false'', ''False''} then Some False
      else None)"

subsection \<open>Splitting and trimming\<close>

text \<open>\<open>strings.Split\<close> at a one-byte separator.\<close>

fun split_on :: "char \<Rightarrow> string \<Rightarrow> string list" where
  "split_on sep [] = [[]]"
| "split_on sep (c # cs) =
     (if c = sep then [] # split_on sep cs
      else case split_on sep cs of [] \<Rightarrow> [[c]] | p # ps \<Rightarrow> (c # p) # ps)"

definition is_space :: "char \<Rightarrow> bool" where
  "is_space c \<longleftrightarrow> byte_of c \<in> {9, 10, 11, 12, 13, 32}"

definition TrimSpace :: "string \<Rightarrow> string" where
  "TrimSpace s = rev (dropWhile is_space (rev (dropWhile is_space s)))"

lemma split_on_not_Nil [simp]: "split_on sep s \<noteq> []"
  by (cases s) (auto split: list.splits)

lemma split_on_plain: "sep \<notin> set s \<Longrightarrow> split_on sep s = [s]"
  by (induction s) auto

lemma split_on_append: "sep \<notin> set s \<Longrightarrow> split_on sep (s @ sep # t) = s # split_on sep t"
  by (induction s) auto

text \<open>\<open>url.Values.Encode\<close>, for values with one entry per key.\<close>

definition unreserved :: "char \<Rightarrow> bool" where
  "unreserved c \<longleftrightarrow>
     (let n = byte_of c in
      48 \<le> n \<and> n \<le> 57 \<or> 65 \<le> n \<and> n \<le> 90 \<or> 97 \<le> n \<and> n \<le> 122 \<or> c \<in> set ''-_.~'')"

definition upper_hex :: "nat \<Rightarrow> char" where
  "upper_hex d = char_of (if d < 10 then 48 + d else 55 + d)"

definition escape_char :: "char \<Rightarrow> string" where
  "escape_char c =
     (if unreserved c then [c]
      else if c = CHR '' '' then ''+''
      else [CHR ''%'', upper_hex (byte_of c div 16), upper_hex (byte_of c mod 16)])"

definition QueryEscape :: "string \<Rightarrow> string" where
  "QueryEscape s = concat (map escape_char s)"

definition query_pair :: "string \<times> string \<Rightarrow> string" where
  "query_pair kv = QueryEscape (fst kv) @ ''='' @ QueryEscape (snd kv)"

fun join_with :: "string \<Rightarrow> string list \<Rightarrow> string" where
  "join_with sep [] = []"
| "join_with sep [s] = s"
| "join_with sep (s # ss) = s @ sep @ join_with sep ss"

definition values_encode :: "(string \<times> string) list \<Rightarrow> string" where
  "values_encode q = join_with ''&'' (map query_pair (sort_key fst q))"

end
