(* ===== verification/Clients.thy ===== *)
theory Clients
  imports Strconv
begin

text \<open>
  The HTTP clients of the watchers (\<open>client.go\<close> of the packages \<open>tron\<close>, \<open>ton\<close> and
  \<open>evm\<close>): every base URL in order, two attempts each. The network is a parameter: it
  answers the \<open>k\<close>-th request of a call, and tells whether the context is cancelled while
  the client waits before that request. \<open>encoding/json\<close> appears as a function from a
  body to the decoded value, None when it reports an error. The length of the waits
  (half a second before the second attempt on a URL) does not appear in a result.
\<close>

record http_request =
  q_method :: string
  q_url :: string
  q_headers :: "(string \<times> string) list"
  q_body :: string

datatype http_reply =
    BadRequest goerr
  | Unreachable goerr
  | ReadFailed goerr
  | Response int string

record net =
  reply :: "http_request \<Rightarrow> nat \<Rightarrow> http_reply"
  ctx_done :: "nat \<Rightarrow> bool"

text \<open>How the body of the inner loop ends: it returns the result, returns an error, or
  keeps the error and continues.\<close>

datatype 'a step = Success 'a | Fatal goerr | Again goerr

definition maxAttemptsPerURL :: nat where
  "maxAttemptsPerURL = 2"

subsection \<open>The retry loops\<close>

text \<open>
  \<open>attempt\<close> counts the attempts on this URL, \<open>n\<close> those left, \<open>k\<close> the requests of the call
  so far, \<open>lastErr\<close> is the variable of that name. The result None means the loop ended without a return.
\<close>

fun try_url :: "(string \<Rightarrow> nat \<Rightarrow> 'a step) \<Rightarrow> (nat \<Rightarrow> bool) \<Rightarrow> string \<Rightarrow> nat \<Rightarrow> nat \<Rightarrow> nat \<Rightarrow> goerr option
    \<Rightarrow> 'a res option \<times> nat \<times> goerr option" where
  "try_url body cancelled url attempt 0 k lastErr = (None, k, lastErr)"
| "try_url body cancelled url attempt (Suc n) k lastErr =
     (if attempt > 0 \<and> cancelled k then (Some (Inl ContextDone), k, lastErr)
      else case body url k of
        Success x \<Rightarrow> (Some (Inr x), Suc k, lastErr)
      | Fatal err \<Rightarrow> (Some (Inl err), Suc k, lastErr)
      | Again err \<Rightarrow> try_url body cancelled url (Suc attempt) n (Suc k) (Some err))"

fun try_urls :: "(string \<Rightarrow> nat \<Rightarrow> 'a step) \<Rightarrow> (nat \<Rightarrow> bool) \<Rightarrow> string list \<Rightarrow> nat \<Rightarrow> goerr option
    \<Rightarrow> 'a res option \<times> nat \<times> goerr option" where
  "try_urls body cancelled [] k lastErr = (None, k, lastErr)"
| "try_urls body cancelled (url # urls) k lastErr =
     (case try_url body cancelled url 0 maxAttemptsPerURL k lastErr of
        (Some r, k', lastErr1) \<Rightarrow> (Some r, k', lastErr1)
      | (None, k', lastErr1) \<Rightarrow> try_urls body cancelled urls k' lastErr1)"

definition all_failed :: "string \<Rightarrow> goerr option \<Rightarrow> goerr" where
  "all_failed msg lastErr = Wrap msg (case lastErr of None \<Rightarrow> ConnError ''<nil>'' | Some err \<Rightarrow> err)"

definition retry :: "string \<Rightarrow> (string \<Rightarrow> nat \<Rightarrow> 'a step) \<Rightarrow> (nat \<Rightarrow> bool) \<Rightarrow> string list \<Rightarrow> 'a res \<times> nat" where
  "retry msg body cancelled urls =
     (case try_urls body cancelled urls 0 None of
        (Some r, k, _) \<Rightarrow> (r, k)
      | (None, k, lastErr) \<Rightarrow> (Inl (all_failed msg lastErr), k))"

subsection \<open>REST: TronGrid and toncenter\<close>

record client =
  baseURLs :: "string list"
  apiKey :: string

definition newClient :: "string \<Rightarrow> string list \<Rightarrow> string \<Rightarrow> client" where
  "newClient primary fallbacks key = \<lparr>baseURLs = primary # fallbacks, apiKey = key\<rparr>"

definition ton_newClient :: "string \<Rightarrow> string list \<Rightarrow> string \<Rightarrow> client" where
  "ton_newClient primary fallbacks key = \<lparr>baseURLs = primary # fallbacks, apiKey = key\<rparr>"

definition truncate :: "string \<Rightarrow> nat \<Rightarrow> string" where
  "truncate b n = (if length b \<le> n then b else take n b @ ''...'')"

definition request_url :: "string \<Rightarrow> string \<Rightarrow> (string \<times> string) list \<Rightarrow> string" where
  "request_url base path query =
     (if query = [] then base @ path else base @ path @ ''?'' @ values_encode query)"

definition rest_step ::
    "net \<Rightarrow> string \<Rightarrow> string \<Rightarrow> string \<Rightarrow> (string \<times> string) list \<Rightarrow> (string \<Rightarrow> 'a option) \<Rightarrow> string \<Rightarrow> nat
      \<Rightarrow> 'a step" where
  "rest_step network header key path query decode base k =
     (let reqURL = request_url base path query;
          req = \<lparr>q_method = ''GET'', q_url = reqURL,
                 q_headers = (if key = [] then [] else [(header, key)]), q_body = []\<rparr>
      in case reply network req k of
        BadRequest err \<Rightarrow> Again err
      | Unreachable err \<Rightarrow> Again (Wrap (''request '' @ reqURL) err)
      | ReadFailed err \<Rightarrow> Again (Wrap (''read response from '' @ reqURL) err)
      | Response status body \<Rightarrow>
          if status = 429 \<or> status \<ge> 500 then Again (StatusError reqURL status (truncate body 200))
          else if status \<noteq> 200 then Fatal (StatusError reqURL status (truncate body 200))
          else case decode body of
            None \<Rightarrow> Again (Invalid ''decode response'' reqURL)
          | Some x \<Rightarrow> Success x)"

definition tron_get ::
    "client \<Rightarrow> net \<Rightarrow> string \<Rightarrow> (string \<times> string) list \<Rightarrow> (string \<Rightarrow> 'a option) \<Rightarrow> 'a res" where
  "tron_get c network path query decode =
     fst (retry ''all TronGrid endpoints failed''
       (rest_step network ''TRON-PRO-API-KEY'' (apiKey c) path query decode) (ctx_done network) (baseURLs c))"

definition ton_get ::
    "client \<Rightarrow> net \<Rightarrow> string \<Rightarrow> (string \<times> string) list \<Rightarrow> (string \<Rightarrow> 'a option) \<Rightarrow> 'a res" where
  "ton_get c network path query decode =
     fst (retry ''all toncenter endpoints failed''
       (rest_step network ''X-API-Key'' (apiKey c) path query decode) (ctx_done network) (baseURLs c))"

subsection \<open>JSON-RPC: EVM nodes\<close>

text \<open>
  The decoded \<open>rpcResponse\<close>: its raw result, and its error. The result is unmarshalled
  into the caller's type afterwards.
\<close>

record rpc_response =
  rpc_result :: string
  rpc_error :: "(int \<times> string) option"

definition rpc_step ::
    "net \<Rightarrow> (string \<Rightarrow> rpc_response option) \<Rightarrow> string \<Rightarrow> (string \<Rightarrow> 'a option) \<Rightarrow> string \<Rightarrow> nat \<Rightarrow> 'a step"
where
  "rpc_step network decode body unmarshal url k =
     (let req = \<lparr>q_method = ''POST'', q_url = url,
                 q_headers = [(''Content-Type'', ''application/json'')], q_body = body\<rparr>
      in case reply network req k of
        BadRequest err \<Rightarrow> Again err
      | Unreachable err \<Rightarrow> Again (Wrap (''request '' @ url) err)
      | ReadFailed err \<Rightarrow> Again (Wrap (''decode response from '' @ url) err)
      | Response status text \<Rightarrow>
          if status = 429 \<or> status \<ge> 500 then Again (StatusError url status [])
          else case decode text of
            None \<Rightarrow> Again (Invalid ''decode response'' url)
          | Some resp \<Rightarrow>
              (case rpc_error resp of
                 Some (code, message) \<Rightarrow> Again (RpcError url code message)
               | None \<Rightarrow>
                   (case unmarshal (rpc_result resp) of
                      None \<Rightarrow> Again (Invalid ''unmarshal result'' url)
                    | Some x \<Rightarrow> Success x)))"

text \<open>\<open>marshal\<close> is what \<open>json.Marshal\<close> makes of the request, which never fails on strings.\<close>

definition evm_call ::
    "string list \<Rightarrow> net \<Rightarrow> (string \<Rightarrow> rpc_response option) \<Rightarrow> string \<Rightarrow> (string \<Rightarrow> 'a option) \<Rightarrow> 'a res" where
  "evm_call urls network decode body unmarshal =
     fst (retry ''all RPC endpoints failed'' (rpc_step network decode body unmarshal) (ctx_done network) urls)"

subsection \<open>The loops as a search\<close>

text \<open>
  The requests a call may make, in order: two per URL. The loops return what the first
  one that does not ask for another attempt gives.
\<close>

fun schedule :: "string list \<Rightarrow> nat \<Rightarrow> (string \<times> nat) list" where
  "schedule [] k = []"
| "schedule (u # us) k = (u, k) # (u, Suc k) # schedule us (Suc (Suc k))"

fun gives_up :: "'a step \<Rightarrow> bool" where
  "gives_up (Again _) = True"
| "gives_up _ = False"

fun step_result :: "'a step \<Rightarrow> 'a res" where
  "step_result (Success x) = Inr x"
| "step_result (Fatal err) = Inl err"
| "step_result (Again err) = Inl err"

lemma length_schedule [simp]: "length (schedule us k) = 2 * length us"
  by (induction us arbitrary: k) auto

lemma schedule_in: "(u, j) \<in> set (schedule us k) \<Longrightarrow> u \<in> set us \<and> k \<le> j \<and> j < k + 2 * length us"
  by (induction us arbitrary: k) fastforce+

lemma try_url_twice:
  assumes "\<not> cancelled (Suc k)"
  shows "try_url body cancelled url 0 maxAttemptsPerURL k lastErr =
    (case body url k of
       Again err1 \<Rightarrow>
         (case body url (Suc k) of
            Again err2 \<Rightarrow> (None, Suc (Suc k), Some err2)
          | r \<Rightarrow> (Some (step_result r), Suc (Suc k), Some err1))
     | r \<Rightarrow> (Some (step_result r), Suc k, lastErr))"
  using assms by (auto simp: maxAttemptsPerURL_def numeral_2_eq_2 split: step.splits)

lemma try_urls_search:
  assumes "\<And>j. \<not> cancelled j"
  shows "case find (\<lambda>(u, j). \<not> gives_up (body u j)) (schedule urls k) of
      Some (u, j) \<Rightarrow> (\<exists>l. try_urls body cancelled urls k lastErr = (Some (step_result (body u j)), Suc j, l))
    | None \<Rightarrow> (\<exists>l. try_urls body cancelled urls k lastErr = (None, k + 2 * length urls, l) \<and> (urls \<noteq> [] \<longrightarrow> l \<noteq> None))"
proof (induction urls arbitrary: k lastErr)
  case (Cons url urls)
  note one = try_url_twice [of cancelled k body url lastErr, OF assms]
  show ?case
  proof (cases "gives_up (body url k) \<and> gives_up (body url (Suc k))")
    case False
    then show ?thesis by (cases "body url k"; cases "body url (Suc k)") (simp_all add: one)
  next
    case True
    then obtain e1 e2 where e: "body url k = Again e1" "body url (Suc k) = Again e2"
      by (cases "body url k"; cases "body url (Suc k)") auto
    show ?thesis using Cons.IH [of "Suc (Suc k)" "Some e2"]
      by (cases urls) (auto simp: one e split: option.splits)
  qed
qed simp

lemma retry_search:
  assumes "\<And>j. \<not> cancelled j"
  shows "retry msg body cancelled urls =
    (case find (\<lambda>(u, j). \<not> gives_up (body u j)) (schedule urls 0) of
       Some (u, j) \<Rightarrow> (step_result (body u j), Suc j)
     | None \<Rightarrow> (fst (retry msg body cancelled urls), 2 * length urls)) \<and>
    (find (\<lambda>(u, j). \<not> gives_up (body u j)) (schedule urls 0) = None \<longrightarrow>
       (\<exists>err. fst (retry msg body cancelled urls) = Inl (Wrap msg err)))"
  using try_urls_search [of cancelled body urls 0 None, OF assms]
  by (auto simp: retry_def all_failed_def split: option.splits)

lemma try_url_bound:
  "try_url body cancelled url a n k lastErr = (r, k', l) \<Longrightarrow> k \<le> k' \<and> k' \<le> k + n"
proof (induction n arbitrary: a k lastErr)
  case (Suc n)
  then show ?case
    using Suc.IH [of "Suc a" "Suc k"] by (fastforce split: if_splits step.splits)
qed simp

lemma try_urls_bound:
  "try_urls body cancelled urls k lastErr = (r, k', l) \<Longrightarrow> k \<le> k' \<and> k' \<le> k + 2 * length urls"
proof (induction urls arbitrary: k lastErr)
  case (Cons url urls)
  obtain r1 k1 l1 where one: "try_url body cancelled url 0 maxAttemptsPerURL k lastErr = (r1, k1, l1)"
    by (metis surj_pair)
  have b: "k \<le> k1" "k1 \<le> k + 2" using try_url_bound [OF one] by (auto simp: maxAttemptsPerURL_def)
  show ?case
  proof (cases r1)
    case None
    with Cons.prems one have "try_urls body cancelled urls k1 l1 = (r, k', l)" by simp
    from Cons.IH [OF this] b show ?thesis by simp
  qed (use Cons.prems one b in auto)
qed simp

text \<open>With or without cancellation, at most two requests per URL.\<close>

lemma retry_bound: "snd (retry msg body cancelled urls) \<le> 2 * length urls"
proof -
  obtain r k l where x: "try_urls body cancelled urls 0 None = (r, k, l)" by (metis surj_pair)
  from try_urls_bound [OF x] show ?thesis by (auto simp: retry_def x split: option.splits)
qed

lemma baseURLs_newClient [simp]: "baseURLs (newClient p fs key) = p # fs"
  by (simp add: newClient_def)

end
