(* ===== verification/Config.thy ===== *)
theory Config
  imports Strconv Money
begin

text \<open>
  \<open>internal/config/config.go\<close>: the configuration and how it is read from the environment,
  a function from names to values (\<open>os.Getenv\<close> gives the empty string for a variable that
  is not set). \<open>time.ParseDuration\<close>, which computes in floating point, is the parameter
  \<open>pd\<close>; decimal strings are parsed by the decimal library.
\<close>

record TronConfig =
  tc_Enabled :: bool
  tc_Address :: string
  tc_APIURL :: string
  tc_FallbackAPIURLs :: "string list"
  tc_APIKey :: string
  tc_USDTContract :: string
  tc_PollInterval :: duration
  tc_RequiredConfirms :: int

record TONConfig =
  nc_Enabled :: bool
  nc_Address :: string
  nc_APIURL :: string
  nc_FallbackAPIURLs :: "string list"
  nc_APIKey :: string
  nc_USDTJettonMaster :: string
  nc_PollInterval :: duration
  nc_RequiredConfirms :: int

record EVMConfig =
  ec_Enabled :: bool
  ec_ChainName :: string
  ec_Address :: string
  ec_RPCURL :: string
  ec_FallbackRPCURLs :: "string list"
  ec_USDTContract :: string
  ec_PollInterval :: duration
  ec_RequiredConfirms :: int
  ec_LogsBatchBlocks :: int

record ChainsConfig =
  cfg_Tron :: TronConfig
  cfg_TON :: TONConfig
  cfg_Polygon :: EVMConfig
  cfg_BSC :: EVMConfig

record Config =
  HTTPAddr :: string
  MigrationsDir :: string
  PostgresDSN :: string
  RedisAddr :: string
  RedisDB :: int
  APIKey :: string
  OrdersRateLimitPerMinute :: int
  PublicRateLimitPerMinute :: int
  OrderExpiry :: duration
  AmountTolerance :: amount
  UnderpaymentMaxGapPercent :: amount
  OffsetMinTenThousandths :: int
  OffsetMaxTenThousandths :: int
  MaxCollisionRetries :: int
  cfg_Chains :: ChainsConfig

subsection \<open>Reading one variable\<close>

type_synonym getenv = "string \<Rightarrow> string"

definition second :: duration where "second = 1000000000"
definition minute :: duration where "minute = 60 * second"

definition getEnvDefault :: "getenv \<Rightarrow> string \<Rightarrow> string \<Rightarrow> string" where
  "getEnvDefault env key def = (if env key \<noteq> [] then env key else def)"

definition getEnvIntDefault :: "getenv \<Rightarrow> string \<Rightarrow> int \<Rightarrow> int" where
  "getEnvIntDefault env key def =
     (if env key = [] then def
      else case ParseInt (env key) of None \<Rightarrow> def | Some n \<Rightarrow> n)"

definition getEnvBoolDefault :: "getenv \<Rightarrow> string \<Rightarrow> bool \<Rightarrow> bool" where
  "getEnvBoolDefault env key def =
     (if env key = [] then def
      else case ParseBool (env key) of None \<Rightarrow> def | Some b \<Rightarrow> b)"

definition getEnvDurationDefault ::
    "(string \<Rightarrow> duration option) \<Rightarrow> getenv \<Rightarrow> string \<Rightarrow> duration \<Rightarrow> duration" where
  "getEnvDurationDefault pd env key def =
     (if env key = [] then def
      else case pd (env key) of None \<Rightarrow> def | Some d \<Rightarrow> d)"

definition getEnvDecimalDefault :: "decimal_lib \<Rightarrow> getenv \<Rightarrow> string \<Rightarrow> amount \<Rightarrow> amount option" where
  "getEnvDecimalDefault lib env key def =
     (if env key = [] then Some def else dec_parse lib (env key))"

definition splitCSV :: "string \<Rightarrow> string list" where
  "splitCSV v =
     (if v = [] then []
      else filter (\<lambda>p. p \<noteq> []) (map TrimSpace (split_on (CHR '','') v)))"

subsection \<open>Load\<close>

definition loadEVMConfig ::
    "(string \<Rightarrow> duration option) \<Rightarrow> getenv \<Rightarrow> string \<Rightarrow> string \<Rightarrow> string \<Rightarrow> string \<Rightarrow> int \<Rightarrow> EVMConfig"
where
  "loadEVMConfig pd env envPrefix chainName defaultRPC defaultUSDT defaultConfirms =
     \<lparr>ec_Enabled = getEnvBoolDefault env (envPrefix @ ''_ENABLED'') False,
      ec_ChainName = chainName,
      ec_Address = env (envPrefix @ ''_ADDRESS''),
      ec_RPCURL = getEnvDefault env (envPrefix @ ''_RPC_URL'') defaultRPC,
      ec_FallbackRPCURLs = splitCSV (env (envPrefix @ ''_FALLBACK_RPC_URLS'')),
      ec_USDTContract = getEnvDefault env (envPrefix @ ''_USDT_CONTRACT'') defaultUSDT,
      ec_PollInterval = getEnvDurationDefault pd env (envPrefix @ ''_POLL_INTERVAL'') (15 * second),
      ec_RequiredConfirms = getEnvIntDefault env (envPrefix @ ''_REQUIRED_CONFIRMATIONS'') defaultConfirms,
      ec_LogsBatchBlocks = getEnvIntDefault env (envPrefix @ ''_LOGS_BATCH_BLOCKS'') 2000\<rparr>"

definition loadTronConfig :: "(string \<Rightarrow> duration option) \<Rightarrow> getenv \<Rightarrow> TronConfig" where
  "loadTronConfig pd env =
     \<lparr>tc_Enabled = getEnvBoolDefault env ''TRON_ENABLED'' True,
      tc_Address = env ''TRON_ADDRESS'',
      tc_APIURL = getEnvDefault env ''TRON_API_URL'' ''https://api.trongrid.io'',
      tc_FallbackAPIURLs = splitCSV (env ''TRON_FALLBACK_API_URLS''),
      tc_APIKey = env ''TRON_API_KEY'',
      tc_USDTContract = getEnvDefault env ''TRON_USDT_CONTRACT'' ''TR7NHqjeKQxGTCi8q8ZY4pL8otSzgjLj6t'',
      tc_PollInterval = getEnvDurationDefault pd env ''TRON_POLL_INTERVAL'' (5 * second),
      tc_RequiredConfirms = getEnvIntDefault env ''TRON_REQUIRED_CONFIRMATIONS'' 20\<rparr>"

definition loadTONConfig :: "(string \<Rightarrow> duration option) \<Rightarrow> getenv \<Rightarrow> TONConfig" where
  "loadTONConfig pd env =
     \<lparr>nc_Enabled = getEnvBoolDefault env ''TON_ENABLED'' False,
      nc_Address = env ''TON_ADDRESS'',
      nc_APIURL = getEnvDefault env ''TON_API_URL'' ''https://toncenter.com/api/v3'',
      nc_FallbackAPIURLs = splitCSV (env ''TON_FALLBACK_API_URLS''),
      nc_APIKey = env ''TON_API_KEY'',
      nc_USDTJettonMaster = getEnvDefault env ''TON_USDT_JETTON_MASTER''
        ''EQCxE6mUtQJKFnGfaROTKOt1lZbDiiX1kCixRv7Nw2Id_sDs'',
      nc_PollInterval = getEnvDurationDefault pd env ''TON_POLL_INTERVAL'' (8 * second),
      nc_RequiredConfirms = getEnvIntDefault env ''TON_REQUIRED_CONFIRMATIONS'' 5\<rparr>"

definition loadChains :: "(string \<Rightarrow> duration option) \<Rightarrow> getenv \<Rightarrow> ChainsConfig" where
  "loadChains pd env =
     \<lparr>cfg_Tron = loadTronConfig pd env,
      cfg_TON = loadTONConfig pd env,
      cfg_Polygon = loadEVMConfig pd env ''POLYGON'' ''polygon'' ''https://polygon-rpc.com''
        ''0xc2132D05D31c914a87C6611C10748AEb04B58e8F'' 128,
      cfg_BSC = loadEVMConfig pd env ''BSC'' ''bsc'' ''https://bsc-dataseed.binance.org''
        ''0x55d398326f99059fF775485246999027B3197955'' 15\<rparr>"

definition missing_address :: "string \<Rightarrow> goerr" where
  "missing_address envPrefix = Invalid (envPrefix @ ''_ADDRESS'') ''is required when enabled''"

definition Load :: "decimal_lib \<Rightarrow> (string \<Rightarrow> duration option) \<Rightarrow> getenv \<Rightarrow> Config res" where
  "Load lib pd env =
     (if env ''POSTGRES_DSN'' = [] then Inl (Invalid ''POSTGRES_DSN'' ''is required'')
      else if env ''API_KEY'' = [] then Inl (Invalid ''API_KEY'' ''is required'')
      else case getEnvDecimalDefault lib env ''AMOUNT_TOLERANCE_USD'' (2 / 100) of
        None \<Rightarrow> Inl (Invalid ''AMOUNT_TOLERANCE_USD'' ''not a decimal'')
      | Some tolerance \<Rightarrow>
      (case getEnvDecimalDefault lib env ''UNDERPAYMENT_MAX_GAP_PERCENT'' 50 of
        None \<Rightarrow> Inl (Invalid ''UNDERPAYMENT_MAX_GAP_PERCENT'' ''not a decimal'')
      | Some gap \<Rightarrow>
          let cs = loadChains pd env in
          if tc_Enabled (cfg_Tron cs) \<and> tc_Address (cfg_Tron cs) = [] then Inl (missing_address ''TRON'')
          else if nc_Enabled (cfg_TON cs) \<and> nc_Address (cfg_TON cs) = [] then Inl (missing_address ''TON'')
          else if ec_Enabled (cfg_Polygon cs) \<and> ec_Address (cfg_Polygon cs) = []
            then Inl (missing_address ''POLYGON'')
          else if ec_Enabled (cfg_BSC cs) \<and> ec_Address (cfg_BSC cs) = [] then Inl (missing_address ''BSC'')
          else Inr
            \<lparr>HTTPAddr = getEnvDefault env ''HTTP_ADDR'' '':8080'',
             MigrationsDir = getEnvDefault env ''MIGRATIONS_DIR'' ''migrations'',
             PostgresDSN = env ''POSTGRES_DSN'',
             RedisAddr = getEnvDefault env ''REDIS_ADDR'' ''127.0.0.1:6379'',
             RedisDB = getEnvIntDefault env ''REDIS_DB'' 0,
             APIKey = env ''API_KEY'',
             OrdersRateLimitPerMinute = getEnvIntDefault env ''ORDERS_RATE_LIMIT_PER_MINUTE'' 60,
             PublicRateLimitPerMinute = getEnvIntDefault env ''PUBLIC_RATE_LIMIT_PER_MINUTE'' 60,
             OrderExpiry = getEnvDurationDefault pd env ''ORDER_EXPIRY'' (20 * minute),
             AmountTolerance = tolerance,
             UnderpaymentMaxGapPercent = gap,
             OffsetMinTenThousandths = getEnvIntDefault env ''EXPECTED_AMOUNT_OFFSET_MIN'' 1,
             OffsetMaxTenThousandths = getEnvIntDefault env ''EXPECTED_AMOUNT_OFFSET_MAX'' 99,
             MaxCollisionRetries = getEnvIntDefault env ''MAX_AMOUNT_COLLISION_RETRIES'' 20,
             cfg_Chains = cs\<rparr>))"

subsection \<open>Facts\<close>

lemma getEnvIntDefault_in_i64: "in_i64 def \<Longrightarrow> in_i64 (getEnvIntDefault env key def)"
  by (auto simp: getEnvIntDefault_def dest: ParseInt_in_i64 split: option.splits)

lemma splitCSV_nonempty: "p \<in> set (splitCSV v) \<Longrightarrow> p \<noteq> []"
  by (auto simp: splitCSV_def split: if_splits)

text \<open>Joining names with commas and splitting again gives the names, when they are clean.\<close>

definition clean_name :: "string \<Rightarrow> bool" where
  "clean_name s \<longleftrightarrow> s \<noteq> [] \<and> CHR '','' \<notin> set s \<and> TrimSpace s = s"

lemma split_on_join:
  assumes "\<forall>s\<in>set ss. sep \<notin> set s" "ss \<noteq> []"
  shows "split_on sep (join_with [sep] ss) = ss"
  using assms by (induction "[sep]" ss rule: join_with.induct) (simp_all add: split_on_plain split_on_append)

lemma splitCSV_join:
  assumes "\<forall>s\<in>set ss. clean_name s"
  shows "splitCSV (join_with '','' ss) = ss"
proof (cases ss)
  case (Cons s ts)
  have "join_with '','' ss \<noteq> []"
    using assms by (cases ts) (auto simp: Cons clean_name_def)
  moreover have "split_on (CHR '','') (join_with '','' ss) = ss"
    using assms Cons by (intro split_on_join) (auto simp: clean_name_def)
  moreover have "map TrimSpace ss = ss" "filter (\<lambda>p. p \<noteq> []) ss = ss"
    using assms by (auto simp: clean_name_def intro!: map_idI filter_True)
  ultimately show ?thesis by (simp add: splitCSV_def)
qed (simp add: splitCSV_def)

end
