(* ===== verification/Evm.thy ===== *)
theory Evm
  imports Tracking Clients Config
begin

text \<open>
  \<open>internal/chains/evm\<close>: hexadecimal quantities and topics (\<open>types.go\<close>) and the watcher
  (\<open>watcher.go\<close>). A poll takes what the outside world does during it: the replies to its
  requests, the clock, and the order in which Go ranges over a map.
\<close>

subsection \<open>Quantities and topics\<close>

record rpc_log =
  l_address :: string
  l_topics :: "string list"
  l_data :: string
  l_blockNumber :: string
  l_txHash :: string

definition parseHexBigInt :: "string \<Rightarrow> int res" where
  "parseHexBigInt hexStr =
     (case read_int 16 (trim_prefix hexStr ''0x'') of
        None \<Rightarrow> Inl (Invalid ''invalid hex big int'' hexStr)
      | Some n \<Rightarrow> Inr n)"

definition parseHexQuantity :: "string \<Rightarrow> int res" where
  "parseHexQuantity hexStr =
     (case read_int 16 (trim_prefix hexStr ''0x'') of
        None \<Rightarrow> Inl (Invalid ''invalid hex quantity'' hexStr)
      | Some n \<Rightarrow> Inr (i64 n))"

definition toHexQuantity :: "int \<Rightarrow> string" where
  "toHexQuantity n = ''0x'' @ print_int 16 n"

definition addressToTopic :: "string \<Rightarrow> string" where
  "addressToTopic address =
     (let addr = to_lower (trim_prefix address ''0x'')
      in ''0x'' @ replicate 24 (CHR ''0'') @ addr)"

lemma parse_toHexQuantity: "in_i64 n \<Longrightarrow> parseHexQuantity (toHexQuantity n) = Inr n"
  by (simp add: parseHexQuantity_def toHexQuantity_def read_print_int del: append_Cons)

subsection \<open>The watcher\<close>

definition transferTopic :: string where
  "transferTopic = ''0xddf252ad1be2c89b69c2b068fc378daa952ba7f163c4a11628f55a4df523b3ef''"

record 's evm_watcher =
  em_cfg :: EVMConfig
  em_chain :: string
  em_topic :: string
  em_urls :: "string list"
  em_sink :: "'s sink"
  em_cursors :: "'s cursor_ops"
  em_pending :: "tracked tracking"

definition evm_newClient :: "string \<Rightarrow> string list \<Rightarrow> string list" where
  "evm_newClient primary fallbacks = primary # fallbacks"

definition evm_NewWatcher ::
    "string \<Rightarrow> EVMConfig \<Rightarrow> 's sink \<Rightarrow> 's cursor_ops \<Rightarrow> 's evm_watcher" where
  "evm_NewWatcher chain cfg sink store =
     \<lparr>em_cfg = cfg, em_chain = chain, em_topic = addressToTopic (ec_Address cfg),
      em_urls = evm_newClient (ec_RPCURL cfg) (ec_FallbackRPCURLs cfg), em_sink = sink, em_cursors = store,
      em_pending = Map.empty\<rparr>"

definition evm_SeedPending :: "pending_transfer \<Rightarrow> 's evm_watcher \<Rightarrow> unit res \<times> 's evm_watcher" where
  "evm_SeedPending t w =
     (Inr (), w\<lparr>em_pending :=
        seed (pt_tx t) \<lparr>tr_amount = pt_amount t, tr_height = pt_height t\<rparr> (em_pending w)\<rparr>)"

datatype rpc_call = EthBlockNumber | EthGetLogs string string string "string option list"

text \<open>
  One poll: the network for \<open>eth_blockNumber\<close> and for the \<open>eth_getLogs\<close> that starts at a
  block, the JSON codec, and the times read on the way.
\<close>

record evm_poll =
  ep_block_net :: net
  ep_logs_net :: "int \<Rightarrow> net"
  ep_marshal :: "rpc_call \<Rightarrow> string"
  ep_decode :: "string \<Rightarrow> rpc_response option"
  ep_unmarshal_string :: "string \<Rightarrow> string option"
  ep_unmarshal_logs :: "string \<Rightarrow> rpc_log list option"
  ep_now :: time
  ep_clock :: "string \<Rightarrow> time"
  ep_range :: "tracked tracking \<Rightarrow> string list"

definition blockNumber :: "evm_poll \<Rightarrow> 's evm_watcher \<Rightarrow> int res" where
  "blockNumber p w =
     (case evm_call (em_urls w) (ep_block_net p) (ep_decode p) (ep_marshal p EthBlockNumber)
             (ep_unmarshal_string p) of
        Inl err \<Rightarrow> Inl err
      | Inr hexResult \<Rightarrow> parseHexQuantity hexResult)"

definition get_logs :: "evm_poll \<Rightarrow> 's evm_watcher \<Rightarrow> int \<Rightarrow> int \<Rightarrow> rpc_log list res" where
  "get_logs p w fromBlock toBlock =
     (let call = EthGetLogs (toHexQuantity fromBlock) (toHexQuantity toBlock)
                   (ec_USDTContract (em_cfg w)) [Some transferTopic, None, Some (em_topic w)]
      in evm_call (em_urls w) (ep_logs_net p fromBlock) (ep_decode p) (ep_marshal p call)
           (ep_unmarshal_logs p))"

definition handleLog :: "rpc_log \<Rightarrow> tracked tracking \<Rightarrow> tracked tracking" where
  "handleLog l pend =
     (if length (l_topics l) < 3 then pend
      else case parseHexBigInt (l_data l) of
        Inl _ \<Rightarrow> pend
      | Inr rawAmount \<Rightarrow>
          (let amt = of_int rawAmount / 10 ^ 6 in
           case parseHexQuantity (l_blockNumber l) of
             Inl _ \<Rightarrow> pend
           | Inr blockHeight \<Rightarrow> pend(l_txHash l \<mapsto> \<lparr>tr_amount = amt, tr_height = blockHeight\<rparr>)))"

definition handle_logs :: "rpc_log list \<Rightarrow> tracked tracking \<Rightarrow> tracked tracking" where
  "handle_logs logs pend = foldl (\<lambda>m l. handleLog l m) pend logs"

text \<open>
  The loop over batches, in \<open>int64\<close>: \<open>cursor + batch\<close> may wrap, and then the loop may not
  end, which is the value None.
\<close>

partial_function (option) scan_batches ::
    "(int \<Rightarrow> int \<Rightarrow> rpc_log list res) \<Rightarrow> int \<Rightarrow> int \<Rightarrow> int \<Rightarrow> int \<Rightarrow> tracked tracking
      \<Rightarrow> (int res \<times> tracked tracking) option" where
  "scan_batches fetch batch latest cursor lastCompleted pend =
     (if cursor \<le> latest then
        let to = (if i64 (cursor + batch - 1) > latest then latest else i64 (cursor + batch - 1)) in
        case fetch cursor to of
          Inl err \<Rightarrow> Some (Inl (Wrap ''eth_getLogs'' err), pend)
        | Inr logs \<Rightarrow> scan_batches fetch batch latest (i64 (to + 1)) to (handle_logs logs pend)
      else Some (Inr lastCompleted, pend))"

definition first_block :: "int \<Rightarrow> int \<Rightarrow> int" where
  "first_block cursor latest =
     (if cursor = 0 then (if i64 (latest - 50) < 0 then 0 else i64 (latest - 50)) else i64 (cursor + 1))"

definition batch_blocks :: "EVMConfig \<Rightarrow> int" where
  "batch_blocks cfg = (if ec_LogsBatchBlocks cfg \<le> 0 then 2000 else ec_LogsBatchBlocks cfg)"

definition scanNewLogs ::
    "evm_poll \<Rightarrow> int \<Rightarrow> 's evm_watcher \<Rightarrow> 's \<Rightarrow> (unit res \<times> 's evm_watcher \<times> 's) option" where
  "scanNewLogs p latestBlock w s =
     (case get_cursor (em_cursors w) (em_chain w) s of
        (Inl err, s1) \<Rightarrow> Some (Inl (Wrap ''load cursor'' err), w, s1)
      | (Inr (height, _), s1) \<Rightarrow>
          let fromBlock = first_block height latestBlock in
          if fromBlock > latestBlock then Some (Inr (), w, s1)
          else case scan_batches (get_logs p w) (batch_blocks (em_cfg w)) latestBlock fromBlock
                      (i64 (fromBlock - 1)) (em_pending w) of
            None \<Rightarrow> None
          | Some (Inl err, pend) \<Rightarrow> Some (Inl err, w\<lparr>em_pending := pend\<rparr>, s1)
          | Some (Inr lastCompleted, pend) \<Rightarrow>
              (case set_cursor (em_cursors w) (em_chain w) lastCompleted (ep_now p) s1 of
                 (Inl err, s2) \<Rightarrow> Some (Inl (Wrap ''save cursor'' err), w\<lparr>em_pending := pend\<rparr>, s2)
               | (Inr _, s2) \<Rightarrow> Some (Inr (), w\<lparr>em_pending := pend\<rparr>, s2)))"

definition evm_event :: "evm_poll \<Rightarrow> int \<Rightarrow> 's evm_watcher \<Rightarrow> string \<Rightarrow> tracked \<Rightarrow> transfer_event" where
  "evm_event p latestBlock w txHash t =
     \<lparr>ev_chain = em_chain w, ev_tx = txHash, ev_amount = tr_amount t, ev_height = tr_height t,
      ev_confs = emitted_confs latestBlock (tr_height t), ev_observed = ep_clock p txHash\<rparr>"

definition evm_final :: "int \<Rightarrow> 's evm_watcher \<Rightarrow> tracked \<Rightarrow> bool" where
  "evm_final latestBlock w t \<longleftrightarrow> height_confs latestBlock (tr_height t) \<ge> ec_RequiredConfirms (em_cfg w)"

definition evm_refreshConfirmations ::
    "evm_poll \<Rightarrow> int \<Rightarrow> 's evm_watcher \<Rightarrow> 's \<Rightarrow> 's evm_watcher \<times> 's" where
  "evm_refreshConfirmations p latestBlock w s =
     (case report_items (evm_event p latestBlock w) (evm_final latestBlock w) (em_sink w)
             (items_of (ep_range p (em_pending w)) (em_pending w)) (em_pending w) s of
        (pend, s') \<Rightarrow> (w\<lparr>em_pending := pend\<rparr>, s'))"

definition evm_pollOnce ::
    "evm_poll \<Rightarrow> 's evm_watcher \<Rightarrow> 's \<Rightarrow> (unit res \<times> 's evm_watcher \<times> 's) option" where
  "evm_pollOnce p w s =
     (case blockNumber p w of
        Inl err \<Rightarrow> Some (Inl (Wrap ''get latest block'' err), w, s)
      | Inr latest \<Rightarrow>
          (case scanNewLogs p latest w s of
             None \<Rightarrow> None
           | Some (_, w1, s1) \<Rightarrow>
               (case evm_refreshConfirmations p latest w1 s1 of (w2, s2) \<Rightarrow> Some (Inr (), w2, s2))))"

text \<open>\<open>Run\<close>: one poll per tick until the context is cancelled; none when disabled.\<close>

fun evm_polls :: "evm_poll list \<Rightarrow> 's evm_watcher \<Rightarrow> 's \<Rightarrow> ('s evm_watcher \<times> 's) option" where
  "evm_polls [] w s = Some (w, s)"
| "evm_polls (p # ps) w s =
     (case evm_pollOnce p w s of None \<Rightarrow> None | Some (_, w1, s1) \<Rightarrow> evm_polls ps w1 s1)"

definition evm_Run :: "evm_poll list \<Rightarrow> 's evm_watcher \<Rightarrow> 's \<Rightarrow> ('s evm_watcher \<times> 's) option" where
  "evm_Run ticks w s = (if \<not> ec_Enabled (em_cfg w) then Some (w, s) else evm_polls ticks w s)"

subsection \<open>The watcher behind the interface\<close>

definition evm_iface :: "'s evm_watcher watcher_iface" where
  "evm_iface =
     \<lparr>w_chain = em_chain, w_required = (\<lambda>w. ec_RequiredConfirms (em_cfg w)),
      w_seed = (\<lambda>_. evm_SeedPending)\<rparr>"

interpretation evm: chain_watcher evm_iface "\<lambda>w. heights (em_pending w)"
  by unfold_locales
    (auto simp: evm_iface_def evm_SeedPending_def heights_def fun_eq_iff seed_apply split: option.splits)

end
