(* ===== verification/EvmFacts.thy ===== *)
theory EvmFacts
  imports Evm
begin

text \<open>
  The scan loop of the EVM watcher as a list of ranges: it ends, the ranges follow each
  other from the first block to the latest, and cutting the scan into batches gives what
  one request for the whole range would. Then what a scan does to the cursor, over any
  cursor store, and what a refresh reports and forgets.
\<close>

subsection \<open>The batches\<close>

function batch_ranges :: "int \<Rightarrow> int \<Rightarrow> int \<Rightarrow> (int \<times> int) list" where
  "batch_ranges batch latest cursor =
     (if 0 < batch \<and> cursor \<le> latest then
        let to = min (cursor + batch - 1) latest in (cursor, to) # batch_ranges batch latest (to + 1)
      else [])"
  by pat_completeness auto
termination
  by (relation "measure (\<lambda>(batch, latest, cursor). nat (latest + 1 - cursor))") (auto simp: min_def)

declare batch_ranges.simps [simp del]

fun scan_ranges ::
    "(int \<Rightarrow> int \<Rightarrow> rpc_log list res) \<Rightarrow> (int \<times> int) list \<Rightarrow> int \<Rightarrow> tracked tracking \<Rightarrow> int res \<times> tracked tracking"
where
  "scan_ranges fetch [] lastCompleted pend = (Inr lastCompleted, pend)"
| "scan_ranges fetch ((a, b) # rs) lastCompleted pend =
     (case fetch a b of
        Inl err \<Rightarrow> (Inl (Wrap ''eth_getLogs'' err), pend)
      | Inr logs \<Rightarrow> scan_ranges fetch rs b (handle_logs logs pend))"

lemma scan_batches_ranges:
  assumes "0 < batch" "0 \<le> cursor" "latest + batch < 2 ^ 63"
  shows "scan_batches fetch batch latest cursor lastCompleted pend =
    Some (scan_ranges fetch (batch_ranges batch latest cursor) lastCompleted pend)"
  using assms
proof (induction batch latest cursor arbitrary: lastCompleted pend rule: batch_ranges.induct)
  case (1 batch latest cursor)
  show ?case
  proof (cases "cursor \<le> latest")
    case False
    then show ?thesis by (simp add: scan_batches.simps [of fetch batch latest cursor] batch_ranges.simps [of batch latest cursor])
  next
    case True
    let ?to = "min (cursor + batch - 1) latest"
    have w: "i64 (cursor + batch - 1) = cursor + batch - 1" "i64 (?to + 1) = ?to + 1"
      using True 1(2-4) by (auto intro!: i64_id simp: in_i64_def min_def)
    have to: "(if cursor + batch - 1 > latest then latest else cursor + batch - 1) = ?to" by (simp add: min_def)
    have "scan_batches fetch batch latest (?to + 1) l p =
        Some (scan_ranges fetch (batch_ranges batch latest (?to + 1)) l p)" for l p
      using True 1(2-4) by (intro 1(1)) (auto simp: min_def)
    then show ?thesis using True 1(2)
      by (simp only: scan_batches.simps [of fetch batch latest cursor] batch_ranges.simps [of batch latest cursor] w to Let_def)
        (simp add: w split: sum.split)
  qed
qed

lemma batch_ranges_cover:
  "0 < batch \<Longrightarrow> concat (map (\<lambda>(a, b). [a..b]) (batch_ranges batch latest cursor)) = [cursor..latest]"
proof (induction batch latest cursor rule: batch_ranges.induct)
  case (1 batch latest cursor)
  show ?case
  proof (cases "cursor \<le> latest")
    case True
    let ?to = "min (cursor + batch - 1) latest"
    have b: "cursor \<le> ?to" "?to \<le> latest" using True 1(2) by auto
    have "concat (map (\<lambda>(a, b). [a..b]) (batch_ranges batch latest (?to + 1))) = [?to + 1..latest]"
      using True 1(2) by (intro 1(1)) auto
    moreover have "[cursor..latest] = [cursor..?to] @ [?to + 1..latest]"
      using b by (rule upto_split2)
    ultimately show ?thesis using True 1(2)
      by (simp add: batch_ranges.simps [of batch latest cursor] Let_def)
  qed (simp add: batch_ranges.simps [of batch latest cursor])
qed

lemma batch_ranges_bounds:
  "(a, b) \<in> set (batch_ranges batch latest cursor) \<Longrightarrow>
   cursor \<le> a \<and> a \<le> b \<and> b \<le> latest \<and> b - a + 1 \<le> batch"
proof (induction batch latest cursor rule: batch_ranges.induct)
  case (1 batch latest cursor)
  then have on: "0 < batch" "cursor \<le> latest"
    by (auto simp: batch_ranges.simps [of batch latest cursor] split: if_splits)
  let ?to = "min (cursor + batch - 1) latest"
  from 1(2) on consider "(a, b) = (cursor, ?to)" | "(a, b) \<in> set (batch_ranges batch latest (?to + 1))"
    by (auto simp: batch_ranges.simps [of batch latest cursor] Let_def)
  then show ?case
  proof cases
    case 2
    with 1(1) [of ?to] on have "?to + 1 \<le> a \<and> a \<le> b \<and> b \<le> latest \<and> b - a + 1 \<le> batch" by simp
    with on show ?thesis by (auto simp: min_def split: if_splits)
  qed (use on in auto)
qed

subsection \<open>Batching is invisible\<close>

definition log_block :: "rpc_log \<Rightarrow> int" where
  "log_block l = (case parseHexQuantity (l_blockNumber l) of Inl _ \<Rightarrow> 0 | Inr n \<Rightarrow> n)"

text \<open>The logs of a chain's history in a range of blocks.\<close>

definition logs_between :: "rpc_log list \<Rightarrow> int \<Rightarrow> int \<Rightarrow> rpc_log list" where
  "logs_between hist a b = filter (\<lambda>l. a \<le> log_block l \<and> log_block l \<le> b) hist"

lemma logs_between_split:
  assumes "sorted (map log_block hist)" "b \<le> c" "a \<le> b + 1"
  shows "logs_between hist a b @ logs_between hist (b + 1) c = logs_between hist a c"
  using assms(1)
proof (induction hist)
  case (Cons l hist)
  show ?case
  proof (cases "log_block l \<le> b")
    case True
    with Cons assms show ?thesis by (simp add: logs_between_def)
  next
    case False
    then have "logs_between hist a b = []"
      using Cons.prems by (force simp: logs_between_def filter_Nil_iff)
    with False Cons assms show ?thesis by (auto simp: logs_between_def)
  qed
qed (simp add: logs_between_def)

lemma handle_logs_append: "handle_logs (xs @ ys) pend = handle_logs ys (handle_logs xs pend)"
  by (simp add: handle_logs_def)

lemma scan_ranges_history:
  assumes fetch: "\<And>a b. fetch a b = Inr (logs_between hist a b)"
    and "sorted (map log_block hist)" "0 < batch" "cursor \<le> latest"
  shows "scan_ranges fetch (batch_ranges batch latest cursor) lastCompleted pend =
    (Inr latest, handle_logs (logs_between hist cursor latest) pend)"
  using assms(2-4)
proof (induction batch latest cursor arbitrary: lastCompleted pend rule: batch_ranges.induct)
  case (1 batch latest cursor)
  let ?to = "min (cursor + batch - 1) latest"
  have unfold: "batch_ranges batch latest cursor = (cursor, ?to) # batch_ranges batch latest (?to + 1)"
    using 1 by (simp add: batch_ranges.simps [of batch latest cursor] Let_def)
  show ?case
  proof (cases "?to < latest")
    case True
    have "scan_ranges fetch (batch_ranges batch latest (?to + 1)) l p =
        (Inr latest, handle_logs (logs_between hist (?to + 1) latest) p)" for l p
      using 1(2-4) True by (intro 1(1)) auto
    moreover have "logs_between hist cursor latest =
        logs_between hist cursor ?to @ logs_between hist (?to + 1) latest"
      using 1(2-4) True by (intro logs_between_split [symmetric]) auto
    moreover have "scan_ranges fetch ((cursor, ?to) # rs) c p =
        scan_ranges fetch rs ?to (handle_logs (logs_between hist cursor ?to) p)" for rs c p
      using fetch [of cursor ?to] by simp
    ultimately show ?thesis by (simp only: unfold handle_logs_append)
  next
    case False
    then have "?to = latest" by simp
    moreover have "batch_ranges batch latest (latest + 1) = []" by (simp add: batch_ranges.simps)
    ultimately show ?thesis by (simp add: unfold fetch)
  qed
qed

subsection \<open>The cursor\<close>

lemma scan_ranges_last:
  "fst (scan_ranges fetch (batch_ranges batch latest cursor) c0 pend) = Inr x \<Longrightarrow>
   0 < batch \<Longrightarrow> x = (if cursor \<le> latest then latest else c0)"
proof (induction batch latest cursor arbitrary: c0 pend rule: batch_ranges.induct)
  case (1 batch latest cursor)
  let ?to = "min (cursor + batch - 1) latest"
  show ?case
  proof (cases "cursor \<le> latest")
    case True
    then have u: "batch_ranges batch latest cursor = (cursor, ?to) # batch_ranges batch latest (?to + 1)"
      using 1 by (simp add: batch_ranges.simps [of batch latest cursor] Let_def)
    from 1(2) obtain logs where "fetch cursor ?to = Inr logs"
      by (auto simp: u split: sum.splits)
    with 1(2) have "fst (scan_ranges fetch (batch_ranges batch latest (?to + 1)) ?to (handle_logs logs pend)) = Inr x"
      by (simp add: u)
    from 1(1) [OF _ _ this] True 1(3) show ?thesis by (auto split: if_splits)
  next
    case False
    with 1(2) show ?thesis by (simp add: batch_ranges.simps [of batch latest cursor])
  qed
qed

lemma first_block_nonneg: "0 \<le> h \<Longrightarrow> h < 2 ^ 62 \<Longrightarrow> 0 \<le> first_block h latest"
proof -
  assume h: "0 \<le> h" "h < 2 ^ 62"
  then have "i64 (h + 1) = h + 1" by (intro i64_id) (simp add: in_i64_def)
  with h show ?thesis by (auto simp: first_block_def not_less)
qed

lemma batch_blocks_pos: "0 < batch_blocks cfg"
  by (simp add: batch_blocks_def)

text \<open>The bounds under which the loop cannot wrap: heights and batch below \<open>2 ^ 62\<close>.\<close>

definition in_bounds :: "'s evm_watcher \<Rightarrow> int \<Rightarrow> bool" where
  "in_bounds w latest \<longleftrightarrow> latest < 2 ^ 62 \<and> batch_blocks (em_cfg w) < 2 ^ 62"

lemma scan_batches_bounded:
  assumes "in_bounds w latest" "0 \<le> h" "h < 2 ^ 62"
  shows "scan_batches fetch (batch_blocks (em_cfg w)) latest (first_block h latest) c0 pend =
    Some (scan_ranges fetch (batch_ranges (batch_blocks (em_cfg w)) latest (first_block h latest)) c0 pend)"
  using assms first_block_nonneg [of h latest] batch_blocks_pos [of "em_cfg w"]
  by (intro scan_batches_ranges) (auto simp: in_bounds_def)

context cursor_store
begin

text \<open>
  A scan of a watcher on this store always ends; the stored cursor afterwards is the old
  one or the latest block, and when the scan succeeds and there was something to scan it
  is the latest block.
\<close>

lemma scanNewLogs_total:
  assumes "em_cursors w = ops" "in_bounds w latest"
    and "0 \<le> fst (view s (em_chain w))" "fst (view s (em_chain w)) < 2 ^ 62"
  shows "scanNewLogs p latest w s \<noteq> None"
proof -
  obtain r s1 where g: "get_cursor ops (em_chain w) s = (r, s1)" by (metis surj_pair)
  have "0 \<le> h \<and> h < 2 ^ 62" if "r = Inr (h, t)" for h t
    using get_result [OF g [unfolded that]] assms(3,4) by (metis fst_conv)
  then show ?thesis
    using assms(1,2) by (auto simp: scanNewLogs_def g Let_def scan_batches_bounded
        split: sum.splits prod.splits option.splits)
qed

lemma scanNewLogs_cursor:
  assumes "em_cursors w = ops" "in_bounds w latest"
    and h: "fst (view s (em_chain w)) = h" "0 \<le> h" "h < 2 ^ 62"
    and scan: "scanNewLogs p latest w s = Some (r, w', s')"
  shows "view s' (em_chain w) \<in> {view s (em_chain w), (latest, Some (ep_now p))} \<and>
    (r = Inr () \<longrightarrow> first_block h latest \<le> latest \<longrightarrow> view s' (em_chain w) = (latest, Some (ep_now p)))"
proof -
  obtain r1 s1 where g: "get_cursor ops (em_chain w) s = (r1, s1)" by (metis surj_pair)
  note v = get_keeps [OF g]
  show ?thesis
  proof (cases r1)
    case (Inl err)
    with scan g assms(1) v show ?thesis by (auto simp: scanNewLogs_def)
  next
    case (Inr x)
    obtain t where x: "x = (h, t)" using get_result [OF g [unfolded Inr]] h(1) by (metis prod.collapse)
    let ?rs = "batch_ranges (batch_blocks (em_cfg w)) latest (first_block h latest)"
    obtain r2 pend where sc: "scan_ranges (get_logs p w) ?rs (i64 (first_block h latest - 1)) (em_pending w) = (r2, pend)"
      by (metis surj_pair)
    show ?thesis
    proof (cases "first_block h latest > latest")
      case True
      with scan g assms(1) v show ?thesis by (simp add: scanNewLogs_def Inr x Let_def)
    next
      case False
      show ?thesis
      proof (cases r2)
        case (Inl err)
        with scan g assms v False sc show ?thesis
          by (auto simp: scanNewLogs_def Inr x Let_def scan_batches_bounded)
      next
        case (Inr y)
        have y: "y = latest" using scan_ranges_last [of _ _ _ _ _ _ y] sc Inr batch_blocks_pos [of "em_cfg w"] False
          by (metis fst_conv not_less)
        obtain r3 s2 where st: "set_cursor ops (em_chain w) latest (ep_now p) s1 = (r3, s2)" by (metis surj_pair)
        have s': "s' = s2" "r = Inr () \<Longrightarrow> r3 = Inr ()"
          using scan g assms False sc Inr \<open>r1 = Inr x\<close> x y st
          by (auto simp: scanNewLogs_def Let_def scan_batches_bounded split: sum.splits)
        have "view s2 (em_chain w) \<in> {view s (em_chain w), (latest, Some (ep_now p))}"
          using set_either [of "em_chain w" latest "ep_now p" s1] st v by simp
        moreover have "r3 = Inr () \<Longrightarrow> view s2 (em_chain w) = (latest, Some (ep_now p))"
          using set_done st by simp
        ultimately show ?thesis using s' by blast
      qed
    qed
  qed
qed

lemma scanNewLogs_failed_fetch:
  assumes "em_cursors w = ops" "in_bounds w latest"
    and h: "fst (view s (em_chain w)) = h" "0 \<le> h" "h < 2 ^ 62" "first_block h latest \<le> latest"
    and "(a, b) \<in> set (batch_ranges (batch_blocks (em_cfg w)) latest (first_block h latest))"
    and "get_logs p w a b = Inl err"
    and "scanNewLogs p latest w s = Some (r, w', s')"
  shows "view s' = view s \<and> r \<noteq> Inr ()"
proof -
  obtain r1 s1 where g: "get_cursor ops (em_chain w) s = (r1, s1)" by (metis surj_pair)
  note v = get_keeps [OF g]
  have fails: "\<exists>e2. fst (scan_ranges fetch rs c0 pend) = Inl e2"
    if "(a, b) \<in> set rs" "fetch a b = Inl err" for fetch rs c0 pend
    using that by (induction rs arbitrary: c0 pend) (auto split: sum.splits)
  show ?thesis
  proof (cases r1)
    case (Inl err)
    with assms(9) g assms(1) v show ?thesis by (auto simp: scanNewLogs_def)
  next
    case (Inr x)
    obtain t where x: "x = (h, t)" using get_result [OF g [unfolded Inr]] h(1) by (metis prod.collapse)
    let ?sc = "scan_ranges (get_logs p w) (batch_ranges (batch_blocks (em_cfg w)) latest (first_block h latest))
        (i64 (first_block h latest - 1)) (em_pending w)"
    obtain e2 pend where sc: "?sc = (Inl e2, pend)" using fails [of _ "get_logs p w", OF assms(7,8), of "i64 (first_block h latest - 1)" "em_pending w"] by (metis prod.collapse)
    with assms(9) g assms(1,2) h v Inr x show ?thesis
      by (auto simp: scanNewLogs_def Let_def scan_batches_bounded)
  qed
qed

end

subsection \<open>The refresh\<close>

lemma evm_refresh_eq:
  assumes "range_order (ep_range p (em_pending w)) (em_pending w)"
  shows "evm_refreshConfirmations p latest w s =
    (w\<lparr>em_pending := unfinished (evm_final latest w) (em_pending w)\<rparr>,
     deliver (em_sink w) (map (\<lambda>tx. evm_event p latest w tx (the (em_pending w tx)))
       (ep_range p (em_pending w))) s)"
  by (simp add: evm_refreshConfirmations_def report_items_range [OF assms])

end
