(* ===== verification/World.thy ===== *)
theory World
  imports Matching EvmFacts
begin

text \<open>
  The running process as one watcher sees it: the database, and everything else. Each call
  a watcher makes into the service or the cursor store takes the next environment and runs
  after whatever the other goroutines (API, expiry loop, other watchers) have done to the
  database in the meantime. The service as a sink and the database as a cursor store are
  then interpretations of the contracts \<open>transfer_sink\<close> and \<open>cursor_store\<close>.
\<close>

record world =
  w_env :: "nat \<Rightarrow> env"
  w_other :: "nat \<Rightarrow> db \<Rightarrow> db"
  w_db :: db

definition next_call :: "(env \<Rightarrow> db \<Rightarrow> 'a \<times> db) \<Rightarrow> world \<Rightarrow> 'a \<times> world" where
  "next_call f W =
     (case f (w_env W 0) (w_other W 0 (w_db W)) of
        (r, d) \<Rightarrow> (r, \<lparr>w_env = (\<lambda>n. w_env W (Suc n)), w_other = (\<lambda>n. w_other W (Suc n)), w_db = d\<rparr>))"

text \<open>\<open>transferSinkProxy\<close> in \<open>main.go\<close> forwards to the service.\<close>

definition service_sink :: "decimal_lib \<Rightarrow> service \<Rightarrow> world sink" where
  "service_sink lib s ev = next_call (\<lambda>e. OnTransfer lib e s ev)"

text \<open>
  The cursor store uses one table that only the watcher of a chain touches for that chain:
  what the others do meanwhile is left to the next call of the sink.
\<close>

definition cursor_call :: "(env \<Rightarrow> db \<Rightarrow> 'a \<times> db) \<Rightarrow> world \<Rightarrow> 'a \<times> world" where
  "cursor_call f W =
     (case f (w_env W 0) (w_db W) of
        (r, d) \<Rightarrow> (r, W\<lparr>w_env := (\<lambda>n. w_env W (Suc n)), w_db := d\<rparr>))"

definition world_cursors :: "world cursor_ops" where
  "world_cursors =
     \<lparr>get_cursor = (\<lambda>c. cursor_call (\<lambda>e. get_cursor (pg_cursors e) c)),
      set_cursor = (\<lambda>c h t. cursor_call (\<lambda>e. set_cursor (pg_cursors e) c h t))\<rparr>"

subsection \<open>What the others may do\<close>

text \<open>
  The invariant of a world: a good database, and other goroutines that run the program's
  statements only, from whatever good database they find.
\<close>

definition world_ok :: "amount \<Rightarrow> world \<Rightarrow> bool" where
  "world_ok tol W \<longleftrightarrow> db_ok (w_db W) \<and> (\<forall>n d. db_ok d \<longrightarrow> db_steps tol d (w_other W n d))"

definition world_evolves :: "amount \<Rightarrow> world \<Rightarrow> world \<Rightarrow> bool" where
  "world_evolves tol W W' \<longleftrightarrow> db_steps tol (w_db W) (w_db W') \<and>
     (\<exists>k. w_env W' = (\<lambda>n. w_env W (n + k)))"

lemma next_call_ok:
  assumes "world_ok tol W" "\<And>e d. db_ok d \<Longrightarrow> db_steps tol d (snd (f e d))"
  shows "world_ok tol (snd (next_call f W))" and "world_evolves tol W (snd (next_call f W))"
proof -
  let ?d = "w_other W 0 (w_db W)"
  have s: "db_steps tol (w_db W) ?d" and ok: "db_ok ?d"
    using assms(1) by (auto simp: world_ok_def intro: db_steps_ok)
  have s2: "db_steps tol ?d (snd (f (w_env W 0) ?d))" by (rule assms(2) [OF ok])
  have "w_db (snd (next_call f W)) = snd (f (w_env W 0) ?d)"
    by (simp add: next_call_def split: prod.split)
  with s s2 have "db_steps tol (w_db W) (w_db (snd (next_call f W)))" by simp
  moreover have "db_ok (w_db (snd (next_call f W)))"
    using \<open>w_db (snd (next_call f W)) = _\<close> db_steps_ok [OF s2 ok] by simp
  ultimately show "world_ok tol (snd (next_call f W))" "world_evolves tol W (snd (next_call f W))"
    using assms(1) by (auto simp: world_ok_def world_evolves_def next_call_def
        split: prod.split intro!: exI [of _ 1])
qed

lemma world_evolves_refl: "world_evolves tol W W"
  by (auto simp: world_evolves_def intro!: exI [of _ 0])

lemma world_evolves_trans:
  assumes "world_evolves tol W W'" "world_evolves tol W' W''"
  shows "world_evolves tol W W''"
proof -
  obtain j k where "w_env W' = (\<lambda>n. w_env W (n + j))" "w_env W'' = (\<lambda>n. w_env W' (n + k))"
    using assms by (auto simp: world_evolves_def)
  then have "w_env W'' = (\<lambda>n. w_env W (n + (k + j)))" by (simp add: add.assoc)
  then show ?thesis using assms by (auto simp: world_evolves_def)
qed

interpretation service_transfers: transfer_sink "service_sink lib s" "world_ok (s_tolerance s)"
  "world_evolves (s_tolerance s)" for lib s
proof unfold_locales
  fix W ev
  assume W: "world_ok (s_tolerance s) W"
  show "world_ok (s_tolerance s) (snd (service_sink lib s ev W))"
    unfolding service_sink_def by (rule next_call_ok(1) [OF W]) (rule OnTransfer_steps)
  show "world_evolves (s_tolerance s) W (snd (service_sink lib s ev W))"
    unfolding service_sink_def by (rule next_call_ok(2) [OF W]) (rule OnTransfer_steps)
qed (rule world_evolves_refl, rule world_evolves_trans)

subsection \<open>Cursors\<close>

definition world_view :: "world \<Rightarrow> string \<Rightarrow> int \<times> time option" where
  "world_view W = cursor_view (w_db W)"

lemma world_get:
  assumes "get_cursor world_cursors c W = (r, W')"
  shows "get_cursor (pg_cursors (w_env W 0)) c (w_db W) = (r, w_db W')"
  using assms by (auto simp: world_cursors_def cursor_call_def split: prod.splits)

lemma world_set:
  assumes "set_cursor world_cursors c h t W = (r, W')"
  shows "set_cursor (pg_cursors (w_env W 0)) c h t (w_db W) = (r, w_db W')"
  using assms by (auto simp: world_cursors_def cursor_call_def split: prod.splits)

interpretation world_store: cursor_store world_view world_cursors
proof unfold_locales
  fix c W x W'
  assume "get_cursor world_cursors c W = (Inr x, W')"
  from pg_store.get_result [OF world_get [OF this]] show "x = world_view W c" by (simp add: world_view_def)
next
  fix c W
  obtain r W' where g: "get_cursor world_cursors c W = (r, W')" by (metis surj_pair)
  from pg_store.get_keeps [OF world_get [OF g]]
  show "world_view (snd (get_cursor world_cursors c W)) = world_view W" by (simp add: world_view_def g)
next
  fix c h t W u W'
  assume "set_cursor world_cursors c h t W = (Inr u, W')"
  from pg_store.set_done [OF world_set [OF this]] show "world_view W' c = (h, Some t)"
    by (simp add: world_view_def)
next
  fix c h t W
  obtain r W' where g: "set_cursor world_cursors c h t W = (r, W')" by (metis surj_pair)
  from pg_store.set_either [of "w_env W 0" c h t "w_db W"]
  show "world_view (snd (set_cursor world_cursors c h t W)) c \<in> {world_view W c, (h, Some t)}"
    by (simp add: world_view_def g world_set [OF g])
next
  fix c' c :: string and h t W
  assume "c' \<noteq> c"
  obtain r W' where g: "set_cursor world_cursors c h t W = (r, W')" by (metis surj_pair)
  from pg_store.set_other [OF \<open>c' \<noteq> c\<close>, of "w_env W 0" h t "w_db W"]
  show "world_view (snd (set_cursor world_cursors c h t W)) c' = world_view W c'"
    by (simp add: world_view_def g world_set [OF g])
qed

subsection \<open>A transfer in flight is confirmed\<close>

lemma confirming_evolves:
  assumes "order_evolves a b" "o_status a = Confirming" "o_tx a = Some tx"
  shows "o_status b \<in> {Confirming, Confirmed}" "o_tx b = Some tx" "o_chain b = o_chain a"
    "o_required b = o_required a" "o_id b = o_id a"
  using assms by (auto simp: order_evolves_def)

text \<open>
  An event with enough confirmations for the transaction of a confirming order confirms
  it, whatever happened to the database before and happens after.
\<close>

lemma OnTransfer_confirms:
  assumes "healthy e" "db_ok d" "in_i32 (ev_confs ev)"
    and a: "a \<in> set (orders d)" "o_status a = Confirming" "o_chain a = ev_chain ev" "o_tx a = Some (ev_tx ev)"
    and c: "o_required a \<le> ev_confs ev"
  shows "\<exists>b\<in>set (orders (snd (OnTransfer lib e s ev d))). o_id b = o_id a \<and> o_status b = Confirmed"
proof -
  have u: "unique_ok (orders d)" and "order_ok a" using assms(2) a(1) by (auto dest: db_okD)
  then have "o_confs a < o_required a" using a(2) by (simp add: order_ok_def)
  with a c have adv: "advances ev a" by (simp add: advances_def progress_target_def)
  let ?b = "progress_row (clock e UpdateConfs) (ev_height ev) (ev_confs ev) a"
  have "by_id (orders (snd (OnTransfer lib e s ev d))) (o_id a) = Some ?b"
    using OnTransfer_advance [OF assms(1) u assms(3) a(1) adv, of lib s]
    by (metis fun_upd_same ledger.select_convs(1) ledger.surjective ledger.update_convs(1) ledger_of_sel(1))
  moreover have "o_status ?b = Confirmed" using c by (simp add: progress_row_def progress_status_def)
  ultimately show ?thesis by (auto dest!: by_id_SomeD)
qed

lemma confirmed_stays:
  assumes "db_steps tol d d'" "db_ok d" "b \<in> set (orders d)" "o_status b = Confirmed"
  shows "b \<in> set (orders d')"
proof -
  obtain b' where "b' \<in> set (orders d')" "order_evolves b b'"
    using db_evolvesE [OF db_steps_evolves [OF assms(1,2)] assms(3)] by blast
  with assms(4) show ?thesis by (simp add: order_evolves_def)
qed

lemma deliver_confirms:
  assumes W: "world_ok (s_tolerance s) W" "\<And>n. healthy (w_env W n)"
    and ev: "ev \<in> set evs" "in_i32 (ev_confs ev)" "o_required a \<le> ev_confs ev"
    and a: "a \<in> set (orders (w_db W))" "o_status a \<in> {Confirming, Confirmed}" "o_chain a = ev_chain ev"
      "o_tx a = Some (ev_tx ev)"
  shows "\<exists>b\<in>set (orders (w_db (deliver (service_sink lib s) evs W))). o_id b = o_id a \<and> o_status b = Confirmed"
proof (cases "o_status a = Confirmed")
  case True
  have "db_steps (s_tolerance s) (w_db W) (w_db (deliver (service_sink lib s) evs W))"
    using service_transfers.deliver_evolves [OF W(1)] by (simp add: world_evolves_def)
  from confirmed_stays [OF this _ a(1) True] W(1) True show ?thesis
    by (intro bexI [of _ a]) (auto simp: world_ok_def)
next
  case False
  then have conf: "o_status a = Confirming" using a(2) by simp
  obtain W1 where W1: "world_ok (s_tolerance s) W1" "world_evolves (s_tolerance s) W W1"
    and rest: "world_evolves (s_tolerance s) (snd (service_sink lib s ev W1)) (deliver (service_sink lib s) evs W)"
    by (rule service_transfers.deliver_splitE [OF ev(1) W(1), of lib]) blast
  let ?e = "w_env W1 0" and ?d = "w_other W1 0 (w_db W1)"
  have e: "healthy ?e" using W1(2) W(2) by (auto simp: world_evolves_def)
  have steps: "db_steps (s_tolerance s) (w_db W1) ?d" and ok1: "db_ok (w_db W1)" and ok: "db_ok (w_db W)"
    using W1(1) W(1) by (auto simp: world_ok_def)
  have s0: "db_steps (s_tolerance s) (w_db W) ?d"
    using W1(2) steps by (auto simp: world_evolves_def)
  have okd: "db_ok ?d" by (rule db_steps_ok [OF steps ok1])
  obtain a1 where a1: "a1 \<in> set (orders ?d)" "order_evolves a a1"
    by (rule db_evolvesE [OF db_steps_evolves [OF s0 ok] a(1)]) blast
  note c1 = confirming_evolves [OF a1(2) conf a(4)]
  have db: "w_db (snd (service_sink lib s ev W1)) = snd (OnTransfer lib ?e s ev ?d)"
    by (simp add: service_sink_def next_call_def split: prod.split)
  have "\<exists>b\<in>set (orders (snd (OnTransfer lib ?e s ev ?d))). o_id b = o_id a \<and> o_status b = Confirmed"
  proof (cases "o_status a1 = Confirmed")
    case True
    from confirmed_stays [OF OnTransfer_steps [OF okd] okd a1(1) True] True c1(5) show ?thesis by blast
  next
    case False
    with c1 a ev have "o_status a1 = Confirming" "o_chain a1 = ev_chain ev" "o_tx a1 = Some (ev_tx ev)"
      "o_required a1 \<le> ev_confs ev" by auto
    from OnTransfer_confirms [OF e okd ev(2) a1(1) this, of lib s] c1(5) show ?thesis by simp
  qed
  then obtain b where b: "b \<in> set (orders (w_db (snd (service_sink lib s ev W1))))" "o_id b = o_id a"
    "o_status b = Confirmed" by (auto simp: db)
  have "db_ok (w_db (snd (service_sink lib s ev W1)))"
    using service_transfers.sink_inv [OF W1(1), of lib ev] by (simp add: world_ok_def)
  moreover have "db_steps (s_tolerance s) (w_db (snd (service_sink lib s ev W1)))
      (w_db (deliver (service_sink lib s) evs W))" using rest by (simp add: world_evolves_def)
  ultimately have "b \<in> set (orders (w_db (deliver (service_sink lib s) evs W)))"
    using b by (blast intro: confirmed_stays)
  with b show ?thesis by blast
qed

subsection \<open>A scan of an honest node, with a working database\<close>

lemma world_get_runs:
  assumes "healthy (w_env W 0)"
  shows "\<exists>W1. get_cursor world_cursors c W = (Inr (world_view W c), W1) \<and>
    world_view W1 = world_view W \<and> w_env W1 = (\<lambda>n. w_env W (Suc n)) \<and>
    orders (w_db W1) = orders (w_db W) \<and> reviews (w_db W1) = reviews (w_db W)"
proof -
  obtain r W1 where g: "get_cursor world_cursors c W = (r, W1)" by (metis surj_pair)
  have e: "GetCursor (w_env W 0) c (w_db W) = get_cursor_stmt (clock (w_env W 0) GetCursorStmt) c (w_db W)"
    using assms by (simp add: GetCursor_def)
  have w: "w_env W1 = (\<lambda>n. w_env W (Suc n))" "(r, w_db W1) = get_cursor_stmt (clock (w_env W 0) GetCursorStmt) c (w_db W)"
    using g e by (auto simp: world_cursors_def cursor_call_def pg_cursors_def split: prod.splits)
  then have "\<exists>x. r = Inr x" by (auto simp: get_cursor_stmt_def split: option.splits)
  then obtain x where r: "r = Inr x" by blast
  moreover have "x = world_view W c" using world_store.get_result g r by blast
  moreover have "world_view W1 = world_view W" by (rule world_store.get_keeps [OF g])
  moreover have "orders (w_db W1) = orders (w_db W)" "reviews (w_db W1) = reviews (w_db W)"
    using w(2) by (auto simp: get_cursor_stmt_def split: option.splits)
  ultimately show ?thesis using g w(1) by blast
qed

lemma world_set_runs:
  assumes "healthy (w_env W 0)"
  shows "\<exists>W1. set_cursor world_cursors c h t W = (Inr (), W1) \<and> world_view W1 c = (h, Some t) \<and>
    w_env W1 = (\<lambda>n. w_env W (Suc n)) \<and>
    orders (w_db W1) = orders (w_db W) \<and> reviews (w_db W1) = reviews (w_db W)"
proof -
  obtain r W1 where g: "set_cursor world_cursors c h t W = (r, W1)" by (metis surj_pair)
  have e: "SetCursor (w_env W 0) c h t (w_db W) = set_cursor_stmt (clock (w_env W 0) SetCursorStmt) c h t (w_db W)"
    using assms by (simp add: SetCursor_def)
  have w: "w_env W1 = (\<lambda>n. w_env W (Suc n))" "(r, w_db W1) = set_cursor_stmt (clock (w_env W 0) SetCursorStmt) c h t (w_db W)"
    using g e by (auto simp: world_cursors_def cursor_call_def pg_cursors_def split: prod.splits)
  then have r: "r = Inr ()" by (auto simp: set_cursor_stmt_def)
  moreover have "orders (w_db W1) = orders (w_db W)" "reviews (w_db W1) = reviews (w_db W)"
    using w(2) by (simp_all add: set_cursor_stmt_def)
  moreover have "world_view W1 c = (h, Some t)" using world_store.set_done g r by blast
  ultimately show ?thesis using g w(1) by blast
qed

lemma scan_history:
  assumes w: "em_cursors w = world_cursors" "in_bounds w latest"
    and h: "world_view W (em_chain w) = (h, t)" "0 \<le> h" "h < 2 ^ 62" "first_block h latest \<le> latest"
    and node: "\<forall>a b. get_logs p w a b = Inr (logs_between hist a b)" "sorted (map log_block hist)"
    and "\<forall>n. healthy (w_env W n)"
  shows "\<exists>W'. scanNewLogs p latest w W =
      Some (Inr (), w\<lparr>em_pending := handle_logs (logs_between hist (first_block h latest) latest) (em_pending w)\<rparr>, W') \<and>
    world_view W' (em_chain w) = (latest, Some (ep_now p)) \<and>
    orders (w_db W') = orders (w_db W) \<and> reviews (w_db W') = reviews (w_db W)"
proof -
  obtain W1 where g: "get_cursor world_cursors (em_chain w) W = (Inr (h, t), W1)"
    and W1: "w_env W1 = (\<lambda>n. w_env W (Suc n))" "orders (w_db W1) = orders (w_db W)" "reviews (w_db W1) = reviews (w_db W)"
    using world_get_runs [of W "em_chain w"] assms(9) h(1) by auto
  have "healthy (w_env W1 0)" using assms(9) W1 by simp
  then obtain W2 where s: "set_cursor world_cursors (em_chain w) latest (ep_now p) W1 = (Inr (), W2)"
    "world_view W2 (em_chain w) = (latest, Some (ep_now p))"
    "orders (w_db W2) = orders (w_db W1)" "reviews (w_db W2) = reviews (w_db W1)"
    using world_set_runs [of W1 "em_chain w" latest "ep_now p"] by blast
  have "scan_ranges (get_logs p w) (batch_ranges (batch_blocks (em_cfg w)) latest (first_block h latest))
      (i64 (first_block h latest - 1)) (em_pending w) =
    (Inr latest, handle_logs (logs_between hist (first_block h latest) latest) (em_pending w))"
    using node h(4) by (intro scan_ranges_history batch_blocks_pos) auto
  then show ?thesis using h w s W1 g
    by (simp add: scanNewLogs_def Let_def scan_batches_bounded)
qed

end
