(* ===== verification/EvmSamples.thy ===== *)
theory EvmSamples
  imports World Samples
begin

text \<open>
  A node that answers every request from a fixed history, as a network and a codec of the
  EVM client, a watcher that talks to it, and the process around it: the concrete data for
  the closed instances of the watcher properties.
\<close>

subsection \<open>An honest node\<close>

text \<open>The codec writes a range as two quantities around a comma, and the node echoes it.\<close>

fun node_marshal :: "int \<Rightarrow> rpc_call \<Rightarrow> string" where
  "node_marshal latest EthBlockNumber = toHexQuantity latest"
| "node_marshal latest (EthGetLogs fromBlock toBlock addr topics) = fromBlock @ '','' @ toBlock"

definition node_logs :: "rpc_log list \<Rightarrow> string \<Rightarrow> rpc_log list option" where
  "node_logs hist text =
     (case split_on (CHR '','') text of
        [a, b] \<Rightarrow>
          (case (parseHexBigInt a, parseHexBigInt b) of
             (Inr x, Inr y) \<Rightarrow> Some (logs_between hist x y)
           | _ \<Rightarrow> None)
      | _ \<Rightarrow> None)"

definition echo_net :: net where
  "echo_net = \<lparr>reply = (\<lambda>req k. Response 200 (q_body req)), ctx_done = (\<lambda>_. False)\<rparr>"

definition node_poll :: "rpc_log list \<Rightarrow> int \<Rightarrow> time \<Rightarrow> (tracked tracking \<Rightarrow> string list) \<Rightarrow> evm_poll" where
  "node_poll hist latest now ranging =
     \<lparr>ep_block_net = echo_net, ep_logs_net = (\<lambda>_. echo_net), ep_marshal = node_marshal latest,
      ep_decode = (\<lambda>text. Some \<lparr>rpc_result = text, rpc_error = None\<rparr>), ep_unmarshal_string = Some,
      ep_unmarshal_logs = node_logs hist, ep_now = now, ep_clock = (\<lambda>_. now), ep_range = ranging\<rparr>"

lemma comma_not_in_quantity: "CHR '','' \<notin> set (toHexQuantity n)"
proof
  assume "CHR '','' \<in> set (toHexQuantity n)"
  then have "CHR '','' \<in> set (print_nat 16 (nat \<bar>n\<bar>))"
    by (auto simp: toHexQuantity_def print_int_def split: if_splits)
  from print_nat_digits [OF _ _ this] show False by (simp add: byte_of_def)
qed

lemma parseHexBigInt_toHexQuantity: "parseHexBigInt (toHexQuantity n) = Inr n"
  by (simp add: parseHexBigInt_def toHexQuantity_def read_print_int del: append_Cons)

lemma node_logs_range:
  "node_logs hist (toHexQuantity a @ '','' @ toHexQuantity b) = Some (logs_between hist a b)"
  by (simp add: node_logs_def split_on_append split_on_plain comma_not_in_quantity parseHexBigInt_toHexQuantity)

lemma echo_call:
  assumes "urls \<noteq> []" "um body = Some x"
  shows "evm_call urls echo_net (\<lambda>text. Some \<lparr>rpc_result = text, rpc_error = None\<rparr>) body um = Inr x"
  using assms
  by (cases urls) (simp_all add: evm_call_def retry_def maxAttemptsPerURL_def numeral_2_eq_2 rpc_step_def echo_net_def Let_def)

lemma node_get_logs:
  "em_urls w \<noteq> [] \<Longrightarrow> get_logs (node_poll hist latest now ranging) w a b = Inr (logs_between hist a b)"
  by (simp add: get_logs_def node_poll_def Let_def echo_call node_logs_range [simplified])

lemma node_blockNumber:
  assumes "em_urls w \<noteq> []" "in_i64 latest"
  shows "blockNumber (node_poll hist latest now ranging) w = Inr latest"
  using echo_call [OF assms(1), of Some "toHexQuantity latest"]
  by (simp add: blockNumber_def node_poll_def parse_toHexQuantity assms(2))

subsection \<open>A watcher on Polygon\<close>

definition sample_cfg :: EVMConfig where
  "sample_cfg =
     \<lparr>ec_Enabled = True, ec_ChainName = ''polygon'', ec_Address = [], ec_RPCURL = ''u'',
      ec_FallbackRPCURLs = [], ec_USDTContract = [], ec_PollInterval = 15 * second,
      ec_RequiredConfirms = 3, ec_LogsBatchBlocks = 10\<rparr>"

definition sample_watcher :: "world evm_watcher" where
  "sample_watcher =
     evm_NewWatcher Polygon sample_cfg (service_sink reference_decimal default_service) world_cursors"

lemma sample_watcher_sel [simp]:
  "em_cfg sample_watcher = sample_cfg" "em_chain sample_watcher = Polygon"
  "em_urls sample_watcher = [''u'']" "em_cursors sample_watcher = world_cursors"
  "em_sink sample_watcher = service_sink reference_decimal default_service"
  "em_pending sample_watcher = Map.empty"
  by (simp_all add: sample_watcher_def evm_NewWatcher_def evm_newClient_def sample_cfg_def)

lemma sample_bounds: "latest < 2 ^ 62 \<Longrightarrow> em_cfg w = sample_cfg \<Longrightarrow> in_bounds w latest"
  by (simp add: in_bounds_def batch_blocks_def sample_cfg_def)

text \<open>A transfer of 10.0001 USDT in block 95.\<close>

definition sample_log :: rpc_log where
  "sample_log = \<lparr>l_address = [], l_topics = [''a'', ''b'', ''c''], l_data = toHexQuantity 10000100,
     l_blockNumber = toHexQuantity 95, l_txHash = ''t''\<rparr>"

lemma log_block_sample [simp]: "log_block sample_log = 95"
  by (simp add: log_block_def sample_log_def parse_toHexQuantity in_i64_def)

lemma handle_sample_log:
  "handleLog sample_log pend = pend(''t'' \<mapsto> \<lparr>tr_amount = 10000100 / 10 ^ 6, tr_height = 95\<rparr>)"
  by (simp add: handleLog_def sample_log_def parseHexBigInt_toHexQuantity parse_toHexQuantity in_i64_def Let_def)

subsection \<open>A world where nothing fails\<close>

definition still :: "db \<Rightarrow> world" where
  "still d = \<lparr>w_env = (\<lambda>n. calm (int n)), w_other = (\<lambda>n d. d), w_db = d\<rparr>"

lemma still_sel [simp]:
  "w_env (still d) n = calm (int n)" "w_other (still d) n d' = d'" "w_db (still d) = d"
  by (simp_all add: still_def)

lemma still_ok: "db_ok d \<Longrightarrow> world_ok tol (still d)"
  by (simp add: world_ok_def)

definition db_at :: "int \<Rightarrow> db" where
  "db_at h = empty_db\<lparr>cursors := [Polygon \<mapsto> \<lparr>c_height = h, c_at = None, c_updated = 0\<rparr>]\<rparr>"

lemma view_db_at [simp]: "world_view (still (db_at h)) Polygon = (h, None)"
  by (simp add: world_view_def cursor_view_def db_at_def)

end
