(* ===== verification/Tron.thy ===== *)
theory Tron
  imports Tracking Clients Config
begin

text \<open>
  \<open>internal/chains/tron\<close>: the receiving address (\<open>address.go\<close>), where base58 and SHA-256
  are parameters, and the watcher (\<open>watcher.go\<close>) that pages through the events of the USDT
  contract.
\<close>

subsection \<open>Addresses\<close>

type_synonym byte = "8 word"

definition hex_byte :: "byte \<Rightarrow> string" where
  "hex_byte b = [digit_char (unat b div 16), digit_char (unat b mod 16)]"

definition hex_encode :: "byte list \<Rightarrow> string" where
  "hex_encode bs = concat (map hex_byte bs)"

definition doubleSHA256 :: "(byte list \<Rightarrow> byte list) \<Rightarrow> byte list \<Rightarrow> byte list" where
  "doubleSHA256 sha256 data = (let first = sha256 data; second = sha256 first in second)"

definition addressToHex ::
    "(string \<Rightarrow> byte list) \<Rightarrow> (byte list \<Rightarrow> byte list) \<Rightarrow> string \<Rightarrow> string res" where
  "addressToHex b58 sha256 base58Addr =
     (let full = b58 base58Addr in
      if length full \<noteq> 25 then Inl (Invalid ''decoded length'' base58Addr)
      else let payload = take 21 full; checksum = drop 21 full in
        if take 4 (doubleSHA256 sha256 payload) \<noteq> checksum
          then Inl (Invalid ''checksum mismatch'' base58Addr)
        else if payload ! 0 \<noteq> 0x41 then Inl (Invalid ''unexpected version byte'' base58Addr)
        else Inr (hex_encode payload))"

subsection \<open>Events\<close>

record contract_event =
  ce_BlockNumber :: int
  ce_BlockTimestamp :: int
  ce_EventName :: string
  ce_Result :: "string \<rightharpoonup> string"
  ce_TransactionID :: string
  ce_ContractAddress :: string

record events_response =
  er_Success :: bool
  er_Data :: "contract_event list"
  er_Fingerprint :: string
  er_PageSize :: int

text \<open>Indexing a Go map gives the zero value when the key is missing.\<close>

definition lookup_str :: "(string \<rightharpoonup> string) \<Rightarrow> string \<Rightarrow> string" where
  "lookup_str m k = (case m k of None \<Rightarrow> [] | Some v \<Rightarrow> v)"

subsection \<open>The watcher\<close>

record 's tron_watcher =
  tw_cfg :: TronConfig
  tw_addressHex :: string
  tw_client :: client
  tw_sink :: "'s sink"
  tw_cursors :: "'s cursor_ops"
  tw_pending :: "tracked tracking"

definition tron_NewWatcher ::
    "(string \<Rightarrow> byte list) \<Rightarrow> (byte list \<Rightarrow> byte list) \<Rightarrow> TronConfig \<Rightarrow> 's sink \<Rightarrow> 's cursor_ops
      \<Rightarrow> 's tron_watcher res" where
  "tron_NewWatcher b58 sha256 cfg sink store =
     (case addressToHex b58 sha256 (tc_Address cfg) of
        Inl err \<Rightarrow> Inl (Wrap ''tron watcher'' err)
      | Inr addressHex \<Rightarrow> Inr
          \<lparr>tw_cfg = cfg, tw_addressHex = addressHex,
           tw_client = newClient (tc_APIURL cfg) (tc_FallbackAPIURLs cfg) (tc_APIKey cfg),
           tw_sink = sink, tw_cursors = store, tw_pending = Map.empty\<rparr>)"

definition tron_SeedPending :: "pending_transfer \<Rightarrow> 's tron_watcher \<Rightarrow> unit res \<times> 's tron_watcher" where
  "tron_SeedPending t w =
     (Inr (), w\<lparr>tw_pending :=
        seed (pt_tx t) \<lparr>tr_amount = pt_amount t, tr_height = pt_height t\<rparr> (tw_pending w)\<rparr>)"

text \<open>One poll: the network for \<open>getnowblock\<close> and for each page, the JSON codec, the times.\<close>

record tron_poll =
  tp_block_net :: net
  tp_page_net :: "nat \<Rightarrow> net"
  tp_decode_block :: "string \<Rightarrow> int option"
  tp_decode_events :: "string \<Rightarrow> events_response option"
  tp_now :: time
  tp_clock :: "string \<Rightarrow> time"
  tp_range :: "tracked tracking \<Rightarrow> string list"

definition getLatestBlock :: "tron_poll \<Rightarrow> 's tron_watcher \<Rightarrow> int res" where
  "getLatestBlock p w = tron_get (tw_client w) (tp_block_net p) ''/wallet/getnowblock'' [] (tp_decode_block p)"

definition maxPagesPerPoll :: nat where "maxPagesPerPoll = 20"
definition eventsPageLimit :: nat where "eventsPageLimit = 200"

definition events_query :: "int \<Rightarrow> string \<Rightarrow> (string \<times> string) list" where
  "events_query minTimestamp fingerprint =
     [(''event_name'', ''Transfer''), (''only_confirmed'', ''true''),
      (''order_by'', ''block_timestamp,asc''), (''min_block_timestamp'', FormatInt minTimestamp),
      (''limit'', FormatInt (int eventsPageLimit))] @
     (if fingerprint \<noteq> [] then [(''fingerprint'', fingerprint)] else [])"

definition fetch_events ::
    "tron_poll \<Rightarrow> 's tron_watcher \<Rightarrow> int \<Rightarrow> nat \<Rightarrow> string \<Rightarrow> events_response res" where
  "fetch_events p w minTimestamp page fingerprint =
     tron_get (tw_client w) (tp_page_net p page)
       (''/v1/contracts/'' @ tc_USDTContract (tw_cfg w) @ ''/events'')
       (events_query minTimestamp fingerprint) (tp_decode_events p)"

definition handleEvent ::
    "decimal_lib \<Rightarrow> string \<Rightarrow> contract_event \<Rightarrow> tracked tracking \<Rightarrow> tracked tracking" where
  "handleEvent lib addressHex ev pend =
     (if \<not> equal_fold (lookup_str (ce_Result ev) ''to'') addressHex then pend
      else case dec_parse lib (lookup_str (ce_Result ev) ''value'') of
        None \<Rightarrow> pend
      | Some rawValue \<Rightarrow>
          let amt = rawValue / 10 ^ 6 in
          pend(ce_TransactionID ev \<mapsto> \<lparr>tr_amount = amt, tr_height = ce_BlockNumber ev\<rparr>))"

text \<open>The loop over the events of a page, with the two maxima.\<close>

record tron_scan =
  ts_maxBlock :: int
  ts_maxTimestamp :: int
  ts_pending :: "tracked tracking"

definition tron_event_step :: "decimal_lib \<Rightarrow> string \<Rightarrow> tron_scan \<Rightarrow> contract_event \<Rightarrow> tron_scan" where
  "tron_event_step lib addressHex sc ev =
     \<lparr>ts_maxBlock = (if ce_BlockNumber ev > ts_maxBlock sc then ce_BlockNumber ev else ts_maxBlock sc),
      ts_maxTimestamp =
        (if ce_BlockTimestamp ev > ts_maxTimestamp sc then ce_BlockTimestamp ev else ts_maxTimestamp sc),
      ts_pending = handleEvent lib addressHex ev (ts_pending sc)\<rparr>"

definition tron_events :: "decimal_lib \<Rightarrow> string \<Rightarrow> contract_event list \<Rightarrow> tron_scan \<Rightarrow> tron_scan" where
  "tron_events lib addressHex evs sc = foldl (tron_event_step lib addressHex) sc evs"

text \<open>The loop over the pages, \<open>n\<close> of them left.\<close>

fun scan_pages ::
    "decimal_lib \<Rightarrow> string \<Rightarrow> (nat \<Rightarrow> string \<Rightarrow> events_response res) \<Rightarrow> nat \<Rightarrow> nat \<Rightarrow> string \<Rightarrow> tron_scan
      \<Rightarrow> goerr option \<times> tron_scan" where
  "scan_pages lib addressHex fetch page 0 fingerprint sc = (None, sc)"
| "scan_pages lib addressHex fetch page (Suc n) fingerprint sc =
     (case fetch page fingerprint of
        Inl err \<Rightarrow> (Some (Wrap ''fetch contract events'' err), sc)
      | Inr resp \<Rightarrow>
          let sc' = tron_events lib addressHex (er_Data resp) sc in
          if er_Fingerprint resp = [] \<or> length (er_Data resp) < eventsPageLimit then (None, sc')
          else scan_pages lib addressHex fetch (Suc page) n (er_Fingerprint resp) sc')"

definition UnixMilli :: "time \<Rightarrow> int" where
  "UnixMilli t = i64 (t div 1000000)"

definition min_timestamp :: "tron_poll \<Rightarrow> time option \<Rightarrow> int" where
  "min_timestamp p lastScannedAt =
     (case lastScannedAt of
        None \<Rightarrow> UnixMilli (tp_now p - 10 * minute)
      | Some t \<Rightarrow> i64 (UnixMilli t + 1))"

definition scanNewEvents ::
    "decimal_lib \<Rightarrow> tron_poll \<Rightarrow> int \<Rightarrow> 's tron_watcher \<Rightarrow> 's \<Rightarrow> unit res \<times> 's tron_watcher \<times> 's" where
  "scanNewEvents lib p latestBlock w s =
     (case get_cursor (tw_cursors w) Chains.Tron s of
        (Inl err, s1) \<Rightarrow> (Inl (Wrap ''load cursor'' err), w, s1)
      | (Inr (_, lastScannedAt), s1) \<Rightarrow>
          (case scan_pages lib (tw_addressHex w) (fetch_events p w (min_timestamp p lastScannedAt))
                  0 maxPagesPerPoll [] \<lparr>ts_maxBlock = 0, ts_maxTimestamp = 0, ts_pending = tw_pending w\<rparr> of
             (Some err, sc) \<Rightarrow> (Inl err, w\<lparr>tw_pending := ts_pending sc\<rparr>, s1)
           | (None, sc) \<Rightarrow>
               let w' = w\<lparr>tw_pending := ts_pending sc\<rparr> in
               if ts_maxTimestamp sc > 0 then
                 case set_cursor (tw_cursors w) Chains.Tron (ts_maxBlock sc) (ts_maxTimestamp sc * 1000000) s1 of
                   (Inl err, s2) \<Rightarrow> (Inl (Wrap ''save cursor'' err), w', s2)
                 | (Inr _, s2) \<Rightarrow> (Inr (), w', s2)
               else (Inr (), w', s1)))"

definition tron_event :: "tron_poll \<Rightarrow> int \<Rightarrow> string \<Rightarrow> tracked \<Rightarrow> transfer_event" where
  "tron_event p latestBlock txHash t =
     \<lparr>ev_chain = Chains.Tron, ev_tx = txHash, ev_amount = tr_amount t, ev_height = tr_height t,
      ev_confs = emitted_confs latestBlock (tr_height t), ev_observed = tp_clock p txHash\<rparr>"

definition tron_final :: "int \<Rightarrow> 's tron_watcher \<Rightarrow> tracked \<Rightarrow> bool" where
  "tron_final latestBlock w t \<longleftrightarrow> height_confs latestBlock (tr_height t) \<ge> tc_RequiredConfirms (tw_cfg w)"

definition tron_refreshConfirmations ::
    "tron_poll \<Rightarrow> int \<Rightarrow> 's tron_watcher \<Rightarrow> 's \<Rightarrow> 's tron_watcher \<times> 's" where
  "tron_refreshConfirmations p latestBlock w s =
     (case report_items (tron_event p latestBlock) (tron_final latestBlock w) (tw_sink w)
             (items_of (tp_range p (tw_pending w)) (tw_pending w)) (tw_pending w) s of
        (pend, s') \<Rightarrow> (w\<lparr>tw_pending := pend\<rparr>, s'))"

definition tron_pollOnce ::
    "decimal_lib \<Rightarrow> tron_poll \<Rightarrow> 's tron_watcher \<Rightarrow> 's \<Rightarrow> unit res \<times> 's tron_watcher \<times> 's" where
  "tron_pollOnce lib p w s =
     (case getLatestBlock p w of
        Inl err \<Rightarrow> (Inl (Wrap ''get latest block'' err), w, s)
      | Inr latest \<Rightarrow>
          (case scanNewEvents lib p latest w s of
             (_, w1, s1) \<Rightarrow>
               (case tron_refreshConfirmations p latest w1 s1 of (w2, s2) \<Rightarrow> (Inr (), w2, s2))))"

fun tron_polls :: "decimal_lib \<Rightarrow> tron_poll list \<Rightarrow> 's tron_watcher \<Rightarrow> 's \<Rightarrow> 's tron_watcher \<times> 's" where
  "tron_polls lib [] w s = (w, s)"
| "tron_polls lib (p # ps) w s =
     (case tron_pollOnce lib p w s of (_, w1, s1) \<Rightarrow> tron_polls lib ps w1 s1)"

definition tron_Run :: "decimal_lib \<Rightarrow> tron_poll list \<Rightarrow> 's tron_watcher \<Rightarrow> 's \<Rightarrow> 's tron_watcher \<times> 's" where
  "tron_Run lib ticks w s = (if \<not> tc_Enabled (tw_cfg w) then (w, s) else tron_polls lib ticks w s)"

definition tron_iface :: "'s tron_watcher watcher_iface" where
  "tron_iface =
     \<lparr>w_chain = (\<lambda>_. Chains.Tron), w_required = (\<lambda>w. tc_RequiredConfirms (tw_cfg w)),
      w_seed = (\<lambda>_. tron_SeedPending)\<rparr>"

interpretation tron_w: chain_watcher tron_iface "\<lambda>w. heights (tw_pending w)"
  by unfold_locales
    (auto simp: tron_iface_def tron_SeedPending_def heights_def fun_eq_iff seed_apply split: option.splits)

end
