(* ===== verification/Ton.thy ===== *)
theory Ton
  imports Tracking Clients Config "HOL-Library.Signed_Division"
begin

text \<open>
  \<open>internal/chains/ton\<close>: the watcher that pages through the Jetton transfers of the owner
  address. Its confirmations are a time: seconds since the transfer, divided by five.
\<close>

record jetton_transfer =
  jt_Amount :: string
  jt_TransactionHash :: string
  jt_TransactionLt :: string
  jt_TransactionNow :: int
  jt_Destination :: string

record ton_tracked =
  to_amount :: amount
  to_lt :: int
  to_observed :: int

record 's ton_watcher =
  nw_cfg :: TONConfig
  nw_client :: client
  nw_sink :: "'s sink"
  nw_cursors :: "'s cursor_ops"
  nw_pending :: "ton_tracked tracking"

definition assumedBlockTimeSeconds :: int where
  "assumedBlockTimeSeconds = 5"

definition ton_NewWatcher :: "TONConfig \<Rightarrow> 's sink \<Rightarrow> 's cursor_ops \<Rightarrow> 's ton_watcher" where
  "ton_NewWatcher cfg sink store =
     \<lparr>nw_cfg = cfg, nw_client = ton_newClient (nc_APIURL cfg) (nc_FallbackAPIURLs cfg) (nc_APIKey cfg),
      nw_sink = sink, nw_cursors = store, nw_pending = Map.empty\<rparr>"

definition Unix :: "time \<Rightarrow> int" where
  "Unix t = i64 (t div 1000000000)"

text \<open>A reseeded transfer counts from now on.\<close>

definition ton_SeedPending ::
    "time \<Rightarrow> pending_transfer \<Rightarrow> 's ton_watcher \<Rightarrow> unit res \<times> 's ton_watcher" where
  "ton_SeedPending now t w =
     (Inr (), w\<lparr>nw_pending :=
        seed (pt_tx t) \<lparr>to_amount = pt_amount t, to_lt = pt_height t, to_observed = Unix now\<rparr>
          (nw_pending w)\<rparr>)"

text \<open>One poll: the network for each page, the JSON codec, the times.\<close>

record ton_poll =
  np_page_net :: "nat \<Rightarrow> net"
  np_decode :: "string \<Rightarrow> jetton_transfer list option"
  np_start :: time
  np_now :: time
  np_clock :: "string \<Rightarrow> time"
  np_range :: "ton_tracked tracking \<Rightarrow> string list"

definition ton_maxPagesPerPoll :: nat where "ton_maxPagesPerPoll = 20"
definition transfersPageLimit :: nat where "transfersPageLimit = 100"

definition transfers_query :: "TONConfig \<Rightarrow> int \<Rightarrow> int \<Rightarrow> (string \<times> string) list" where
  "transfers_query cfg startUtime offset =
     [(''owner_address'', nc_Address cfg), (''jetton_master'', nc_USDTJettonMaster cfg),
      (''direction'', ''in''), (''start_utime'', FormatInt startUtime),
      (''limit'', FormatInt (int transfersPageLimit)), (''offset'', FormatInt offset), (''sort'', ''asc'')]"

definition fetch_transfers ::
    "ton_poll \<Rightarrow> 's ton_watcher \<Rightarrow> int \<Rightarrow> nat \<Rightarrow> int \<Rightarrow> jetton_transfer list res" where
  "fetch_transfers p w startUtime page offset =
     ton_get (nw_client w) (np_page_net p page) ''/jetton/transfers''
       (transfers_query (nw_cfg w) startUtime offset) (np_decode p)"

definition handleTransfer ::
    "decimal_lib \<Rightarrow> jetton_transfer \<Rightarrow> ton_tracked tracking \<Rightarrow> ton_tracked tracking" where
  "handleTransfer lib tr pend =
     (case dec_parse lib (jt_Amount tr) of
        None \<Rightarrow> pend
      | Some rawAmount \<Rightarrow>
          (case ParseInt (jt_TransactionLt tr) of
             None \<Rightarrow> pend
           | Some lt \<Rightarrow>
               pend(jt_TransactionHash tr \<mapsto>
                 \<lparr>to_amount = rawAmount / 10 ^ 6, to_lt = lt, to_observed = jt_TransactionNow tr\<rparr>)))"

record ton_scan =
  ns_maxLt :: int
  ns_maxUtime :: int
  ns_pending :: "ton_tracked tracking"

definition ton_transfer_step :: "decimal_lib \<Rightarrow> ton_scan \<Rightarrow> jetton_transfer \<Rightarrow> ton_scan" where
  "ton_transfer_step lib sc tr =
     \<lparr>ns_maxLt =
        (case ParseInt (jt_TransactionLt tr) of
           None \<Rightarrow> ns_maxLt sc
         | Some lt \<Rightarrow> if lt > ns_maxLt sc then lt else ns_maxLt sc),
      ns_maxUtime = (if jt_TransactionNow tr > ns_maxUtime sc then jt_TransactionNow tr else ns_maxUtime sc),
      ns_pending = handleTransfer lib tr (ns_pending sc)\<rparr>"

definition ton_transfers :: "decimal_lib \<Rightarrow> jetton_transfer list \<Rightarrow> ton_scan \<Rightarrow> ton_scan" where
  "ton_transfers lib trs sc = foldl (ton_transfer_step lib) sc trs"

fun ton_scan_pages ::
    "decimal_lib \<Rightarrow> (nat \<Rightarrow> int \<Rightarrow> jetton_transfer list res) \<Rightarrow> nat \<Rightarrow> nat \<Rightarrow> int \<Rightarrow> ton_scan
      \<Rightarrow> goerr option \<times> ton_scan" where
  "ton_scan_pages lib fetch page 0 offset sc = (None, sc)"
| "ton_scan_pages lib fetch page (Suc n) offset sc =
     (case fetch page offset of
        Inl err \<Rightarrow> (Some (Wrap ''fetch jetton transfers'' err), sc)
      | Inr trs \<Rightarrow>
          let sc' = ton_transfers lib trs sc in
          if length trs < transfersPageLimit then (None, sc')
          else ton_scan_pages lib fetch (Suc page) n (offset + int transfersPageLimit) sc')"

definition start_utime :: "ton_poll \<Rightarrow> time option \<Rightarrow> int" where
  "start_utime p lastScannedAt =
     (case lastScannedAt of
        None \<Rightarrow> Unix (np_now p - 10 * minute)
      | Some t \<Rightarrow> i64 (Unix t + 1))"

definition scanNewTransfers ::
    "decimal_lib \<Rightarrow> ton_poll \<Rightarrow> 's ton_watcher \<Rightarrow> 's \<Rightarrow> unit res \<times> 's ton_watcher \<times> 's" where
  "scanNewTransfers lib p w s =
     (case get_cursor (nw_cursors w) TON s of
        (Inl err, s1) \<Rightarrow> (Inl (Wrap ''load cursor'' err), w, s1)
      | (Inr (_, lastScannedAt), s1) \<Rightarrow>
          (case ton_scan_pages lib (fetch_transfers p w (start_utime p lastScannedAt))
                  0 ton_maxPagesPerPoll 0 \<lparr>ns_maxLt = 0, ns_maxUtime = 0, ns_pending = nw_pending w\<rparr> of
             (Some err, sc) \<Rightarrow> (Inl err, w\<lparr>nw_pending := ns_pending sc\<rparr>, s1)
           | (None, sc) \<Rightarrow>
               let w' = w\<lparr>nw_pending := ns_pending sc\<rparr> in
               if ns_maxUtime sc > 0 then
                 case set_cursor (nw_cursors w) TON (ns_maxLt sc) (ns_maxUtime sc * 1000000000) s1 of
                   (Inl err, s2) \<Rightarrow> (Inl (Wrap ''save cursor'' err), w', s2)
                 | (Inr _, s2) \<Rightarrow> (Inr (), w', s2)
               else (Inr (), w', s1)))"

text \<open>Go's division truncates towards zero; the count is then clamped at zero.\<close>

definition ton_confs :: "int \<Rightarrow> int \<Rightarrow> int" where
  "ton_confs nowUnix observed =
     (let c = i64 (nowUnix - observed) sdiv assumedBlockTimeSeconds in if c < 0 then 0 else c)"

definition ton_event :: "ton_poll \<Rightarrow> int \<Rightarrow> string \<Rightarrow> ton_tracked \<Rightarrow> transfer_event" where
  "ton_event p nowUnix txHash t =
     \<lparr>ev_chain = TON, ev_tx = txHash, ev_amount = to_amount t, ev_height = to_lt t,
      ev_confs = ton_confs nowUnix (to_observed t), ev_observed = np_clock p txHash\<rparr>"

definition ton_final :: "int \<Rightarrow> 's ton_watcher \<Rightarrow> ton_tracked \<Rightarrow> bool" where
  "ton_final nowUnix w t \<longleftrightarrow> ton_confs nowUnix (to_observed t) \<ge> nc_RequiredConfirms (nw_cfg w)"

definition ton_refreshConfirmations ::
    "ton_poll \<Rightarrow> int \<Rightarrow> 's ton_watcher \<Rightarrow> 's \<Rightarrow> 's ton_watcher \<times> 's" where
  "ton_refreshConfirmations p nowUnix w s =
     (case report_items (ton_event p nowUnix) (ton_final nowUnix w) (nw_sink w)
             (items_of (np_range p (nw_pending w)) (nw_pending w)) (nw_pending w) s of
        (pend, s') \<Rightarrow> (w\<lparr>nw_pending := pend\<rparr>, s'))"

definition ton_pollOnce ::
    "decimal_lib \<Rightarrow> ton_poll \<Rightarrow> 's ton_watcher \<Rightarrow> 's \<Rightarrow> unit res \<times> 's ton_watcher \<times> 's" where
  "ton_pollOnce lib p w s =
     (let nowUnix = Unix (np_start p) in
      case scanNewTransfers lib p w s of
        (_, w1, s1) \<Rightarrow>
          (case ton_refreshConfirmations p nowUnix w1 s1 of (w2, s2) \<Rightarrow> (Inr (), w2, s2)))"

fun ton_polls :: "decimal_lib \<Rightarrow> ton_poll list \<Rightarrow> 's ton_watcher \<Rightarrow> 's \<Rightarrow> 's ton_watcher \<times> 's" where
  "ton_polls lib [] w s = (w, s)"
| "ton_polls lib (p # ps) w s =
     (case ton_pollOnce lib p w s of (_, w1, s1) \<Rightarrow> ton_polls lib ps w1 s1)"

definition ton_Run :: "decimal_lib \<Rightarrow> ton_poll list \<Rightarrow> 's ton_watcher \<Rightarrow> 's \<Rightarrow> 's ton_watcher \<times> 's" where
  "ton_Run lib ticks w s = (if \<not> nc_Enabled (nw_cfg w) then (w, s) else ton_polls lib ticks w s)"

definition ton_iface :: "'s ton_watcher watcher_iface" where
  "ton_iface =
     \<lparr>w_chain = (\<lambda>_. TON), w_required = (\<lambda>w. nc_RequiredConfirms (nw_cfg w)), w_seed = ton_SeedPending\<rparr>"

definition ton_heights :: "ton_tracked tracking \<Rightarrow> string \<rightharpoonup> amount \<times> int" where
  "ton_heights pend tx = map_option (\<lambda>t. (to_amount t, to_lt t)) (pend tx)"

interpretation ton_w: chain_watcher ton_iface "\<lambda>w. ton_heights (nw_pending w)"
  by unfold_locales
    (auto simp: ton_iface_def ton_SeedPending_def ton_heights_def fun_eq_iff seed_apply split: option.splits)

end
