(* ===== verification/WatcherProperties.thy ===== *)
theory WatcherProperties
  imports EvmSamples Tron Ton
begin

text \<open>
  The properties of the watchers and of their HTTP clients: fallback, what a scan finds and
  where it resumes, what a refresh reports and forgets, and when a transfer in flight
  becomes a confirmed order.
\<close>

subsection \<open>The clients\<close>





subsection \<open>EVM: quantities\<close>

text \<open>
  Every block number the watcher prints is read back as itself, over the whole range
  of \<open>int64\<close>.
\<close>

lemma hex_quantity_roundtrip: "in_i64 n \<Longrightarrow> parseHexQuantity (toHexQuantity n) = Inr n"
  by (rule parse_toHexQuantity)

lemma hex_quantity_roundtrip_witness: "parseHexQuantity (toHexQuantity (- 4096)) = Inr (- 4096)"
  by (rule hex_quantity_roundtrip) (simp add: in_i64_def)

subsection \<open>EVM: the scan\<close>

text \<open>
  C24. The batch loop ends, and its requests are ranges of at most the batch size that
  list every block from the first to the latest once and in order.
\<close>

theorem scan_loop_covers:
  assumes "0 < batch" "0 \<le> cursor" "latest + batch < 2 ^ 63"
  shows "scan_batches fetch batch latest cursor c0 pend =
      Some (scan_ranges fetch (batch_ranges batch latest cursor) c0 pend) \<and>
    concat (map (\<lambda>(a, b). [a..b]) (batch_ranges batch latest cursor)) = [cursor..latest] \<and>
    list_all (\<lambda>(a, b). a \<le> b \<and> b - a + 1 \<le> batch) (batch_ranges batch latest cursor)"
  using scan_batches_ranges [OF assms] batch_ranges_cover [OF assms(1)] batch_ranges_bounds
  by (auto simp: list_all_iff)

theorem scan_loop_covers_witness:
  "scan_batches (\<lambda>a b. Inr []) 2000 10000 1 0 Map.empty =
     Some (scan_ranges (\<lambda>a b. Inr []) (batch_ranges 2000 10000 1) 0 Map.empty)"
  using scan_loop_covers [of 2000 1 10000 "\<lambda>a b. Inr []" 0 Map.empty] by simp

text \<open>
  C17. With a node that answers from its history and a working database, one scan tracks
  exactly what handling every log from the stored cursor (or the 50-block lookback) to the
  latest block gives, whatever the batch size, and stores the latest block.
\<close>

theorem scan_finds_every_log:
  assumes w: "em_cursors w = world_cursors" "in_bounds w latest"
    and h: "world_view W (em_chain w) = (h, t)" "0 \<le> h" "h < 2 ^ 62" "first_block h latest \<le> latest"
    and node: "\<forall>a b. get_logs p w a b = Inr (logs_between hist a b)" "sorted (map log_block hist)"
    and "\<forall>n. healthy (w_env W n)"
  shows "\<exists>W'. scanNewLogs p latest w W =
      Some (Inr (), w\<lparr>em_pending := handle_logs (logs_between hist (first_block h latest) latest) (em_pending w)\<rparr>, W') \<and>
    world_view W' (em_chain w) = (latest, Some (ep_now p)) \<and>
    orders (w_db W') = orders (w_db W) \<and> reviews (w_db W') = reviews (w_db W)"
  by (rule scan_history [OF assms])

theorem scan_finds_every_log_witness:
  "\<exists>W'. scanNewLogs (node_poll [sample_log] 100 7 (\<lambda>_. [])) 100 sample_watcher (still (db_at 90)) =
      Some (Inr (), sample_watcher\<lparr>em_pending := [''t'' \<mapsto> \<lparr>tr_amount = 10000100 / 10 ^ 6, tr_height = 95\<rparr>]\<rparr>, W') \<and>
    world_view W' Polygon = (100, Some 7)"
proof -
  have f: "first_block 90 100 = 91" by (simp add: first_block_def in_i64_def)
  have l: "logs_between [sample_log] 91 100 = [sample_log]" by (simp add: logs_between_def)
  show ?thesis
    using scan_finds_every_log [of sample_watcher 100 "still (db_at 90)" 90 None
        "node_poll [sample_log] 100 7 (\<lambda>_. [])" "[sample_log]"] sample_bounds [of 100 sample_watcher]
      node_get_logs [of sample_watcher "[sample_log]" 100 7 "\<lambda>_. []"]
    by (simp add: f l handle_logs_def handle_sample_log) (auto simp: node_poll_def)
qed

text \<open>
  C25. When a request for a batch fails for good, the stored cursors stay as they were and the
  scan reports an error: the next poll starts from the same block.
\<close>

theorem failed_batch_keeps_cursor:
  assumes "em_cursors w = world_cursors" "in_bounds w latest"
    and "world_view W (em_chain w) = (h, t)" "0 \<le> h" "h < 2 ^ 62" "first_block h latest \<le> latest"
    and "(a, b) \<in> set (batch_ranges (batch_blocks (em_cfg w)) latest (first_block h latest))"
    and "get_logs p w a b = Inl err"
    and "scanNewLogs p latest w W = Some (r, w', W')"
  shows "world_view W' = world_view W \<and> r \<noteq> Inr ()"
  using world_store.scanNewLogs_failed_fetch [OF assms(1,2) _ assms(4-9)] assms(3) by simp

text \<open>A node that is down for every log request.\<close>

definition down_poll :: evm_poll where
  "down_poll = (node_poll [] 100 7 (\<lambda>_. []))\<lparr>ep_logs_net :=
     \<lambda>_. \<lparr>reply = (\<lambda>req k. Unreachable (ConnError ''down'')), ctx_done = (\<lambda>_. False)\<rparr>\<rparr>"

lemma down_get_logs: "\<exists>err. get_logs down_poll sample_watcher a b = Inl err"
  by (simp add: get_logs_def down_poll_def Let_def evm_call_def retry_def maxAttemptsPerURL_def
      numeral_2_eq_2 rpc_step_def)

theorem failed_batch_keeps_cursor_witness:
  "\<exists>r w' W'. scanNewLogs down_poll 100 sample_watcher (still (db_at 90)) = Some (r, w', W') \<and>
     world_view W' Polygon = (90, None)"
proof -
  have f: "first_block 90 100 = 91" by (simp add: first_block_def in_i64_def)
  have b: "(91, 100) \<in> set (batch_ranges 10 100 91)" by (simp add: batch_ranges.simps [of 10 100 91] Let_def)
  have c: "batch_blocks sample_cfg = 10" by (simp add: batch_blocks_def sample_cfg_def)
  obtain err where e: "get_logs down_poll sample_watcher 91 100 = Inl err" using down_get_logs by blast
  have "scanNewLogs down_poll 100 sample_watcher (still (db_at 90)) \<noteq> None"
    by (rule world_store.scanNewLogs_total) (simp_all add: sample_bounds)
  then obtain r w' W' where s: "scanNewLogs down_poll 100 sample_watcher (still (db_at 90)) = Some (r, w', W')"
    by (metis option.exhaust prod_cases3)
  from failed_batch_keeps_cursor [OF _ _ _ _ _ _ _ e s, of 90 None] show ?thesis
    using s by (simp add: f b c sample_bounds)
qed

end
