(* ===== verification/InFlightProperties.thy ===== *)
theory InFlightProperties
  imports EvmSamples Tron Ton
begin

text \<open>
  The properties of transfers in flight: what a refresh reports and forgets, when a poll
  confirms an order, and what happens to a transfer the service could not take.
\<close>

subsection \<open>Refreshing\<close>

text \<open>
  A refresh of each watcher reports every transfer in flight exactly once, in the order
  of the range over the map, and afterwards tracks exactly those that are not final.
\<close>

lemma refresh_reports_once:
  assumes "range_order (ep_range p (em_pending w)) (em_pending w)"
    and "range_order (tp_range q (tw_pending v)) (tw_pending v)"
    and "range_order (np_range r (nw_pending u)) (nw_pending u)"
  shows "evm_refreshConfirmations p latest w s =
      (w\<lparr>em_pending := unfinished (evm_final latest w) (em_pending w)\<rparr>,
       deliver (em_sink w) (map (\<lambda>tx. evm_event p latest w tx (the (em_pending w tx)))
         (ep_range p (em_pending w))) s) \<and>
    tron_refreshConfirmations q latest v s =
      (v\<lparr>tw_pending := unfinished (tron_final latest v) (tw_pending v)\<rparr>,
       deliver (tw_sink v) (map (\<lambda>tx. tron_event q latest tx (the (tw_pending v tx)))
         (tp_range q (tw_pending v))) s) \<and>
    ton_refreshConfirmations r now u s =
      (u\<lparr>nw_pending := unfinished (ton_final now u) (nw_pending u)\<rparr>,
       deliver (nw_sink u) (map (\<lambda>tx. ton_event r now tx (the (nw_pending u tx)))
         (np_range r (nw_pending u))) s)"
  by (simp add: evm_refresh_eq [OF assms(1)] tron_refreshConfirmations_def ton_refreshConfirmations_def
      report_items_range [OF assms(2)] report_items_range [OF assms(3)])

definition one_range :: "'p tracking \<Rightarrow> string list" where
  "one_range m = (if m ''t'' = None then [] else [''t''])"

lemma range_order_one: "dom m \<subseteq> {''t''} \<Longrightarrow> range_order (one_range m) m"
  by (auto simp: one_range_def range_order_def)

definition tracking_watcher :: "world evm_watcher" where
  "tracking_watcher = sample_watcher\<lparr>em_pending := [''t'' \<mapsto> \<lparr>tr_amount = 100001 / 10000, tr_height = 95\<rparr>]\<rparr>"

lemma tracking_watcher_sel [simp]:
  "em_cfg tracking_watcher = sample_cfg" "em_chain tracking_watcher = Polygon"
  "em_urls tracking_watcher = [''u'']" "em_cursors tracking_watcher = world_cursors"
  "em_sink tracking_watcher = service_sink reference_decimal default_service"
  "em_pending tracking_watcher = [''t'' \<mapsto> \<lparr>tr_amount = 100001 / 10000, tr_height = 95\<rparr>]"
  by (simp_all add: tracking_watcher_def)

definition sample_poll :: "int \<Rightarrow> evm_poll" where
  "sample_poll latest = node_poll [] latest 7 one_range"

lemma ep_range_sample [simp]: "ep_range (sample_poll latest) = one_range"
  by (simp add: sample_poll_def node_poll_def)

definition sample_tron_poll :: tron_poll where
  "sample_tron_poll =
     \<lparr>tp_block_net = echo_net, tp_page_net = (\<lambda>_. echo_net), tp_decode_block = (\<lambda>_. Some 100),
      tp_decode_events = (\<lambda>_. Some \<lparr>er_Success = True, er_Data = [], er_Fingerprint = [], er_PageSize = 0\<rparr>),
      tp_now = 7, tp_clock = (\<lambda>_. 7), tp_range = one_range\<rparr>"

definition sample_ton_poll :: ton_poll where
  "sample_ton_poll =
     \<lparr>np_page_net = (\<lambda>_. echo_net), np_decode = (\<lambda>_. Some []), np_start = 7, np_now = 7,
      np_clock = (\<lambda>_. 7), np_range = one_range\<rparr>"

definition sample_tron_cfg :: TronConfig where
  "sample_tron_cfg =
     \<lparr>tc_Enabled = True, tc_Address = [], tc_APIURL = ''u'', tc_FallbackAPIURLs = [], tc_APIKey = [],
      tc_USDTContract = [], tc_PollInterval = 5 * second, tc_RequiredConfirms = 3\<rparr>"

definition sample_tron :: "world tron_watcher" where
  "sample_tron =
     \<lparr>tw_cfg = sample_tron_cfg, tw_addressHex = ''41aa'', tw_client = newClient ''u'' [] [],
      tw_sink = service_sink reference_decimal default_service, tw_cursors = world_cursors,
      tw_pending = [''t'' \<mapsto> \<lparr>tr_amount = 100001 / 10000, tr_height = 95\<rparr>]\<rparr>"

definition sample_ton_cfg :: TONConfig where
  "sample_ton_cfg =
     \<lparr>nc_Enabled = True, nc_Address = [], nc_APIURL = ''u'', nc_FallbackAPIURLs = [], nc_APIKey = [],
      nc_USDTJettonMaster = [], nc_PollInterval = 8 * second, nc_RequiredConfirms = 5\<rparr>"

definition sample_ton :: "world ton_watcher" where
  "sample_ton =
     ton_NewWatcher sample_ton_cfg (service_sink reference_decimal default_service) world_cursors"

lemma refresh_reports_once_witness:
  "em_pending (fst (evm_refreshConfirmations (sample_poll 97) 97 tracking_watcher (still two_pending))) = Map.empty"
proof -
  have "range_order (tp_range sample_tron_poll (tw_pending sample_tron)) (tw_pending sample_tron)"
    "range_order (np_range sample_ton_poll (nw_pending sample_ton)) (nw_pending sample_ton)"
    "range_order (ep_range (sample_poll 97) (em_pending tracking_watcher)) (em_pending tracking_watcher)"
    by (auto simp: sample_tron_poll_def sample_ton_poll_def sample_tron_def sample_ton_def ton_NewWatcher_def
        intro!: range_order_one split: if_splits)
  from refresh_reports_once [OF this(3,1,2), of 97 "still two_pending"] show ?thesis
    by (simp add: unfinished_def fun_eq_iff evm_final_def height_confs_def sample_cfg_def in_i64_def)
qed

text \<open>
  The confirmations reported for a transfer in block h are latest - h + 1, never
  negative, and a transfer becomes final in block h + required - 1 exactly.
\<close>

lemma confirmations_by_height:
  assumes "0 \<le> latest" "latest < 2 ^ 62" "0 \<le> tr_height t" "tr_height t < 2 ^ 62"
  shows "ev_confs (evm_event p latest w tx t) = max 0 (latest - tr_height t + 1) \<and>
    ev_confs (tron_event q latest tx t) = max 0 (latest - tr_height t + 1) \<and>
    (evm_final latest w t \<longleftrightarrow> tr_height t + ec_RequiredConfirms (em_cfg w) - 1 \<le> latest) \<and>
    (tron_final latest v t \<longleftrightarrow> tr_height t + tc_RequiredConfirms (tw_cfg v) - 1 \<le> latest)"
  using height_confs_small [OF assms]
  by (auto simp: evm_event_def tron_event_def evm_final_def tron_final_def emitted_confs_max)

subsection \<open>Polls in a running process\<close>

text \<open>What the calls to the cursor store do to a world: nothing but its cursors.\<close>

definition cursors_only :: "world \<Rightarrow> world \<Rightarrow> bool" where
  "cursors_only W W' \<longleftrightarrow> orders (w_db W') = orders (w_db W) \<and> reviews (w_db W') = reviews (w_db W) \<and>
     w_other W' = w_other W \<and> (db_ok (w_db W) \<longrightarrow> db_ok (w_db W')) \<and>
     (\<forall>tol. db_steps tol (w_db W) (w_db W')) \<and>
     (\<exists>k. w_env W' = (\<lambda>n. w_env W (n + k)))"

lemma cursors_only_refl [simp]: "cursors_only W W"
  by (auto simp: cursors_only_def intro: exI [of _ 0])

lemma cursors_only_trans:
  assumes "cursors_only W W1" "cursors_only W1 W2"
  shows "cursors_only W W2"
proof -
  obtain j k where "w_env W1 = (\<lambda>n. w_env W (n + j))" "w_env W2 = (\<lambda>n. w_env W1 (n + k))"
    using assms by (auto simp: cursors_only_def)
  then have "w_env W2 = (\<lambda>n. w_env W (n + (k + j)))" by (simp add: add.assoc)
  with assms show ?thesis by (auto simp: cursors_only_def intro: rtranclp_trans)
qed

lemma cursor_call_only:
  assumes "cursor_call f W = (r, W')" "\<And>e d tol. db_step tol d (snd (f e d))"
    and "\<And>e d. orders (snd (f e d)) = orders d \<and> reviews (snd (f e d)) = reviews d"
  shows "cursors_only W W'"
  using assms(1) assms(2,3) [where e = "w_env W 0" and d = "w_db W"] db_step_good [OF assms(2) [where e = "w_env W 0" and d = "w_db W"]]
  by (auto simp: cursor_call_def cursors_only_def good_step_def split: prod.splits intro: exI [of _ 1])

lemma pg_cursors_only:
  "orders (snd (get_cursor (pg_cursors e) c d)) = orders d \<and> reviews (snd (get_cursor (pg_cursors e) c d)) = reviews d"
  "orders (snd (set_cursor (pg_cursors e) c h t d)) = orders d \<and> reviews (snd (set_cursor (pg_cursors e) c h t d)) = reviews d"
  unfolding pg_cursors_def GetCursor_def SetCursor_def cursor_ops.select_convs
  by (rule exec_preserves; simp)+

lemma pg_cursors_step:
  "db_step tol d (snd (get_cursor (pg_cursors e) c d))"
  "db_step tol d (snd (set_cursor (pg_cursors e) c h t d))"
  by (simp_all add: pg_cursors_def GetCursor_def SetCursor_def db_step.get_cursor db_step.set_cursor)

lemma world_cursors_only:
  "get_cursor world_cursors c W = (r, W') \<Longrightarrow> cursors_only W W'"
  "set_cursor world_cursors c h t W = (r', W') \<Longrightarrow> cursors_only W W'"
  unfolding world_cursors_def cursor_ops.select_convs
  by (erule cursor_call_only; simp add: pg_cursors_only pg_cursors_step)+

lemma evm_scan_world:
  assumes "em_cursors w = world_cursors" "scanNewLogs p latest w W = Some (r, w1, W1)"
  shows "cursors_only W W1 \<and> (\<exists>pend. w1 = w\<lparr>em_pending := pend\<rparr>)"
proof -
  obtain x Wg where g: "get_cursor world_cursors (em_chain w) W = (x, Wg)" by (metis surj_pair)
  have id: "\<exists>pend. w = w\<lparr>em_pending := pend\<rparr>" by (intro exI [of _ "em_pending w"]) simp
  note og = world_cursors_only(1) [OF g]
  show ?thesis
  proof (cases x)
    case (Inl err)
    with assms g og id show ?thesis by (auto simp: scanNewLogs_def)
  next
    case (Inr y)
    obtain h t where y: "y = (h, t)" by (cases y)
    let ?sc = "scan_batches (get_logs p w) (batch_blocks (em_cfg w)) latest (first_block h latest)
        (i64 (first_block h latest - 1)) (em_pending w)"
    show ?thesis
    proof (cases "first_block h latest > latest")
      case True
      with assms g og id Inr y show ?thesis by (simp add: scanNewLogs_def Let_def)
    next
      case False
      with assms(2) g Inr y assms(1) obtain z pend where sc: "?sc = Some (z, pend)"
        by (auto simp: scanNewLogs_def Let_def split: option.splits)
      show ?thesis
      proof (cases z)
        case (Inl err)
        with assms g og Inr y False sc show ?thesis by (auto simp: scanNewLogs_def Let_def)
      next
        case (Inr lastC)
        obtain x2 W2 where s: "set_cursor world_cursors (em_chain w) lastC (ep_now p) Wg = (x2, W2)"
          by (metis surj_pair)
        have "W1 = W2 \<and> w1 = w\<lparr>em_pending := pend\<rparr>"
          using assms g \<open>x = Inr y\<close> y False sc Inr s by (auto simp: scanNewLogs_def Let_def split: sum.splits)
        with cursors_only_trans [OF og world_cursors_only(2) [OF s]] show ?thesis by auto
      qed
    qed
  qed
qed

lemma cursors_only_world_ok:
  "cursors_only W W1 \<Longrightarrow> world_ok tol W \<Longrightarrow> world_ok tol W1"
  by (auto simp: cursors_only_def world_ok_def)

text \<open>A refresh that reports the transfer of a confirming order with enough confirmations.\<close>

lemma in_flight_confirms:
  assumes "cursors_only W W1" "world_ok (s_tolerance s) W" "\<forall>n. healthy (w_env W n)"
    and ev: "ev \<in> set evs" "in_i32 (ev_confs ev)" "o_required a \<le> ev_confs ev"
    and a: "a \<in> set (orders (w_db W))" "o_status a \<in> {Confirming, Confirmed}"
      "o_chain a = ev_chain ev" "o_tx a = Some (ev_tx ev)"
  shows "\<exists>b\<in>set (orders (w_db (deliver (service_sink lib s) evs W1))). o_id b = o_id a \<and> o_status b = Confirmed"
proof (rule deliver_confirms [OF cursors_only_world_ok [OF assms(1,2)] _ ev])
  show "healthy (w_env W1 n)" for n using assms(1,3) by (auto simp: cursors_only_def)
  show "a \<in> set (orders (w_db W1))" using a(1) assms(1) by (simp add: cursors_only_def)
qed (use a in auto)

text \<open>
  A poll of the EVM watcher confirms the order of every transfer in flight that has
  reached the confirmations the order requires, whatever the other goroutines do to the
  database meanwhile, as long as the statements of the poll run.
\<close>

lemma evm_poll_confirms:
  assumes w: "em_sink w = service_sink lib s" "em_cursors w = world_cursors" "em_chain w = o_chain a"
    and poll: "blockNumber p w = Inr latest" "scanNewLogs p latest w W = Some (r, w1, W1)"
      "range_order (ep_range p (em_pending w1)) (em_pending w1)"
    and tx: "em_pending w1 tx = Some t" "0 \<le> tr_height t" "tr_height t \<le> latest" "latest < 2 ^ 31 - 1"
    and enough: "tr_height t + o_required a - 1 \<le> latest"
    and a: "a \<in> set (orders (w_db W))" "o_status a \<in> {Confirming, Confirmed}" "o_tx a = Some tx"
    and W: "world_ok (s_tolerance s) W" "\<forall>n. healthy (w_env W n)"
  shows "\<exists>w2 W2. evm_pollOnce p w W = Some (Inr (), w2, W2) \<and>
    (\<exists>b\<in>set (orders (w_db W2)). o_id b = o_id a \<and> o_status b = Confirmed)"
proof -
  have co: "cursors_only W W1" and w1: "em_sink w1 = service_sink lib s" "em_chain w1 = o_chain a"
    using evm_scan_world [OF w(2) poll(2)] w by auto
  let ?evs = "map (\<lambda>tx. evm_event p latest w1 tx (the (em_pending w1 tx))) (ep_range p (em_pending w1))"
  let ?ev = "evm_event p latest w1 tx t"
  have "tx \<in> set (ep_range p (em_pending w1))" using poll(3) tx(1) by (auto simp: range_order_def)
  with tx(1) have ev: "?ev \<in> set ?evs" by force
  have c: "ev_confs ?ev = latest - tr_height t + 1"
    using height_confs_small [of latest "tr_height t"] tx by (simp add: evm_event_def emitted_confs_max)
  have k: "in_i32 (ev_confs ?ev)" "o_required a \<le> ev_confs ?ev" using tx enough by (auto simp: c in_i32_def)
  have "\<exists>b\<in>set (orders (w_db (deliver (service_sink lib s) ?evs W1))). o_id b = o_id a \<and> o_status b = Confirmed"
    by (rule in_flight_confirms [OF co W ev k a(1,2)]) (use a w1 in \<open>auto simp: evm_event_def\<close>)
  then show ?thesis
    using evm_refresh_eq [OF poll(3), of latest W1] w1 by (simp add: evm_pollOnce_def poll)
qed

text \<open>An order that waits for the transfer the sample watcher tracks.\<close>

definition order_W :: order where
  "order_W = claim_row 5 ''t'' 95 (100001 / 10000) 1 (new_order 1 ''alice'' Polygon 10 1 3 100 1000)"

definition one_confirming :: db where
  "one_confirming = empty_db\<lparr>orders := [order_W]\<rparr>"

lemma one_confirming_sel [simp]:
  "orders one_confirming = [order_W]" "reviews one_confirming = []" "cursors one_confirming = Map.empty"
  by (simp_all add: one_confirming_def empty_db_def)

lemma order_W_sel [simp]:
  "o_chain order_W = Polygon" "o_tx order_W = Some ''t''" "o_status order_W = Confirming"
  "o_required order_W = 3" "o_id order_W = 1" "o_height order_W = Some 95"
  "o_received order_W = Some (100001 / 10000)"
  by (simp_all add: order_W_def claim_row_def new_order_def progress_status_def)

lemma db_ok_one_confirming [simp]: "db_ok one_confirming"
  by (simp add: db_ok_def one_confirming_def empty_db_def unique_ok_def order_W_def claim_row_def new_order_def
      progress_status_def order_ok_def claimed_def)

lemma sample_scan_idle:
  "\<exists>W1. scanNewLogs (sample_poll 97) 97 tracking_watcher (still one_confirming) = Some (Inr (), tracking_watcher, W1)"
proof -
  have v: "world_view (still one_confirming) (em_chain tracking_watcher) = (0, None)"
    by (simp add: world_view_def cursor_view_def)
  have f: "first_block 0 97 = 47" by (simp add: first_block_def in_i64_def)
  have n: "\<forall>a b. get_logs (sample_poll 97) tracking_watcher a b = Inr (logs_between [] a b)"
    by (simp add: sample_poll_def node_get_logs)
  have e: "handle_logs (logs_between [] a b) pend = pend" for a b pend
    by (simp add: logs_between_def handle_logs_def)
  have upd: "tracking_watcher\<lparr>em_pending := em_pending tracking_watcher\<rparr> = tracking_watcher"
    by (simp del: tracking_watcher_sel)
  have hl: "\<forall>n. healthy (w_env (still one_confirming) n)" by simp
  have "\<exists>W1. scanNewLogs (sample_poll 97) 97 tracking_watcher (still one_confirming) =
      Some (Inr (), tracking_watcher\<lparr>em_pending := handle_logs (logs_between [] (first_block 0 97) 97)
        (em_pending tracking_watcher)\<rparr>, W1)"
    using scan_history [OF _ sample_bounds v _ _ _ n _ hl, of 97] by (auto simp: f)
  then show ?thesis unfolding e upd .
qed

lemma evm_poll_confirms_witness:
  "\<exists>w2 W2. evm_pollOnce (sample_poll 97) tracking_watcher (still one_confirming) = Some (Inr (), w2, W2) \<and>
     (\<exists>b\<in>set (orders (w_db W2)). o_id b = 1 \<and> o_status b = Confirmed)"
proof -
  obtain W1 where sc: "scanNewLogs (sample_poll 97) 97 tracking_watcher (still one_confirming) = Some (Inr (), tracking_watcher, W1)"
    using sample_scan_idle by blast
  have b: "blockNumber (sample_poll 97) tracking_watcher = Inr 97"
    unfolding sample_poll_def by (rule node_blockNumber) (simp_all add: in_i64_def)
  have r: "range_order (ep_range (sample_poll 97) (em_pending tracking_watcher)) (em_pending tracking_watcher)"
    by (auto intro!: range_order_one split: if_splits)
  from evm_poll_confirms [OF _ _ _ b sc r, of reference_decimal default_service order_W "''t''"
      "\<lparr>tr_amount = 100001 / 10000, tr_height = 95\<rparr>"]
  show ?thesis by (simp add: still_ok)
qed

end
