(* ===== verification/LossProperties.thy ===== *)
theory LossProperties
  imports InFlightProperties
begin

text \<open>
  The ways in which the program loses sight of a transfer it has seen, each as a theorem
  about the code: the review insert whose error is only logged, the report of a final
  transfer the service rejects, and two logs of one transaction.
\<close>

subsection \<open>The review queue\<close>

text \<open>Every statement runs, except perhaps the insert into the review queue.\<close>

definition healthy_but_review :: "env \<Rightarrow> bool" where
  "healthy_but_review e \<longleftrightarrow> (\<forall>s. s \<noteq> InsertReview \<longrightarrow> outcome_of e s = Runs)"

definition mended :: "env \<Rightarrow> env" where
  "mended e = e\<lparr>outcome_of := (\<lambda>_. Runs)\<rparr>"

lemma mended_sel [simp]:
  "healthy (mended e)" "clock (mended e) = clock e" "locked (mended e) = locked e"
  by (simp_all add: mended_def healthy_def)

lemma exec_mended:
  assumes "healthy_but_review e"
  shows "exec (mended e) UpdateConfs = exec e UpdateConfs"
    and "exec (mended e) SelectTxExists = exec e SelectTxExists"
    and "exec (mended e) UpdateClaim = exec e UpdateClaim"
    and "exec (mended e) BeginUnderpaid = exec e BeginUnderpaid"
    and "exec (mended e) SelectCandidates = exec e SelectCandidates"
    and "exec (mended e) MarkUnderpaid = exec e MarkUnderpaid"
    and "exec (mended e) CommitUnderpaid = exec e CommitUnderpaid"
    and "exec (mended e) (InsertAudit v k) = exec e (InsertAudit v k)"
  using assms by (auto simp: healthy_but_review_def mended_def exec_def fun_eq_iff)

lemma calls_mended:
  assumes "healthy_but_review e"
  shows "UpdateConfirmations (mended e) = UpdateConfirmations e"
    and "TxAlreadyClaimed (mended e) = TxAlreadyClaimed e"
    and "ClaimExactMatch (mended e) = ClaimExactMatch e"
    and "ClaimUnderpaid lib (mended e) = ClaimUnderpaid lib e"
    and "Log (mended e) = Log e"
  unfolding fun_eq_iff UpdateConfirmations_def TxAlreadyClaimed_def ClaimExactMatch_def Let_def
      claim_stmt_def exact_candidates_def underpaid_candidates_def ClaimUnderpaid_def Log_def
      exec_mended [OF assms] mended_sel
  by simp_all

text \<open>No order of the database can take the event.\<close>

definition unmatchable :: "decimal_lib \<Rightarrow> env \<Rightarrow> service \<Rightarrow> transfer_event \<Rightarrow> db \<Rightarrow> bool" where
  "unmatchable lib e s ev d \<longleftrightarrow> (\<forall>a\<in>set (orders d).
     \<not> (o_chain a = ev_chain ev \<and> o_tx a = Some (ev_tx ev)) \<and> \<not> pays e s ev a \<and> \<not> underpays lib e s ev a)"

lemma OnTransfer_unmatchable:
  assumes "decimal_library lib" "healthy_but_review e" "unique_ok (orders d)" "in_i32 (ev_confs ev)"
    and "0 \<le> ev_amount ev" "unmatchable lib e s ev d"
  shows "\<exists>d1. orders d1 = orders d \<and> reviews d1 = reviews d \<and>
    OnTransfer lib e s ev d =
      (Inr (), snd (LogReviewItem e (ev_chain ev) (ev_tx ev) (ev_amount ev) ReasonUnmatched None d1))"
proof -
  let ?o = "observed lib (mended e) ev d"
  have new: "\<not> (\<exists>a\<in>set (orders d). o_chain a = ev_chain ev \<and> o_tx a = Some (ev_tx ev))"
    and np: "\<And>a. a \<in> set (orders d) \<Longrightarrow> \<not> pays (mended e) s ev a"
    and nu: "\<And>a. a \<in> set (orders d) \<Longrightarrow> \<not> short_match lib (mended e) (ev_chain ev) (s_max_gap s) (ev_amount ev) a"
    using assms(6) by (auto simp: unmatchable_def pays_def exact_match_def underpays_def short_match_def)
  have u: "UpdateConfirmations e (ev_chain ev) (ev_tx ev) (ev_height ev) (ev_confs ev) (observed lib e ev d) =
      (Inr None, observed lib e ev d)"
    using OnTransfer_no_advance [of "mended e" d ev lib, OF _ assms(3,4) unclaimed_no_advance [OF new]]
    by (simp add: calls_mended [OF assms(2)])
  have t: "TxAlreadyClaimed e (ev_chain ev) (ev_tx ev) (observed lib e ev d) = (Inr False, observed lib e ev d)"
    using OnTransfer_unclaimed [of "mended e" d ev lib, OF _ new] by (simp add: calls_mended [OF assms(2)])
  have c: "ClaimExactMatch e (ev_chain ev) (ev_tx ev) (ev_amount ev) (ev_height ev) (ev_confs ev)
      (s_tolerance s) (observed lib e ev d) = (Inr None, observed lib e ev d)"
    using OnTransfer_not_exact [of "mended e" d ev s lib, OF _ assms(3,4) new np]
    by (simp add: calls_mended [OF assms(2)])
  have p: "ClaimUnderpaid lib e (ev_chain ev) (ev_tx ev) (ev_amount ev) (ev_height ev) (s_max_gap s)
      (observed lib e ev d) = (Inr None, observed lib e ev d)"
    using decimal_library.ClaimUnderpaid_none [OF assms(1), of "mended e" "ev_amount ev" ?o "ev_chain ev" "s_max_gap s"
        "ev_tx ev" "ev_height ev"] assms(5) nu
    by (simp add: calls_mended [OF assms(2)])
  show ?thesis
    by (rule exI [of _ "snd (Log e 0 None (ev_chain ev) (ev_tx ev) ''transfer_unmatched''
          (Some [(''amount'', JStr (dec_string lib (ev_amount ev)))]) (observed lib e ev d))"])
      (simp add: OnTransfer_def Let_def u t c p)
qed

text \<open>
  C37. A transfer no order can take is lost without an error when its review item cannot
  be written, because the insert fails or because the amount does not fit NUMERIC(20,8)
  (a trillion or more): \<open>OnTransfer\<close> returns nil, and neither an order nor the review queue
  knows the transaction. (With 6 instead of 18 decimals for BSC's USDT, every transfer of a
  dollar or more is such an amount.)
\<close>

theorem unrecorded_transfer_is_lost:
  assumes "decimal_library lib" "healthy_but_review e" "unique_ok (orders d)" "in_i32 (ev_confs ev)"
    and "0 \<le> ev_amount ev" "unmatchable lib e s ev d"
    and "(\<exists>m. outcome_of e InsertReview = NotRun m) \<or> numeric20_8 (ev_amount ev) = None"
  shows "fst (OnTransfer lib e s ev d) = Inr () \<and> orders (snd (OnTransfer lib e s ev d)) = orders d \<and>
    reviews (snd (OnTransfer lib e s ev d)) = reviews d"
proof -
  obtain d1 where d1: "orders d1 = orders d" "reviews d1 = reviews d"
    and eq: "OnTransfer lib e s ev d =
      (Inr (), snd (LogReviewItem e (ev_chain ev) (ev_tx ev) (ev_amount ev) ReasonUnmatched None d1))"
    using OnTransfer_unmatchable [OF assms(1-6)] by blast
  let ?f = "insert_review_stmt (clock e InsertReview) (ev_chain ev) (ev_tx ev) (ev_amount ev) ReasonUnmatched None"
  have "snd (exec e InsertReview ?f d1) = d1"
    using assms(7) by (auto simp: exec_def insert_review_stmt_def split: outcome.split)
  then show ?thesis by (simp add: eq d1 snd_LogReviewItem)
qed

theorem unrecorded_transfer_is_lost_witness:
  "reviews (snd (OnTransfer reference_decimal (calm 5) default_service (event ''t'' (10 ^ 13) 1) two_pending)) = []"
proof -
  have n: "numeric20_8 (10 ^ 13) = None"
    using round_half_exact [of 8 "10 ^ 13"] has_places_int_div [of 8 "10 ^ 21"]
    by (simp add: numeric20_8_def)
  have "unmatchable reference_decimal (calm 5) default_service (event ''t'' (10 ^ 13) 1) two_pending"
    by (simp add: unmatchable_def pays_def exact_match_def underpays_def short_match_def sample_orders)
  from unrecorded_transfer_is_lost [OF ref_dec.decimal_library_axioms _ _ _ _ this] n
  show ?thesis using db_okD(1) [OF db_ok_two_pending]
    by (simp add: healthy_but_review_def in_i32_def)
qed

subsection \<open>The last report\<close>

lemma OnTransfer_down:
  assumes "outcome_of e UpdateConfs = NotRun m"
  shows "orders (snd (OnTransfer lib e s ev d)) = orders d \<and> reviews (snd (OnTransfer lib e s ev d)) = reviews d"
  by (simp add: OnTransfer_def Let_def UpdateConfirmations_def exec_def assms nil_if_no_rows_def)

definition down :: "world \<Rightarrow> bool" where
  "down W \<longleftrightarrow> (\<forall>n. (\<exists>m. outcome_of (w_env W n) UpdateConfs = NotRun m) \<and> w_other W n = (\<lambda>d. d))"

lemma service_sink_down:
  assumes "down W"
  shows "orders (w_db (snd (service_sink lib s ev W))) = orders (w_db W) \<and>
    reviews (w_db (snd (service_sink lib s ev W))) = reviews (w_db W) \<and> down (snd (service_sink lib s ev W))"
proof -
  obtain m where m: "outcome_of (w_env W 0) UpdateConfs = NotRun m" and o: "w_other W 0 = (\<lambda>d. d)"
    using assms by (auto simp: down_def)
  show ?thesis using OnTransfer_down [OF m, of lib s ev "w_db W"] assms
    by (auto simp: service_sink_def next_call_def o down_def split: prod.split)
qed

lemma deliver_down:
  "down W \<Longrightarrow> orders (w_db (deliver (service_sink lib s) evs W)) = orders (w_db W) \<and>
    reviews (w_db (deliver (service_sink lib s) evs W)) = reviews (w_db W)"
  by (induction evs arbitrary: W) (auto simp: service_sink_down)

text \<open>
  C38. When the database cannot be reached during the refresh in which a transfer becomes
  final, the watcher forgets the transfer all the same: it is no longer in flight, the
  stored cursor is past it, and no order and no review item was written.
\<close>

theorem final_report_is_lost:
  assumes "em_sink w = service_sink lib s" "range_order (ep_range p (em_pending w)) (em_pending w)"
    and "em_pending w tx = Some t" "evm_final latest w t" "down W"
  shows "em_pending (fst (evm_refreshConfirmations p latest w W)) tx = None \<and>
    orders (w_db (snd (evm_refreshConfirmations p latest w W))) = orders (w_db W) \<and>
    reviews (w_db (snd (evm_refreshConfirmations p latest w W))) = reviews (w_db W)"
  using assms deliver_down [OF assms(5), of lib s] by (simp add: evm_refresh_eq unfinished_def)

definition outage :: world where
  "outage = \<lparr>w_env = (\<lambda>_. (calm 5)\<lparr>outcome_of := (\<lambda>_. NotRun ''down'')\<rparr>), w_other = (\<lambda>_ d. d), w_db = two_pending\<rparr>"

theorem final_report_is_lost_witness:
  "em_pending (fst (evm_refreshConfirmations (sample_poll 97) 97 tracking_watcher outage)) ''t'' = None \<and>
   orders (w_db (snd (evm_refreshConfirmations (sample_poll 97) 97 tracking_watcher outage))) = [order_A, order_B]"
proof -
  have "range_order (ep_range (sample_poll 97) (em_pending tracking_watcher)) (em_pending tracking_watcher)"
    by (auto intro!: range_order_one split: if_splits)
  moreover have "evm_final 97 tracking_watcher \<lparr>tr_amount = 100001 / 10000, tr_height = 95\<rparr>"
    by (simp add: evm_final_def height_confs_def sample_cfg_def in_i64_def)
  moreover have "down outage" by (simp add: down_def outage_def)
  ultimately show ?thesis
    using final_report_is_lost [of tracking_watcher reference_decimal default_service "sample_poll 97" "''t''"
        "\<lparr>tr_amount = 100001 / 10000, tr_height = 95\<rparr>" 97 outage]
    by (simp add: outage_def)
qed

subsection \<open>Two transfers in one transaction\<close>

text \<open>
  The in-flight set is keyed by the transaction hash: of two transfers to the address in
  one transaction only the later log is kept, so the amount reported is not the amount
  received.
\<close>

lemma second_log_replaces_first:
  assumes "l_txHash k = l_txHash l" "3 \<le> length (l_topics k)" "3 \<le> length (l_topics l)"
    and "parseHexBigInt (l_data k) = Inr m" "parseHexBigInt (l_data l) = Inr n"
    and "parseHexQuantity (l_blockNumber k) = Inr h" "parseHexQuantity (l_blockNumber l) = Inr h"
  shows "handle_logs [k, l] pend = pend(l_txHash l \<mapsto> \<lparr>tr_amount = of_int n / 10 ^ 6, tr_height = h\<rparr>) \<and>
    (0 < m \<longrightarrow> of_int n / 10 ^ 6 < (of_int (m + n) / 10 ^ 6 :: amount))"
  using assms by (simp add: handle_logs_def handleLog_def Let_def divide_strict_right_mono)

end
