(* ===== verification/ScanProperties.thy ===== *)
theory ScanProperties
  imports InFlightProperties
begin

text \<open>
  The properties of the TRON and TON scans: which events end up in flight, where the next
  scan resumes, the TRON address, and TON's clock as a count of confirmations.
\<close>

subsection \<open>TRON: the address\<close>

lemma length_hex_encode [simp]: "length (hex_encode bs) = 2 * length bs"
  by (induction bs) (simp_all add: hex_encode_def hex_byte_def)

lemma unat_byte_div: "unat (b :: byte) div 16 < 16"
  using unsigned_less [of b, where 'a = nat] by simp

lemma digit_char_inj: "a < 16 \<Longrightarrow> b < 16 \<Longrightarrow> digit_char a = digit_char b \<Longrightarrow> a = b"
  by (metis digit_val_digit_char option.inject)

lemma hex_byte_inj: "hex_byte a = hex_byte b \<Longrightarrow> a = b"
proof -
  assume "hex_byte a = hex_byte b"
  then have "unat a div 16 = unat b div 16" "unat a mod 16 = unat b mod 16"
    by (auto simp: hex_byte_def intro: digit_char_inj unat_byte_div)
  then have "unat a = unat b" by (metis div_mult_mod_eq)
  then show "a = b" by (simp add: word_unat_eq_iff)
qed

lemma hex_encode_inj: "hex_encode as = hex_encode bs \<Longrightarrow> as = bs"
proof (induction as arbitrary: bs)
  case Nil
  then show ?case by (cases bs) (simp_all add: hex_encode_def hex_byte_def)
next
  case (Cons a as)
  then obtain b bs' where bs: "bs = b # bs'" by (cases bs) (simp_all add: hex_encode_def hex_byte_def)
  with Cons.prems have "hex_byte a = hex_byte b" "hex_encode as = hex_encode bs'"
    by (simp_all add: hex_encode_def hex_byte_def)
  with Cons.IH bs show ?case by (simp add: hex_byte_inj)
qed

lemma addressToHex_Inr:
  "addressToHex b58 sha256 a = Inr h \<longleftrightarrow>
     length (b58 a) = 25 \<and> drop 21 (b58 a) = take 4 (doubleSHA256 sha256 (take 21 (b58 a))) \<and>
     b58 a ! 0 = 0x41 \<and> h = hex_encode (take 21 (b58 a))"
  by (auto simp: addressToHex_def Let_def)

text \<open>
  C35. \<open>addressToHex\<close> accepts exactly the addresses that decode to 25 bytes, namely the version
  byte 0x41, a payload of 20 bytes and, as the checksum, the first four bytes of the double
  SHA-256 of these 21; it then returns 41 and the payload in hexadecimal. Two addresses with
  the same result decode to the same bytes.
\<close>

theorem tron_address_to_hex:
  "(addressToHex b58 sha256 a = Inr h \<longleftrightarrow>
     (\<exists>payload check. b58 a = 0x41 # payload @ check \<and> length payload = 20 \<and> length check = 4 \<and>
        check = take 4 (doubleSHA256 sha256 (0x41 # payload)) \<and> h = ''41'' @ hex_encode payload)) \<and>
   (addressToHex b58 sha256 a = Inr h \<longrightarrow> addressToHex b58 sha256 b = Inr h \<longrightarrow> b58 b = b58 a)"
proof (intro conjI impI)
  have hex41: "hex_encode (0x41 # bs) = ''41'' @ hex_encode bs" for bs
    by (simp add: hex_encode_def hex_byte_def digit_char_def char_of_def bit_simps)
  show "addressToHex b58 sha256 a = Inr h \<longleftrightarrow>
     (\<exists>payload check. b58 a = 0x41 # payload @ check \<and> length payload = 20 \<and> length check = 4 \<and>
        check = take 4 (doubleSHA256 sha256 (0x41 # payload)) \<and> h = ''41'' @ hex_encode payload)" (is "?L \<longleftrightarrow> ?R")
  proof
    assume ?L
    then have l: "length (b58 a) = 25" and ck: "drop 21 (b58 a) = take 4 (doubleSHA256 sha256 (take 21 (b58 a)))"
      and v: "b58 a ! 0 = 0x41" and h: "h = hex_encode (take 21 (b58 a))" by (simp_all add: addressToHex_Inr)
    from l v obtain bs where b: "b58 a = 0x41 # bs" "length bs = 24" by (cases "b58 a") auto
    then have "b58 a = 0x41 # take 20 bs @ drop 20 bs" "length (take 20 bs) = 20" "length (drop 20 bs) = 4" by simp_all
    moreover have "drop 20 bs = take 4 (doubleSHA256 sha256 (0x41 # take 20 bs))" "h = ''41'' @ hex_encode (take 20 bs)"
      using ck h hex41 [of "take 20 bs"] by (simp_all add: b(1))
    ultimately show ?R by blast
  next
    assume ?R
    then show ?L by (auto simp: addressToHex_Inr hex41)
  qed
  assume "addressToHex b58 sha256 a = Inr h" "addressToHex b58 sha256 b = Inr h"
  moreover from this have "take 21 (b58 b) = take 21 (b58 a)" by (auto simp: addressToHex_Inr dest: hex_encode_inj)
  ultimately show "b58 b = b58 a" by (metis addressToHex_Inr append_take_drop_id)
qed

definition sample_address :: "byte list" where
  "sample_address = 0x41 # replicate 24 0"

lemma hex_encode_zeros: "hex_encode (replicate n 0) = replicate (2 * n) (CHR ''0'')"
  by (induction n) (simp_all add: hex_encode_def hex_byte_def digit_char_def char_of_def bit_simps)

theorem tron_address_to_hex_witness:
  "addressToHex (\<lambda>_. sample_address) (\<lambda>_. replicate 32 0) [] = Inr (''41'' @ replicate 40 (CHR ''0'')) \<and>
   (\<nexists>h. addressToHex (\<lambda>_. 0x42 # replicate 24 0) (\<lambda>_. replicate 32 0) [] = Inr h)"
proof
  have "sample_address = 0x41 # replicate 20 0 @ replicate 4 0" by (simp add: sample_address_def flip: replicate_add)
  then have "\<exists>payload check. sample_address = 0x41 # payload @ check \<and> length payload = 20 \<and> length check = 4 \<and>
      check = take 4 (doubleSHA256 (\<lambda>_. replicate 32 0) (0x41 # payload)) \<and>
      ''41'' @ replicate 40 (CHR ''0'') = ''41'' @ hex_encode payload"
    by (intro exI [of _ "replicate 20 0"] exI [of _ "replicate 4 0"]) (simp add: doubleSHA256_def hex_encode_zeros)
  then show "addressToHex (\<lambda>_. sample_address) (\<lambda>_. replicate 32 0) [] = Inr (''41'' @ replicate 40 (CHR ''0''))"
    by (rule tron_address_to_hex [THEN conjunct1, THEN iffD2])
  show "\<nexists>h. addressToHex (\<lambda>_. 0x42 # replicate 24 0) (\<lambda>_. replicate 32 0) [] = Inr h"
    using tron_address_to_hex [THEN conjunct1, of "\<lambda>_. 0x42 # replicate 24 0" "\<lambda>_. replicate 32 0" "[]"] by simp
qed

subsection \<open>TRON: the scan\<close>

text \<open>What an event to the receiving address is worth, once its value can be read.\<close>

definition event_value :: "decimal_lib \<Rightarrow> string \<Rightarrow> contract_event \<Rightarrow> tracked option" where
  "event_value lib addressHex ev =
     (if equal_fold (lookup_str (ce_Result ev) ''to'') addressHex
      then map_option (\<lambda>v. \<lparr>tr_amount = v / 10 ^ 6, tr_height = ce_BlockNumber ev\<rparr>)
             (dec_parse lib (lookup_str (ce_Result ev) ''value''))
      else None)"

lemma handleEvent_value:
  "handleEvent lib hex ev pend =
     (case event_value lib hex ev of None \<Rightarrow> pend | Some t \<Rightarrow> pend(ce_TransactionID ev \<mapsto> t))"
  by (auto simp: handleEvent_def event_value_def Let_def split: option.splits)

lemma tron_events_simps [simp]:
  "tron_events lib hex [] sc = sc"
  "tron_events lib hex (ev # evs) sc = tron_events lib hex evs (tron_event_step lib hex sc ev)"
  by (simp_all add: tron_events_def)

lemma tron_events_max:
  "ts_maxTimestamp sc \<le> ts_maxTimestamp (tron_events lib hex evs sc) \<and>
   (\<forall>ev\<in>set evs. ce_BlockTimestamp ev \<le> ts_maxTimestamp (tron_events lib hex evs sc))"
proof (induction evs arbitrary: sc)
  case (Cons ev evs)
  have "ts_maxTimestamp sc \<le> ts_maxTimestamp (tron_event_step lib hex sc ev)"
    "ce_BlockTimestamp ev \<le> ts_maxTimestamp (tron_event_step lib hex sc ev)"
    by (auto simp: tron_event_step_def)
  with Cons.IH [of "tron_event_step lib hex sc ev"] show ?case by auto
qed simp

lemma tron_events_max_le:
  "\<forall>ev\<in>set evs. ce_BlockTimestamp ev \<le> m \<Longrightarrow>
   ts_maxTimestamp (tron_events lib hex evs sc) \<le> max (ts_maxTimestamp sc) m"
proof (induction evs arbitrary: sc)
  case (Cons ev evs)
  have "ts_maxTimestamp (tron_events lib hex evs (tron_event_step lib hex sc ev)) \<le>
      max (ts_maxTimestamp (tron_event_step lib hex sc ev)) m"
    using Cons.prems by (intro Cons.IH) simp
  also have "\<dots> \<le> max (ts_maxTimestamp sc) m" using Cons.prems by (auto simp: tron_event_step_def)
  finally show ?case by simp
qed simp

lemma tron_events_pending:
  "ts_pending (tron_events lib hex evs sc) tx = Some t \<Longrightarrow>
   ts_pending sc tx = Some t \<or> (\<exists>ev\<in>set evs. ce_TransactionID ev = tx \<and> event_value lib hex ev = Some t)"
proof (induction evs arbitrary: sc)
  case (Cons ev evs)
  from Cons.IH [of "tron_event_step lib hex sc ev"] Cons.prems
  have "ts_pending (tron_event_step lib hex sc ev) tx = Some t \<or>
      (\<exists>ev\<in>set evs. ce_TransactionID ev = tx \<and> event_value lib hex ev = Some t)" by simp
  then show ?case
    by (auto simp: tron_event_step_def handleEvent_value split: option.splits if_splits)
qed simp

lemma scan_pages_max:
  "scan_pages lib hex fetch page n fp sc = (r, sc') \<Longrightarrow> ts_maxTimestamp sc \<le> ts_maxTimestamp sc'"
proof (induction n arbitrary: page fp sc)
  case (Suc n)
  show ?case
  proof (cases "fetch page fp")
    case (Inr resp)
    let ?m = "tron_events lib hex (er_Data resp) sc"
    have "ts_maxTimestamp sc \<le> ts_maxTimestamp ?m" using tron_events_max by blast
    moreover have "ts_maxTimestamp ?m \<le> ts_maxTimestamp sc'"
      using Suc Inr by (auto simp: Let_def split: if_splits)
    ultimately show ?thesis by simp
  qed (use Suc.prems in auto)
qed simp

lemma scan_pages_pending:
  "scan_pages lib hex fetch page n fp sc = (r, sc') \<Longrightarrow> ts_pending sc' tx = Some t \<Longrightarrow>
   ts_pending sc tx = Some t \<or>
   (\<exists>k f resp. fetch k f = Inr resp \<and>
      (\<exists>ev\<in>set (er_Data resp). ce_TransactionID ev = tx \<and> event_value lib hex ev = Some t))"
proof (induction n arbitrary: page fp sc)
  case (Suc n)
  show ?case
  proof (cases "fetch page fp")
    case (Inr resp)
    let ?m = "tron_events lib hex (er_Data resp) sc"
    have "ts_pending ?m tx = Some t \<or>
        (\<exists>k f resp. fetch k f = Inr resp \<and>
          (\<exists>ev\<in>set (er_Data resp). ce_TransactionID ev = tx \<and> event_value lib hex ev = Some t))"
      using Suc Inr by (auto simp: Let_def split: if_splits)
    with tron_events_pending [of lib hex "er_Data resp" sc tx t] Inr show ?thesis by blast
  qed (use Suc.prems in auto)
qed simp

text \<open>
  A TRON scan puts a transfer in flight only for an event of the contract to the
  receiving address (compared without case) whose value can be read, with that value in
  millionths and the event's block.
\<close>

lemma tron_scan_pending:
  assumes "scanNewEvents lib p latest w s = (r, w', s')" "tw_pending w' tx = Some t"
  shows "tw_pending w tx = Some t \<or>
    (\<exists>m k f resp. fetch_events p w m k f = Inr resp \<and>
      (\<exists>ev\<in>set (er_Data resp). ce_TransactionID ev = tx \<and> event_value lib (tw_addressHex w) ev = Some t))"
proof -
  obtain x s1 where g: "get_cursor (tw_cursors w) Chains.Tron s = (x, s1)" by (metis surj_pair)
  show ?thesis
  proof (cases x)
    case (Inl err)
    with assms g show ?thesis by (auto simp: scanNewEvents_def)
  next
    case (Inr y)
    obtain h prev where y: "y = (h, prev)" by (cases y)
    obtain z sc where sc: "scan_pages lib (tw_addressHex w) (fetch_events p w (min_timestamp p prev)) 0
        maxPagesPerPoll [] \<lparr>ts_maxBlock = 0, ts_maxTimestamp = 0, ts_pending = tw_pending w\<rparr> = (z, sc)"
      by (metis surj_pair)
    have "ts_pending sc tx = Some t"
      using assms g Inr y sc
      by (auto simp: scanNewEvents_def Let_def split: option.splits if_splits prod.splits sum.splits)
    from scan_pages_pending [OF sc this] show ?thesis by auto
  qed
qed

subsection \<open>Where the next scan resumes\<close>

lemma UnixMilli_ms: "in_i64 m \<Longrightarrow> UnixMilli (m * 1000000) = m"
  by (simp add: UnixMilli_def)

lemma Unix_s: "in_i64 m \<Longrightarrow> Unix (m * 1000000000) = m"
  by (simp add: Unix_def)

lemma ton_transfers_simps [simp]:
  "ton_transfers lib [] sc = sc"
  "ton_transfers lib (tr # trs) sc = ton_transfers lib trs (ton_transfer_step lib sc tr)"
  by (simp_all add: ton_transfers_def)

lemma ton_transfers_max:
  "ns_maxUtime sc \<le> ns_maxUtime (ton_transfers lib trs sc) \<and>
   (\<forall>tr\<in>set trs. jt_TransactionNow tr \<le> ns_maxUtime (ton_transfers lib trs sc))"
proof (induction trs arbitrary: sc)
  case (Cons tr trs)
  have "ns_maxUtime sc \<le> ns_maxUtime (ton_transfer_step lib sc tr)"
    "jt_TransactionNow tr \<le> ns_maxUtime (ton_transfer_step lib sc tr)"
    by (auto simp: ton_transfer_step_def)
  with Cons.IH [of "ton_transfer_step lib sc tr"] show ?case by auto
qed simp

text \<open>A scan of one page, as a working database and an answering server give it.\<close>

lemma tron_scan_one_page:
  assumes "tw_cursors w = world_cursors" "\<forall>n. healthy (w_env W n)" "world_view W Chains.Tron = (h, prev)"
    and "fetch_events p w (min_timestamp p prev) 0 [] = Inr resp"
    and "er_Fingerprint resp = [] \<or> length (er_Data resp) < eventsPageLimit"
    and "sc = tron_events lib (tw_addressHex w) (er_Data resp)
      \<lparr>ts_maxBlock = 0, ts_maxTimestamp = 0, ts_pending = tw_pending w\<rparr>"
    and "0 < ts_maxTimestamp sc"
  shows "\<exists>W'. scanNewEvents lib p latest w W = (Inr (), w\<lparr>tw_pending := ts_pending sc\<rparr>, W') \<and>
    world_view W' Chains.Tron = (ts_maxBlock sc, Some (ts_maxTimestamp sc * 1000000))"
proof -
  obtain W1 where g: "get_cursor world_cursors Chains.Tron W = (Inr (h, prev), W1)"
    and e: "w_env W1 = (\<lambda>n. w_env W (Suc n))"
    using world_get_runs [of W Chains.Tron] assms(2,3) by auto
  then obtain W2 where s: "set_cursor world_cursors Chains.Tron (ts_maxBlock sc) (ts_maxTimestamp sc * 1000000) W1 = (Inr (), W2)"
    "world_view W2 Chains.Tron = (ts_maxBlock sc, Some (ts_maxTimestamp sc * 1000000))"
    using world_set_runs [of W1 Chains.Tron "ts_maxBlock sc" "ts_maxTimestamp sc * 1000000"] assms(2) by auto
  have n: "maxPagesPerPoll = Suc 19" by (simp add: maxPagesPerPoll_def)
  have "scan_pages lib (tw_addressHex w) (fetch_events p w (min_timestamp p prev)) 0 maxPagesPerPoll []
      \<lparr>ts_maxBlock = 0, ts_maxTimestamp = 0, ts_pending = tw_pending w\<rparr> = (None, sc)"
    unfolding n assms(6) using assms(4,5) by (subst scan_pages.simps(2)) (simp add: Let_def)
  then show ?thesis using g s assms(1,7) by (simp add: scanNewEvents_def Let_def)
qed

text \<open>
  After a successful scan the stored cursor is the largest timestamp among the events
  received, and the next scan asks for events of a later timestamp only: an event of the
  same block that this scan did not receive is never asked for again.
\<close>

lemma tron_resumes_after_last_timestamp:
  assumes "tw_cursors w = world_cursors" "\<forall>n. healthy (w_env W n)" "world_view W Chains.Tron = (h, prev)"
    and "fetch_events p w (min_timestamp p prev) 0 [] = Inr resp"
    and "er_Fingerprint resp = [] \<or> length (er_Data resp) < eventsPageLimit"
    and "ev \<in> set (er_Data resp)" "0 < ce_BlockTimestamp ev"
    and "\<forall>ev'\<in>set (er_Data resp). ce_BlockTimestamp ev' \<le> ce_BlockTimestamp ev" "ce_BlockTimestamp ev < 2 ^ 62"
  shows "\<exists>w' W'. scanNewEvents lib p latest w W = (Inr (), w', W') \<and>
    min_timestamp p' (snd (world_view W' Chains.Tron)) = ce_BlockTimestamp ev + 1"
proof -
  let ?init = "\<lparr>ts_maxBlock = 0, ts_maxTimestamp = 0, ts_pending = tw_pending w\<rparr>"
  let ?sc = "tron_events lib (tw_addressHex w) (er_Data resp) ?init"
  have m: "ts_maxTimestamp ?sc = ce_BlockTimestamp ev"
    using tron_events_max_le [OF assms(8), of lib "tw_addressHex w" ?init] tron_events_max [of ?init lib "tw_addressHex w" "er_Data resp"]
      assms(6,7) by (intro antisym) auto
  have w: "in_i64 (ce_BlockTimestamp ev)" "in_i64 (ce_BlockTimestamp ev + 1)"
    using assms(7,9) by (auto simp: in_i64_def)
  show ?thesis
    using tron_scan_one_page [OF assms(1-5) refl, of lib latest] assms(7) w
    by (auto simp: m min_timestamp_def UnixMilli_ms)
qed

definition sample_event :: contract_event where
  "sample_event = \<lparr>ce_BlockNumber = 95, ce_BlockTimestamp = 1700000000000, ce_EventName = ''Transfer'',
     ce_Result = [''to'' \<mapsto> ''41AA'', ''value'' \<mapsto> ''5000000''],
     ce_TransactionID = ''t2'', ce_ContractAddress = []\<rparr>"

definition sample_event_poll :: tron_poll where
  "sample_event_poll = sample_tron_poll\<lparr>tp_decode_events :=
     (\<lambda>_. Some \<lparr>er_Success = True, er_Data = [sample_event], er_Fingerprint = [], er_PageSize = 1\<rparr>)\<rparr>"

lemma echo_tron_get:
  assumes "decode [] = Some x"
  shows "tron_get (newClient ''u'' [] []) echo_net path query decode = Inr x"
  using assms by (simp add: tron_get_def retry_def newClient_def maxAttemptsPerURL_def numeral_2_eq_2
      rest_step_def echo_net_def Let_def)

lemma sample_fetch:
  "fetch_events sample_event_poll sample_tron m k fp =
     Inr \<lparr>er_Success = True, er_Data = [sample_event], er_Fingerprint = [], er_PageSize = 1\<rparr>"
  by (simp add: fetch_events_def sample_event_poll_def sample_tron_poll_def sample_tron_def echo_tron_get)

lemma still_cursor: "world_view (still two_pending) Chains.Tron = (0, None)"
  by (simp add: world_view_def cursor_view_def two_pending_def empty_db_def)

lemma tron_resumes_after_last_timestamp_witness:
  "\<exists>w' W'. scanNewEvents reference_decimal sample_event_poll 100 sample_tron (still two_pending) = (Inr (), w', W') \<and>
     min_timestamp sample_event_poll (snd (world_view W' Chains.Tron)) = 1700000000001"
proof -
  have t: "ce_BlockTimestamp sample_event = 1700000000000" by (simp add: sample_event_def)
  have c: "tw_cursors sample_tron = world_cursors" by (simp add: sample_tron_def)
  have h: "\<forall>n. healthy (w_env (still two_pending) n)" by simp
  from tron_resumes_after_last_timestamp [OF c h still_cursor sample_fetch, of sample_event reference_decimal 100 sample_event_poll]
  show ?thesis by (simp add: t)
qed

text \<open>The amount of the sample event, as any decimal library that reads it gives it.\<close>

definition five_million :: decimal_lib where
  "five_million = reference_decimal\<lparr>dec_parse := (\<lambda>_. Some 5000000)\<rparr>"

lemma handle_sample_event:
  "handleEvent five_million ''41aa'' sample_event pend = pend(''t2'' \<mapsto> \<lparr>tr_amount = 5, tr_height = 95\<rparr>)"
  by (simp add: handleEvent_def sample_event_def lookup_str_def five_million_def equal_fold_def to_lower_def
      lower_char_def Let_def char_of_def bit_simps)

subsection \<open>TON\<close>



end
