(* ===== verification/SettlementProperties.thy ===== *)
theory SettlementProperties
  imports ScanProperties
begin

text \<open>
  The properties that go from a chain to an order: a transfer that a poll finds becomes a
  confirmed order, and the TRON and TON polls confirm what is in flight.
\<close>

subsection \<open>One payee\<close>

text \<open>\<open>only_payee tol chain amt a rows\<close>: order a, and no other, is pending for that amount.\<close>

definition only_payee :: "amount \<Rightarrow> string \<Rightarrow> amount \<Rightarrow> order \<Rightarrow> order list \<Rightarrow> bool" where
  "only_payee tol chain amt a rows \<longleftrightarrow>
     a \<in> set rows \<and> (\<forall>b\<in>set rows. free_pending chain b \<and> \<bar>o_expected b - amt\<bar> \<le> tol \<longleftrightarrow> b = a)"

lemma only_payeeD:
  assumes "only_payee tol chain amt a rows"
  shows "a \<in> set rows" "free_pending chain a" "\<bar>o_expected a - amt\<bar> \<le> tol"
    "b \<in> set rows \<Longrightarrow> free_pending chain b \<Longrightarrow> \<bar>o_expected b - amt\<bar> \<le> tol \<Longrightarrow> b = a"
  using assms by (auto simp: only_payee_def)

lemma OnTransfer_only_payee:
  assumes "healthy e" "db_ok d" "in_i32 (ev_confs ev)" "numeric20_8 (ev_amount ev) = Some x"
    and new: "\<not> (\<exists>b\<in>set (orders d). o_chain b = ev_chain ev \<and> o_tx b = Some (ev_tx ev))"
    and a: "only_payee (s_tolerance s) (ev_chain ev) (ev_amount ev) a (orders d)" "\<not> locked e (o_id a)"
  shows "fst (OnTransfer lib e s ev d) = Inr () \<and>
    claim_row (clock e UpdateClaim) (ev_tx ev) (ev_height ev) x (ev_confs ev) a
      \<in> set (orders (snd (OnTransfer lib e s ev d)))"
proof -
  have u: "unique_ok (orders d)" by (rule db_okD(1) [OF assms(2)])
  note p = only_payeeD [OF a(1)]
  have pa: "pays e s ev a" using p(2,3) a(2) by (simp add: pays_def exact_match_def)
  obtain a' where a': "a' \<in> set (orders d)" "pays e s ev a'"
    and r: "fst (OnTransfer lib e s ev d) = Inr ()"
      "ledger_of (snd (OnTransfer lib e s ev d)) = (ledger_of d)\<lparr>l_orders := (by_id (orders d))(o_id a' \<mapsto>
         claim_row (clock e UpdateClaim) (ev_tx ev) (ev_height ev) x (ev_confs ev) a')\<rparr>"
    by (rule OnTransfer_exact [OF assms(1) u assms(3) new assms(4) p(1) pa, of lib]) blast
  have "a' = a" using p(4) [OF a'(1)] a'(2) by (simp add: pays_def exact_match_def)
  with r have "by_id (orders (snd (OnTransfer lib e s ev d))) (o_id a) =
      Some (claim_row (clock e UpdateClaim) (ev_tx ev) (ev_height ev) x (ev_confs ev) a)"
    by (metis fun_upd_same ledger.select_convs(1) ledger.surjective ledger.update_convs(1) ledger_of_sel(1))
  with r(1) show ?thesis by (auto dest: by_id_SomeD)
qed

text \<open>
  A single report of such a payment, deep enough, with nothing else going on: the order is
  confirmed.
\<close>

lemma single_report_settles:
  assumes co: "cursors_only W W1" and W: "world_ok tol W" "\<forall>k. healthy (w_env W k)" "\<forall>k d. w_other W k d = d"
    and ev: "in_i32 (ev_confs ev)" "numeric20_8 (ev_amount ev) = Some x" "o_required a \<le> ev_confs ev"
    and a: "only_payee (s_tolerance s) (ev_chain ev) (ev_amount ev) a (orders (w_db W))"
      "\<forall>k. \<not> locked (w_env W k) (o_id a)"
      "\<forall>b\<in>set (orders (w_db W)). \<not> (o_chain b = ev_chain ev \<and> o_tx b = Some (ev_tx ev))"
  shows "\<exists>b\<in>set (orders (w_db (deliver (service_sink lib s) [ev] W1))). o_id b = o_id a \<and> o_status b = Confirmed \<and>
    o_tx b = Some (ev_tx ev) \<and> o_height b = Some (ev_height ev) \<and> o_received b = Some x"
proof -
  let ?e = "w_env W1 0" and ?d = "w_db W1"
  let ?b = "claim_row (clock ?e UpdateClaim) (ev_tx ev) (ev_height ev) x (ev_confs ev) a"
  have W1: "healthy ?e" "\<not> locked ?e (o_id a)" "w_other W1 0 ?d = ?d" "orders ?d = orders (w_db W)" "db_ok ?d"
    using co W a(2) by (auto simp: cursors_only_def world_ok_def)
  have "?b \<in> set (orders (snd (OnTransfer lib ?e s ev ?d)))"
    using OnTransfer_only_payee [OF W1(1,5) ev(1,2), of s a lib] W1(2,4) a(1,3) by simp
  moreover have "w_db (deliver (service_sink lib s) [ev] W1) = snd (OnTransfer lib ?e s ev ?d)"
    by (simp add: service_sink_def next_call_def W1(3) split: prod.split)
  moreover have "o_id ?b = o_id a" "o_status ?b = Confirmed" "o_tx ?b = Some (ev_tx ev)"
    "o_height ?b = Some (ev_height ev)" "o_received ?b = Some x"
    using ev(3) by (simp_all add: claim_row_def progress_status_def)
  ultimately show ?thesis by metis
qed

text \<open>The range over a set of one transfer.\<close>

lemma range_order_single: "range_order ks m \<Longrightarrow> dom m = {tx} \<Longrightarrow> ks = [tx]"
  by (cases ks) (auto simp: range_order_def dest!: subset_singletonD)

text \<open>
  C12. From the chain to the order in one poll. When the node has one new transfer to the
  address since the stored cursor, deep enough for the order it pays, the order is the only
  one pending for that amount, and nothing else happens meanwhile, then the poll of the EVM
  watcher confirms the order, with the transaction, its block and the amount received.
\<close>

theorem onchain_payment_confirms_order:
  assumes w: "em_sink w = service_sink lib s" "em_cursors w = world_cursors" "em_pending w = Map.empty"
      "in_bounds w latest" "latest < 2 ^ 31 - 1"
    and node: "blockNumber p w = Inr latest" "\<forall>a b. get_logs p w a b = Inr (logs_between hist a b)"
      "sorted (map log_block hist)" "logs_between hist (first_block h latest) latest = [l]"
      "\<And>m. dom m = {l_txHash l} \<Longrightarrow> range_order (ep_range p m) m"
    and l: "3 \<le> length (l_topics l)" "parseHexBigInt (l_data l) = Inr n" "parseHexQuantity (l_blockNumber l) = Inr hb"
      "0 \<le> hb" "hb \<le> latest" "hb + o_required a - 1 \<le> latest" "numeric20_8 (of_int n / 10 ^ 6) = Some x"
    and W: "world_ok (s_tolerance s) W" "\<forall>k. healthy (w_env W k)" "\<forall>k d. w_other W k d = d"
      "world_view W (em_chain w) = (h, t)" "0 \<le> h" "h < 2 ^ 62" "first_block h latest \<le> latest"
    and a: "only_payee (s_tolerance s) (em_chain w) (of_int n / 10 ^ 6) a (orders (w_db W))"
      "\<forall>k. \<not> locked (w_env W k) (o_id a)"
      "\<forall>b\<in>set (orders (w_db W)). \<not> (o_chain b = em_chain w \<and> o_tx b = Some (l_txHash l))"
  shows "\<exists>w2 W2. evm_pollOnce p w W = Some (Inr (), w2, W2) \<and>
    (\<exists>b\<in>set (orders (w_db W2)). o_id b = o_id a \<and> o_status b = Confirmed \<and> o_tx b = Some (l_txHash l) \<and>
       o_height b = Some hb \<and> o_received b = Some x)"
proof -
  let ?tx = "l_txHash l"
  define tr where "tr = \<lparr>tr_amount = of_int n / 10 ^ 6, tr_height = hb\<rparr>"
  have tr: "tr_amount tr = of_int n / 10 ^ 6" "tr_height tr = hb" by (simp_all add: tr_def)
  let ?w1 = "w\<lparr>em_pending := [?tx \<mapsto> tr]\<rparr>"
  have "handle_logs [l] Map.empty = [?tx \<mapsto> tr]"
    using l(1-3) by (simp add: handle_logs_def handleLog_def Let_def tr_def)
  then obtain W1 where sc: "scanNewLogs p latest w W = Some (Inr (), ?w1, W1)"
    using scan_history [OF w(2,4) W(4-7) node(2,3) W(2)] w(3) node(4) by auto
  have co: "cursors_only W W1" using evm_scan_world [OF w(2) sc] by simp
  have rng: "range_order (ep_range p [?tx \<mapsto> tr]) [?tx \<mapsto> tr]" by (rule node(5)) simp
  then have one: "ep_range p [?tx \<mapsto> tr] = [?tx]" by (rule range_order_single) simp
  define ev where "ev = evm_event p latest ?w1 ?tx tr"
  have ev: "ev_chain ev = em_chain w" "ev_tx ev = ?tx" "ev_amount ev = of_int n / 10 ^ 6" "ev_height ev = hb"
    "ev_confs ev = latest - hb + 1"
    using height_confs_small [of latest hb] l(4,5) w(5) by (simp_all add: ev_def evm_event_def emitted_confs_max tr)
  have k: "in_i32 (ev_confs ev)" "o_required a \<le> ev_confs ev" using l(4-6) w(5) by (simp_all add: ev in_i32_def)
  have "\<exists>w2. evm_pollOnce p w W = Some (Inr (), w2, deliver (service_sink lib s) [ev] W1)"
    using evm_refresh_eq [of p ?w1 latest W1] rng w(1) by (simp add: evm_pollOnce_def node(1) sc one ev_def)
  moreover have "\<exists>b\<in>set (orders (w_db (deliver (service_sink lib s) [ev] W1))). o_id b = o_id a \<and> o_status b = Confirmed \<and>
      o_tx b = Some ?tx \<and> o_height b = Some hb \<and> o_received b = Some x"
    using single_report_settles [OF co W(1-3) k(1) _ k(2), of x s lib] l(7) a by (simp add: ev)
  ultimately show ?thesis by blast
qed

text \<open>An order for 10.0001 on Polygon, and the sample log that pays it in block 95.\<close>

definition order_P :: order where
  "order_P = new_order 1 ''alice'' Polygon 10 1 3 100 1000"

definition one_waiting :: db where
  "one_waiting = (db_at 90)\<lparr>orders := [order_P]\<rparr>"

lemma one_waiting_sel [simp]:
  "orders one_waiting = [order_P]" "reviews one_waiting = []" "audit one_waiting = []"
  "world_view (still one_waiting) Polygon = (90, None)"
  by (simp_all add: one_waiting_def db_at_def empty_db_def world_view_def cursor_view_def)

lemma db_ok_one_waiting: "db_ok one_waiting"
  by (simp add: db_ok_def unique_ok_def order_P_def new_order_def order_ok_def untouched_def)

theorem onchain_payment_confirms_order_witness:
  "\<exists>w2 W2 b. evm_pollOnce (node_poll [sample_log] 100 7 one_range) sample_watcher (still one_waiting) = Some (Inr (), w2, W2) \<and>
     b \<in> set (orders (w_db W2)) \<and> o_id b = 1 \<and> o_status b = Confirmed \<and> o_tx b = Some ''t''"
proof -
  let ?p = "node_poll [sample_log] 100 7 one_range"
  have l: "l_txHash sample_log = ''t''" "length (l_topics sample_log) = 3"
    "parseHexBigInt (l_data sample_log) = Inr 10000100" "parseHexQuantity (l_blockNumber sample_log) = Inr 95"
    by (simp_all add: sample_log_def parseHexBigInt_toHexQuantity parse_toHexQuantity in_i64_def)
  have f: "first_block 90 100 = 91" by (simp add: first_block_def in_i64_def)
  have b: "blockNumber ?p sample_watcher = Inr 100" by (rule node_blockNumber) (simp_all add: in_i64_def)
  have g: "\<forall>a b. get_logs ?p sample_watcher a b = Inr (logs_between [sample_log] a b)"
    using node_get_logs [of sample_watcher] by simp
  have rg: "range_order (ep_range ?p m) m" if "dom m = {l_txHash sample_log}" for m
    using that range_order_one [of m] by (simp add: node_poll_def l)
  have n: "numeric20_8 (of_int 10000100 / 10 ^ 6) = Some (100001 / 10000)"
    using numeric20_8_4 [of 100001] by simp
  have a: "only_payee (s_tolerance default_service) (em_chain sample_watcher) (of_int 10000100 / 10 ^ 6) order_P
      (orders (w_db (still one_waiting)))" "o_id order_P = 1" "o_required order_P = 3" "o_tx order_P = None"
    by (simp_all add: only_payee_def order_P_def new_order_def free_pending_def)
  show ?thesis
    using onchain_payment_confirms_order [of sample_watcher reference_decimal default_service 100 ?p "[sample_log]" 90 sample_log
        10000100 95 order_P "100001 / 10000" "still one_waiting" None] b g rg n a l f
    by (simp add: sample_bounds still_ok db_ok_one_waiting logs_between_def) blast
qed

subsection \<open>TRON and TON\<close>

lemma tron_scan_world:
  assumes "tw_cursors w = world_cursors" "scanNewEvents lib p latest w W = (r, w1, W1)"
  shows "cursors_only W W1 \<and> (\<exists>pend. w1 = w\<lparr>tw_pending := pend\<rparr>)"
proof -
  have id: "\<exists>pend. w = w\<lparr>tw_pending := pend\<rparr>" by (intro exI [of _ "tw_pending w"]) simp
  obtain x Wg where g: "get_cursor world_cursors Chains.Tron W = (x, Wg)" by (metis surj_pair)
  note og = world_cursors_only(1) [OF g]
  have set: "cursors_only W W2" if "set_cursor world_cursors Chains.Tron h t Wg = (x2, W2)" for h t x2 W2
    by (rule cursors_only_trans [OF og world_cursors_only(2) [OF that]])
  show ?thesis
    using assms og id by (auto simp: scanNewEvents_def g Let_def split: sum.splits prod.splits option.splits if_splits
        intro: set)
qed

lemma ton_scan_world:
  assumes "nw_cursors w = world_cursors" "scanNewTransfers lib p w W = (r, w1, W1)"
  shows "cursors_only W W1 \<and> (\<exists>pend. w1 = w\<lparr>nw_pending := pend\<rparr>)"
proof -
  have id: "\<exists>pend. w = w\<lparr>nw_pending := pend\<rparr>" by (intro exI [of _ "nw_pending w"]) simp
  obtain x Wg where g: "get_cursor world_cursors TON W = (x, Wg)" by (metis surj_pair)
  note og = world_cursors_only(1) [OF g]
  have set: "cursors_only W W2" if "set_cursor world_cursors TON h t Wg = (x2, W2)" for h t x2 W2
    by (rule cursors_only_trans [OF og world_cursors_only(2) [OF that]])
  show ?thesis
    using assms og id by (auto simp: scanNewTransfers_def g Let_def split: sum.splits prod.splits option.splits if_splits
        intro: set)
qed

text \<open>
  The polls of the TRON and TON watchers confirm the order of every transfer in flight
  that has reached the confirmations the order requires (on TON: five seconds each),
  whatever the other goroutines do to the database meanwhile.
\<close>

lemma tron_and_ton_polls_confirm:
  assumes W: "world_ok (s_tolerance s) W" "\<forall>n. healthy (w_env W n)"
    and a: "a \<in> set (orders (w_db W))" "o_status a \<in> {Confirming, Confirmed}" "o_tx a = Some tx"
    and tron: "tw_sink v = service_sink lib s" "tw_cursors v = world_cursors" "getLatestBlock q v = Inr latest"
      "scanNewEvents lib q latest v W = (rv, v1, Wv)" "range_order (tp_range q (tw_pending v1)) (tw_pending v1)"
      "tw_pending v1 tx = Some tv" "0 \<le> tr_height tv" "tr_height tv \<le> latest" "latest < 2 ^ 31 - 1"
    and ton: "nw_sink u = service_sink lib s" "nw_cursors u = world_cursors"
      "scanNewTransfers lib z u W = (ru, u1, Wu)" "range_order (np_range z (nw_pending u1)) (nw_pending u1)"
      "nw_pending u1 tx = Some tu" "in_i32 (ton_confs (Unix (np_start z)) (to_observed tu))"
  shows "(o_chain a = Chains.Tron \<and> tr_height tv + o_required a - 1 \<le> latest \<longrightarrow>
      (\<exists>v2 W2. tron_pollOnce lib q v W = (Inr (), v2, W2) \<and>
        (\<exists>b\<in>set (orders (w_db W2)). o_id b = o_id a \<and> o_status b = Confirmed))) \<and>
    (o_chain a = TON \<and> o_required a \<le> ton_confs (Unix (np_start z)) (to_observed tu) \<longrightarrow>
      (\<exists>u2 W2. ton_pollOnce lib z u W = (Inr (), u2, W2) \<and>
        (\<exists>b\<in>set (orders (w_db W2)). o_id b = o_id a \<and> o_status b = Confirmed)))"
proof (intro conjI impI; elim conjE)
  assume c: "o_chain a = Chains.Tron" and enough: "tr_height tv + o_required a - 1 \<le> latest"
  obtain co: "cursors_only W Wv" and v1: "tw_sink v1 = service_sink lib s"
    using tron_scan_world [OF tron(2,4)] tron(1) by auto
  let ?evs = "map (\<lambda>tx. tron_event q latest tx (the (tw_pending v1 tx))) (tp_range q (tw_pending v1))"
  have ev: "tron_event q latest tx tv \<in> set ?evs" using tron(5,6) by (force simp: range_order_def)
  have k: "ev_confs (tron_event q latest tx tv) = latest - tr_height tv + 1"
    using height_confs_small [of latest "tr_height tv"] tron(7-9) by (simp add: tron_event_def emitted_confs_max)
  have k': "in_i32 (ev_confs (tron_event q latest tx tv))" "o_required a \<le> ev_confs (tron_event q latest tx tv)"
    using tron(7-9) enough by (auto simp: k in_i32_def)
  have "\<exists>b\<in>set (orders (w_db (deliver (service_sink lib s) ?evs Wv))). o_id b = o_id a \<and> o_status b = Confirmed"
    by (rule in_flight_confirms [OF co W ev k' a(1,2)]) (use a(3) c in \<open>auto simp: tron_event_def\<close>)
  then show "\<exists>v2 W2. tron_pollOnce lib q v W = (Inr (), v2, W2) \<and>
      (\<exists>b\<in>set (orders (w_db W2)). o_id b = o_id a \<and> o_status b = Confirmed)"
    by (simp add: tron_pollOnce_def tron(3,4) tron_refreshConfirmations_def report_items_range [OF tron(5)] v1)
next
  assume c: "o_chain a = TON" and enough: "o_required a \<le> ton_confs (Unix (np_start z)) (to_observed tu)"
  obtain co: "cursors_only W Wu" and u1: "nw_sink u1 = service_sink lib s"
    using ton_scan_world [OF ton(2,3)] ton(1) by auto
  let ?evs = "map (\<lambda>tx. ton_event z (Unix (np_start z)) tx (the (nw_pending u1 tx))) (np_range z (nw_pending u1))"
  have ev: "ton_event z (Unix (np_start z)) tx tu \<in> set ?evs" using ton(4,5) by (force simp: range_order_def)
  have "\<exists>b\<in>set (orders (w_db (deliver (service_sink lib s) ?evs Wu))). o_id b = o_id a \<and> o_status b = Confirmed"
    by (rule in_flight_confirms [OF co W ev _ _ a(1,2)])
      (use ton(6) enough a(3) c in \<open>auto simp: ton_event_def\<close>)
  then show "\<exists>u2 W2. ton_pollOnce lib z u W = (Inr (), u2, W2) \<and>
      (\<exists>b\<in>set (orders (w_db W2)). o_id b = o_id a \<and> o_status b = Confirmed)"
    by (simp add: ton_pollOnce_def Let_def ton(3) ton_refreshConfirmations_def report_items_range [OF ton(4)] u1)
qed

end
