(* ===== verification/PagingProperties.thy ===== *)
theory PagingProperties
  imports SettlementProperties
begin

text \<open>
  The page loops of the TRON and TON scans against a server that answers from its history:
  what one scan handles, and where it leaves the cursor.
\<close>

subsection \<open>TRON\<close>

text \<open>
  Page i of a list of events. A fingerprint is an opaque token for the next page; the last
  page has none.
\<close>

definition event_page :: "(nat \<Rightarrow> string) \<Rightarrow> contract_event list \<Rightarrow> nat \<Rightarrow> events_response" where
  "event_page token evs i =
     \<lparr>er_Success = True, er_Data = take eventsPageLimit (drop (i * eventsPageLimit) evs),
      er_Fingerprint = (if Suc i * eventsPageLimit < length evs then token (Suc i) else []),
      er_PageSize = int (min eventsPageLimit (length evs - i * eventsPageLimit))\<rparr>"

text \<open>
  The events of the history from a timestamp on, in the order of their timestamps, which is
  what the query asks for.
\<close>

definition events_from :: "contract_event list \<Rightarrow> int \<Rightarrow> contract_event list" where
  "events_from hist m = filter (\<lambda>ev. m \<le> ce_BlockTimestamp ev) (sort_key ce_BlockTimestamp hist)"

lemma tron_events_append: "tron_events lib hex (xs @ ys) sc = tron_events lib hex ys (tron_events lib hex xs sc)"
  by (simp add: tron_events_def)

text \<open>The last page is all that is left.\<close>

lemma sorted_last_max: "sorted (map f xs) \<Longrightarrow> \<forall>x\<in>set xs. f x \<le> f (List.last xs)"
  by (induction xs) auto

lemma take_last: "length xs \<le> k + n \<Longrightarrow> take (n + m) (drop k xs) = take n (drop k xs)"
  by simp

lemma scan_pages_history:
  assumes server: "\<And>i. i = 0 \<or> i * eventsPageLimit < length evs \<Longrightarrow> fetch i (token i) = Inr (event_page token evs i)"
      "\<And>i. token (Suc i) \<noteq> []"
    and "i = 0 \<or> i * eventsPageLimit < length evs"
  shows "scan_pages lib hex fetch i n (token i) sc =
    (None, tron_events lib hex (take (n * eventsPageLimit) (drop (i * eventsPageLimit) evs)) sc)"
  using assms(3)
proof (induction n arbitrary: i sc)
  case 0
  show ?case by (simp add: tron_events_def)
next
  case (Suc n)
  let ?L = eventsPageLimit and ?page = "event_page token evs i"
  have f: "fetch i (token i) = Inr ?page" by (rule server(1) [OF Suc.prems])
  have d: "er_Data ?page = take ?L (drop (i * ?L) evs)" by (simp add: event_page_def)
  have more: "er_Fingerprint ?page = [] \<or> length (er_Data ?page) < ?L \<longleftrightarrow> \<not> Suc i * ?L < length evs"
    using server(2) [of i] by (auto simp: event_page_def)
  show ?case
  proof (cases "Suc i * ?L < length evs")
    case True
    then have "er_Fingerprint ?page = token (Suc i)" by (simp add: event_page_def)
    moreover have "take (Suc n * ?L) (drop (i * ?L) evs) = take ?L (drop (i * ?L) evs) @ take (n * ?L) (drop (Suc i * ?L) evs)"
      by (simp add: take_add)
    ultimately show ?thesis using True more Suc.IH [of "Suc i"] by (simp add: f Let_def d tron_events_append)
  next
    case False
    then show ?thesis using more take_last [of evs "i * ?L" ?L "n * ?L"] by (simp add: f Let_def d add.commute)
  qed
qed

lemma tron_events_last:
  assumes "sorted (map ce_BlockTimestamp evs)" "evs \<noteq> []" "ts_maxTimestamp sc \<le> ce_BlockTimestamp (List.last evs)"
  shows "ts_maxTimestamp (tron_events lib hex evs sc) = ce_BlockTimestamp (List.last evs)"
proof (rule antisym)
  have "\<forall>ev\<in>set evs. ce_BlockTimestamp ev \<le> ce_BlockTimestamp (List.last evs)"
    using assms(1) by (rule sorted_last_max)
  with tron_events_max_le [OF this, of lib hex sc] assms(3)
  show "ts_maxTimestamp (tron_events lib hex evs sc) \<le> ce_BlockTimestamp (List.last evs)" by simp
  show "ce_BlockTimestamp (List.last evs) \<le> ts_maxTimestamp (tron_events lib hex evs sc)"
    using tron_events_max assms(2) by auto
qed

definition handle_events :: "decimal_lib \<Rightarrow> string \<Rightarrow> contract_event list \<Rightarrow> tracked tracking \<Rightarrow> tracked tracking" where
  "handle_events lib hex evs pend = foldl (\<lambda>pend ev. handleEvent lib hex ev pend) pend evs"

lemma ts_pending_events: "ts_pending (tron_events lib hex evs sc) = handle_events lib hex evs (ts_pending sc)"
  by (induction evs arbitrary: sc) (simp_all add: handle_events_def tron_event_step_def)

lemma handle_events_Nil [simp]: "handle_events lib hex [] pend = pend"
  by (simp add: handle_events_def)

text \<open>With distinct keys in order, what comes after the first n elements are the larger keys.\<close>

lemma filter_after_take:
  fixes f :: "'a \<Rightarrow> int"
  assumes "sorted_wrt (<) (map f xs)" "take n xs \<noteq> []"
  shows "filter (\<lambda>x. f (List.last (take n xs)) + 1 \<le> f x) xs = drop n xs"
proof -
  have s: "sorted_wrt (<) (map f (take n xs @ drop n xs))" using assms(1) by simp
  have "\<forall>x\<in>set (take n xs). f x \<le> f (List.last (take n xs))"
    using sorted_wrt_take [OF assms(1), of n] unfolding take_map
    by (intro sorted_last_max strict_sorted_imp_sorted)
  then have "filter (\<lambda>x. f (List.last (take n xs)) + 1 \<le> f x) (take n xs) = []"
    by (auto simp: filter_empty_conv)
  moreover have "f (List.last (take n xs)) < f x" if "x \<in> set (drop n xs)" for x
    using s that last_in_set [OF assms(2)] unfolding map_append sorted_wrt_append by auto
  then have "filter (\<lambda>x. f (List.last (take n xs)) + 1 \<le> f x) (drop n xs) = drop n xs"
    by (intro filter_True) force
  ultimately show ?thesis by (metis append_self_conv2 append_take_drop_id filter_append)
qed

lemma events_from_later:
  "m \<le> m' \<Longrightarrow> events_from hist m' = filter (\<lambda>ev. m' \<le> ce_BlockTimestamp ev) (events_from hist m)"
  by (auto simp: events_from_def intro!: filter_cong)

lemma sorted_events_from: "sorted (map ce_BlockTimestamp (events_from hist m))"
  unfolding events_from_def by (intro sorted_filter) simp

lemma events_from_ge: "ev \<in> set (events_from hist m) \<Longrightarrow> m \<le> ce_BlockTimestamp ev"
  by (simp add: events_from_def)

text \<open>
  A scan handles the first 4000 events (20 pages) of the history from the cursor on, and
  leaves the cursor at the last of them. When no two events share a timestamp, the next
  scan begins with the event after it.
\<close>

lemma tron_scan_seen:
  assumes w: "tw_cursors w = world_cursors" "\<forall>n. healthy (w_env W n)" "world_view W Chains.Tron = (h, prev)"
    and pages: "scan_pages lib (tw_addressHex w) (fetch_events p w m) 0 maxPagesPerPoll []
        \<lparr>ts_maxBlock = 0, ts_maxTimestamp = 0, ts_pending = tw_pending w\<rparr> =
      (None, tron_events lib (tw_addressHex w) seen \<lparr>ts_maxBlock = 0, ts_maxTimestamp = 0, ts_pending = tw_pending w\<rparr>)"
    and m: "m = min_timestamp p prev" "0 < m" "sorted (map ce_BlockTimestamp seen)" "\<forall>ev\<in>set seen. m \<le> ce_BlockTimestamp ev"
  shows "\<exists>W'. scanNewEvents lib p latest w W =
      (Inr (), w\<lparr>tw_pending := handle_events lib (tw_addressHex w) seen (tw_pending w)\<rparr>, W') \<and>
    cursors_only W W' \<and>
    snd (world_view W' Chains.Tron) = (if seen = [] then prev else Some (ce_BlockTimestamp (List.last seen) * 1000000))"
proof -
  define init where "init = \<lparr>ts_maxBlock = 0, ts_maxTimestamp = 0, ts_pending = tw_pending w\<rparr>"
  define sc where "sc = tron_events lib (tw_addressHex w) seen init"
  have pend: "ts_pending sc = handle_events lib (tw_addressHex w) seen (tw_pending w)"
    by (simp add: sc_def ts_pending_events init_def)
  note pages = pages [folded init_def, folded sc_def]
  obtain W1 where g: "get_cursor world_cursors Chains.Tron W = (Inr (h, prev), W1)" "world_view W1 = world_view W"
    and e: "w_env W1 = (\<lambda>n. w_env W (Suc n))"
    using world_get_runs [of W Chains.Tron] w(2,3) by auto
  note o1 = world_cursors_only(1) [OF g(1)]
  show ?thesis
  proof (cases "seen = []")
    case True
    then have "ts_maxTimestamp sc = 0" by (simp add: sc_def init_def)
    then show ?thesis using g w True pages pend o1
      by (simp add: scanNewEvents_def Let_def init_def [symmetric] m(1))
  next
    case False
    have lastin: "m \<le> ce_BlockTimestamp (List.last seen)" using last_in_set [OF False] m(4) by blast
    have t: "ts_maxTimestamp sc = ce_BlockTimestamp (List.last seen)"
      unfolding sc_def using lastin m(2) by (intro tron_events_last [OF m(3) False]) (simp add: init_def)
    obtain W2 where s: "set_cursor world_cursors Chains.Tron (ts_maxBlock sc) (ts_maxTimestamp sc * 1000000) W1 = (Inr (), W2)"
      "world_view W2 Chains.Tron = (ts_maxBlock sc, Some (ts_maxTimestamp sc * 1000000))"
      using world_set_runs [of W1 Chains.Tron "ts_maxBlock sc" "ts_maxTimestamp sc * 1000000"] w(2) e by auto
    from cursors_only_trans [OF o1 world_cursors_only(2) [OF s(1)]]
    show ?thesis using g s w False pages pend lastin m(2) t
      by (simp add: scanNewEvents_def Let_def init_def [symmetric] m(1) [symmetric])
  qed
qed

lemma tron_scan_history:
  assumes w: "tw_cursors w = world_cursors" "\<forall>n. healthy (w_env W n)" "world_view W Chains.Tron = (h, prev)"
    and server: "\<And>i. i = 0 \<or> i * eventsPageLimit < length (events_from hist m) \<Longrightarrow>
        fetch_events p w m i (token i) = Inr (event_page token (events_from hist m) i)"
      "token 0 = []" "\<And>i. token (Suc i) \<noteq> []"
    and m: "m = min_timestamp p prev" "0 < m" "seen = take 4000 (events_from hist m)"
  shows "\<exists>W'. scanNewEvents lib p latest w W =
      (Inr (), w\<lparr>tw_pending := handle_events lib (tw_addressHex w) seen (tw_pending w)\<rparr>, W') \<and>
    cursors_only W W' \<and>
    snd (world_view W' Chains.Tron) = (if seen = [] then prev else Some (ce_BlockTimestamp (List.last seen) * 1000000))"
proof (rule tron_scan_seen [OF w _ m(1,2)])
  show "scan_pages lib (tw_addressHex w) (fetch_events p w m) 0 maxPagesPerPoll [] sc =
      (None, tron_events lib (tw_addressHex w) seen sc)" for sc
    using scan_pages_history [where fetch = "fetch_events p w m", OF server(1,3), of 0 lib "tw_addressHex w" maxPagesPerPoll sc] server(2)
    by (simp add: m(3) maxPagesPerPoll_def eventsPageLimit_def)
  show "sorted (map ce_BlockTimestamp seen)"
    using sorted_wrt_take [OF sorted_events_from [of hist m], of 4000] unfolding m(3) take_map .
  show "\<forall>ev\<in>set seen. m \<le> ce_BlockTimestamp ev"
    unfolding m(3) by (blast dest: in_set_takeD events_from_ge)
qed

subsection \<open>TON\<close>

definition transfers_from :: "jetton_transfer list \<Rightarrow> int \<Rightarrow> jetton_transfer list" where
  "transfers_from hist m = filter (\<lambda>tr. m \<le> jt_TransactionNow tr) (sort_key jt_TransactionNow hist)"

definition handle_transfers :: "decimal_lib \<Rightarrow> jetton_transfer list \<Rightarrow> ton_tracked tracking \<Rightarrow> ton_tracked tracking" where
  "handle_transfers lib trs pend = foldl (\<lambda>pend tr. handleTransfer lib tr pend) pend trs"

lemma handle_transfers_Nil [simp]: "handle_transfers lib [] pend = pend"
  by (simp add: handle_transfers_def)

lemma ns_pending_transfers: "ns_pending (ton_transfers lib trs sc) = handle_transfers lib trs (ns_pending sc)"
  by (induction trs arbitrary: sc) (simp_all add: handle_transfers_def ton_transfer_step_def)

lemma ton_transfers_append: "ton_transfers lib (xs @ ys) sc = ton_transfers lib ys (ton_transfers lib xs sc)"
  by (simp add: ton_transfers_def)

lemma ton_scan_pages_history:
  assumes server: "\<And>i. i * transfersPageLimit \<le> length trs \<Longrightarrow>
      fetch i (int (i * transfersPageLimit)) = Inr (take transfersPageLimit (drop (i * transfersPageLimit) trs))"
    and "i * transfersPageLimit \<le> length trs"
  shows "ton_scan_pages lib fetch i n (int (i * transfersPageLimit)) sc =
    (None, ton_transfers lib (take (n * transfersPageLimit) (drop (i * transfersPageLimit) trs)) sc)"
  using assms(2)
proof (induction n arbitrary: i sc)
  case (Suc n)
  let ?L = transfersPageLimit
  note f = server [OF Suc.prems]
  show ?case
  proof (cases "Suc i * ?L \<le> length trs")
    case True
    then have "\<not> length (take ?L (drop (i * ?L) trs)) < ?L" by simp
    moreover have "take (Suc n * ?L) (drop (i * ?L) trs) = take ?L (drop (i * ?L) trs) @ take (n * ?L) (drop (Suc i * ?L) trs)"
      by (simp add: take_add)
    ultimately show ?thesis using Suc.IH [OF True] f by (simp add: Let_def ton_transfers_append add.commute)
  next
    case False
    then have "length (take ?L (drop (i * ?L) trs)) < ?L" using Suc.prems by auto
    then show ?thesis using take_last [of trs "i * ?L" ?L "n * ?L"] False f by (simp add: Let_def)
  qed
qed (simp add: ton_transfers_def)

lemma ton_transfers_max_le:
  "\<forall>tr\<in>set trs. jt_TransactionNow tr \<le> m \<Longrightarrow> ns_maxUtime (ton_transfers lib trs sc) \<le> max (ns_maxUtime sc) m"
proof (induction trs arbitrary: sc)
  case (Cons tr trs)
  have "ns_maxUtime (ton_transfers lib trs (ton_transfer_step lib sc tr)) \<le> max (ns_maxUtime (ton_transfer_step lib sc tr)) m"
    using Cons.prems by (intro Cons.IH) simp
  also have "\<dots> \<le> max (ns_maxUtime sc) m" using Cons.prems by (auto simp: ton_transfer_step_def)
  finally show ?case by simp
qed simp

lemma ton_transfers_last:
  assumes "sorted (map jt_TransactionNow trs)" "trs \<noteq> []" "ns_maxUtime sc \<le> jt_TransactionNow (List.last trs)"
  shows "ns_maxUtime (ton_transfers lib trs sc) = jt_TransactionNow (List.last trs)"
proof (rule antisym)
  have "\<forall>tr\<in>set trs. jt_TransactionNow tr \<le> jt_TransactionNow (List.last trs)"
    using assms(1) by (rule sorted_last_max)
  with ton_transfers_max_le [OF this, of lib sc] assms(3)
  show "ns_maxUtime (ton_transfers lib trs sc) \<le> jt_TransactionNow (List.last trs)" by simp
  show "jt_TransactionNow (List.last trs) \<le> ns_maxUtime (ton_transfers lib trs sc)"
    using ton_transfers_max assms(2) by auto
qed

lemma transfers_from_later:
  "m \<le> m' \<Longrightarrow> transfers_from hist m' = filter (\<lambda>tr. m' \<le> jt_TransactionNow tr) (transfers_from hist m)"
  by (auto simp: transfers_from_def intro!: filter_cong)

lemma sorted_transfers_from: "sorted (map jt_TransactionNow (transfers_from hist m))"
  unfolding transfers_from_def by (intro sorted_filter) simp

lemma transfers_from_ge: "tr \<in> set (transfers_from hist m) \<Longrightarrow> m \<le> jt_TransactionNow tr"
  by (simp add: transfers_from_def)

lemma ton_scan_seen:
  assumes w: "nw_cursors w = world_cursors" "\<forall>n. healthy (w_env W n)" "world_view W TON = (h, prev)"
    and pages: "ton_scan_pages lib (fetch_transfers p w m) 0 ton_maxPagesPerPoll 0
        \<lparr>ns_maxLt = 0, ns_maxUtime = 0, ns_pending = nw_pending w\<rparr> =
      (None, ton_transfers lib seen \<lparr>ns_maxLt = 0, ns_maxUtime = 0, ns_pending = nw_pending w\<rparr>)"
    and m: "m = start_utime p prev" "0 < m" "sorted (map jt_TransactionNow seen)" "\<forall>tr\<in>set seen. m \<le> jt_TransactionNow tr"
  shows "\<exists>W'. scanNewTransfers lib p w W = (Inr (), w\<lparr>nw_pending := handle_transfers lib seen (nw_pending w)\<rparr>, W') \<and>
    cursors_only W W' \<and>
    snd (world_view W' TON) = (if seen = [] then prev else Some (jt_TransactionNow (List.last seen) * 1000000000))"
proof -
  define init where "init = \<lparr>ns_maxLt = 0, ns_maxUtime = 0, ns_pending = nw_pending w\<rparr>"
  define sc where "sc = ton_transfers lib seen init"
  have pend: "ns_pending sc = handle_transfers lib seen (nw_pending w)"
    by (simp add: sc_def ns_pending_transfers init_def)
  note pages = pages [folded init_def, folded sc_def]
  obtain W1 where g: "get_cursor world_cursors TON W = (Inr (h, prev), W1)" "world_view W1 = world_view W"
    and e: "w_env W1 = (\<lambda>n. w_env W (Suc n))"
    using world_get_runs [of W TON] w(2,3) by auto
  note o1 = world_cursors_only(1) [OF g(1)]
  show ?thesis
  proof (cases "seen = []")
    case True
    then have "ns_maxUtime sc = 0" by (simp add: sc_def init_def)
    then show ?thesis using g w True pages pend o1
      by (simp add: scanNewTransfers_def Let_def init_def [symmetric] m(1))
  next
    case False
    have lastin: "m \<le> jt_TransactionNow (List.last seen)" using last_in_set [OF False] m(4) by blast
    have t: "ns_maxUtime sc = jt_TransactionNow (List.last seen)"
      unfolding sc_def using lastin m(2) by (intro ton_transfers_last [OF m(3) False]) (simp add: init_def)
    obtain W2 where s: "set_cursor world_cursors TON (ns_maxLt sc) (ns_maxUtime sc * 1000000000) W1 = (Inr (), W2)"
      "world_view W2 TON = (ns_maxLt sc, Some (ns_maxUtime sc * 1000000000))"
      using world_set_runs [of W1 TON "ns_maxLt sc" "ns_maxUtime sc * 1000000000"] w(2) e by auto
    from cursors_only_trans [OF o1 world_cursors_only(2) [OF s(1)]]
    show ?thesis using g s w False pages pend lastin m(2) t
      by (simp add: scanNewTransfers_def Let_def init_def [symmetric] m(1) [symmetric])
  qed
qed

lemma ton_scan_history:
  assumes w: "nw_cursors w = world_cursors" "\<forall>n. healthy (w_env W n)" "world_view W TON = (h, prev)"
    and server: "\<And>i. i * transfersPageLimit \<le> length (transfers_from hist m) \<Longrightarrow>
        fetch_transfers p w m i (int (i * transfersPageLimit)) =
          Inr (take transfersPageLimit (drop (i * transfersPageLimit) (transfers_from hist m)))"
    and m: "m = start_utime p prev" "0 < m" "seen = take 2000 (transfers_from hist m)"
  shows "\<exists>W'. scanNewTransfers lib p w W = (Inr (), w\<lparr>nw_pending := handle_transfers lib seen (nw_pending w)\<rparr>, W') \<and>
    cursors_only W W' \<and>
    snd (world_view W' TON) = (if seen = [] then prev else Some (jt_TransactionNow (List.last seen) * 1000000000))"
proof (rule ton_scan_seen [OF w _ m(1,2)])
  show "ton_scan_pages lib (fetch_transfers p w m) 0 ton_maxPagesPerPoll 0 sc = (None, ton_transfers lib seen sc)" for sc
    using ton_scan_pages_history [where fetch = "fetch_transfers p w m", OF server, of 0 lib ton_maxPagesPerPoll sc]
    by (simp add: m(3) ton_maxPagesPerPoll_def transfersPageLimit_def)
  show "sorted (map jt_TransactionNow seen)"
    using sorted_wrt_take [OF sorted_transfers_from [of hist m], of 2000] unfolding m(3) take_map .
  show "\<forall>tr\<in>set seen. m \<le> jt_TransactionNow tr"
    unfolding m(3) by (blast dest: in_set_takeD transfers_from_ge)
qed

text \<open>What a transfer is worth, once its amount and its logical time can be read.\<close>

definition transfer_value :: "decimal_lib \<Rightarrow> jetton_transfer \<Rightarrow> ton_tracked option" where
  "transfer_value lib tr =
     (case (dec_parse lib (jt_Amount tr), ParseInt (jt_TransactionLt tr)) of
        (Some v, Some lt) \<Rightarrow> Some \<lparr>to_amount = v / 10 ^ 6, to_lt = lt, to_observed = jt_TransactionNow tr\<rparr>
      | _ \<Rightarrow> None)"

lemma handle_one_transfer:
  "transfer_value lib tr = Some t \<Longrightarrow> handle_transfers lib [tr] pend = pend(jt_TransactionHash tr \<mapsto> t)"
  by (auto simp: handle_transfers_def handleTransfer_def transfer_value_def split: option.splits)

lemma handle_one_event:
  "event_value lib hex ev = Some t \<Longrightarrow> handle_events lib hex [ev] pend = pend(ce_TransactionID ev \<mapsto> t)"
  by (simp add: handle_events_def handleEvent_value)

subsection \<open>Two small servers\<close>

text \<open>A TRON server with the sample event and a TON server with one transfer, asked soon after.\<close>

definition sorted_range :: "'p tracking \<Rightarrow> string list" where
  "sorted_range m = sorted_list_of_set (dom m)"

lemma range_order_sorted: "dom m = {tx} \<Longrightarrow> range_order (sorted_range m) m"
  by (simp add: range_order_def sorted_range_def)

definition served_tron_poll :: tron_poll where
  "served_tron_poll = sample_event_poll\<lparr>tp_now := 1700000000000000000, tp_range := sorted_range\<rparr>"

definition fresh_tron :: "world tron_watcher" where
  "fresh_tron = sample_tron\<lparr>tw_sink := service_sink five_million default_service, tw_pending := Map.empty\<rparr>"

definition pages_token :: "nat \<Rightarrow> string" where
  "pages_token i = replicate i CHR ''x''"

definition sample_transfer :: jetton_transfer where
  "sample_transfer = \<lparr>jt_Amount = ''5000000'', jt_TransactionHash = ''t3'', jt_TransactionLt = ''7'',
     jt_TransactionNow = 1700000000, jt_Destination = []\<rparr>"

definition served_ton_poll :: ton_poll where
  "served_ton_poll = sample_ton_poll\<lparr>np_decode := (\<lambda>_. Some [sample_transfer]),
     np_start := 1700000100000000000, np_now := 1700000100000000000, np_range := sorted_range\<rparr>"

definition fresh_ton :: "world ton_watcher" where
  "fresh_ton = sample_ton\<lparr>nw_sink := service_sink five_million default_service\<rparr>"

lemma fresh_sel [simp]:
  "tw_sink fresh_tron = service_sink five_million default_service" "tw_cursors fresh_tron = world_cursors"
  "tw_pending fresh_tron = Map.empty" "tw_addressHex fresh_tron = ''41aa''" "tw_client fresh_tron = newClient ''u'' [] []"
  "nw_sink fresh_ton = service_sink five_million default_service" "nw_cursors fresh_ton = world_cursors"
  "nw_pending fresh_ton = Map.empty" "nw_client fresh_ton = ton_newClient ''u'' [] []"
  by (simp_all add: fresh_tron_def fresh_ton_def sample_tron_def sample_ton_def ton_NewWatcher_def sample_ton_cfg_def)

lemma served_tron_start: "min_timestamp served_tron_poll None = 1699999400000"
  by (simp add: min_timestamp_def served_tron_poll_def UnixMilli_def minute_def second_def i64_def)

lemma served_ton_start: "start_utime served_ton_poll None = 1699999500"
  by (simp add: start_utime_def served_ton_poll_def Unix_def minute_def second_def i64_def)

lemma served_events: "events_from [sample_event] 1699999400000 = [sample_event]"
  by (simp add: events_from_def sample_event_def)

lemma served_transfers: "transfers_from [sample_transfer] 1699999500 = [sample_transfer]"
  by (simp add: transfers_from_def sample_transfer_def)

lemma served_tron:
  assumes "i = 0 \<or> i * eventsPageLimit < length (events_from [sample_event] 1699999400000)"
  shows "fetch_events served_tron_poll fresh_tron 1699999400000 i (pages_token i) =
    Inr (event_page pages_token (events_from [sample_event] 1699999400000) i)"
proof -
  have "i = 0" using assms by (simp add: served_events eventsPageLimit_def)
  then show ?thesis
    by (simp add: served_events fetch_events_def served_tron_poll_def sample_event_poll_def sample_tron_poll_def
        echo_tron_get event_page_def eventsPageLimit_def)
qed

lemma served_ton:
  assumes "i * transfersPageLimit \<le> length (transfers_from [sample_transfer] 1699999500)"
  shows "fetch_transfers served_ton_poll fresh_ton 1699999500 i (int (i * transfersPageLimit)) =
    Inr (take transfersPageLimit (drop (i * transfersPageLimit) (transfers_from [sample_transfer] 1699999500)))"
proof -
  have "i = 0" using assms by (simp add: served_transfers transfersPageLimit_def)
  then show ?thesis
    by (simp add: served_transfers fetch_transfers_def served_ton_poll_def sample_ton_poll_def ton_get_def retry_def
        ton_newClient_def maxAttemptsPerURL_def numeral_2_eq_2 rest_step_def echo_net_def Let_def transfersPageLimit_def)
qed

lemma served_event_value: "event_value five_million ''41aa'' sample_event = Some \<lparr>tr_amount = 5, tr_height = 95\<rparr>"
  by (simp add: event_value_def sample_event_def lookup_str_def five_million_def equal_fold_def to_lower_def
      lower_char_def Let_def char_of_def bit_simps)

lemma served_transfer_value:
  "transfer_value five_million sample_transfer = Some \<lparr>to_amount = 5, to_lt = 7, to_observed = 1700000000\<rparr>"
proof -
  have "FormatInt 7 = ''7''" by (simp add: FormatInt_def print_int_def digit_char_def print_nat.simps char_of_def bit_simps)
  then have "ParseInt ''7'' = Some 7" using ParseInt_FormatInt [of 7] by (simp add: in_i64_def)
  then show ?thesis by (simp add: transfer_value_def sample_transfer_def five_million_def)
qed

subsection \<open>What a scan handles, and where the next one begins\<close>

text \<open>
  C18. When the server answers from its history, one TRON scan handles exactly the first 4000
  events from the cursor on (20 pages of 200), in the order of their timestamps, and leaves
  the cursor at the last of them, or where it was when there were none. When no two events
  share a timestamp, the next scan begins with the event after it.
\<close>

theorem tron_scan_handles_history:
  assumes w: "tw_cursors w = world_cursors" "\<forall>n. healthy (w_env W n)" "world_view W Chains.Tron = (h, prev)"
    and server: "\<And>i. i = 0 \<or> i * eventsPageLimit < length (events_from hist m) \<Longrightarrow>
        fetch_events p w m i (token i) = Inr (event_page token (events_from hist m) i)"
      "token 0 = []" "\<And>i. token (Suc i) \<noteq> []"
    and m: "m = min_timestamp p prev" "0 < m" "seen = take 4000 (events_from hist m)"
    and small: "\<And>ev. ev \<in> set hist \<Longrightarrow> ce_BlockTimestamp ev < 2 ^ 62"
  shows "\<exists>W'. scanNewEvents lib p latest w W =
      (Inr (), w\<lparr>tw_pending := handle_events lib (tw_addressHex w) seen (tw_pending w)\<rparr>, W') \<and>
    snd (world_view W' Chains.Tron) = (if seen = [] then prev else Some (ce_BlockTimestamp (List.last seen) * 1000000)) \<and>
    (seen \<noteq> [] \<and> sorted_wrt (<) (map ce_BlockTimestamp (events_from hist m)) \<longrightarrow>
       events_from hist (min_timestamp p' (snd (world_view W' Chains.Tron))) = drop 4000 (events_from hist m))"
proof -
  obtain W' where sc: "scanNewEvents lib p latest w W =
      (Inr (), w\<lparr>tw_pending := handle_events lib (tw_addressHex w) seen (tw_pending w)\<rparr>, W')"
    and c: "snd (world_view W' Chains.Tron) = (if seen = [] then prev else Some (ce_BlockTimestamp (List.last seen) * 1000000))"
    using tron_scan_history [OF w server m] by blast
  have "events_from hist (min_timestamp p' (snd (world_view W' Chains.Tron))) = drop 4000 (events_from hist m)"
    if ne: "seen \<noteq> []" and srt: "sorted_wrt (<) (map ce_BlockTimestamp (events_from hist m))"
  proof -
    let ?t = "ce_BlockTimestamp (List.last seen)"
    have l: "List.last seen \<in> set (events_from hist m)" using last_in_set [OF ne] unfolding m(3) by (rule in_set_takeD)
    have t: "m \<le> ?t" "?t < 2 ^ 62" using events_from_ge [OF l] small l by (auto simp: events_from_def)
    have "min_timestamp p' (snd (world_view W' Chains.Tron)) = ?t + 1"
      using c ne t m(2) by (simp add: min_timestamp_def UnixMilli_ms in_i64_def)
    then show ?thesis
      using events_from_later [of m "?t + 1" hist] t(1) filter_after_take [OF srt ne [unfolded m(3)]] m(3) by simp
  qed
  with sc c show ?thesis by blast
qed

theorem tron_scan_handles_history_witness:
  "\<exists>w' W'. scanNewEvents five_million served_tron_poll 100 fresh_tron (still two_pending) = (Inr (), w', W') \<and>
     tw_pending w' = [''t2'' \<mapsto> \<lparr>tr_amount = 5, tr_height = 95\<rparr>] \<and>
     snd (world_view W' Chains.Tron) = Some 1700000000000000000"
proof -
  have t: "pages_token 0 = []" "pages_token (Suc i) \<noteq> []" for i by (simp_all add: pages_token_def)
  have h: "\<forall>n. healthy (w_env (still two_pending) n)" by simp
  have b: "ce_BlockTimestamp sample_event = 1700000000000" "ce_TransactionID sample_event = ''t2''" by (simp_all add: sample_event_def)
  from tron_scan_handles_history [OF fresh_sel(2) h still_cursor served_tron t served_tron_start [symmetric] _ refl,
      of five_million 100 served_tron_poll]
  show ?thesis by (auto simp: served_events handle_one_event [OF served_event_value] b)
qed

text \<open>
  C19. The same of TON: one scan handles exactly the first 2000 transfers from the cursor on
  (20 pages of 100), leaves the cursor at the last of them, and the next scan begins after
  it when no two transfers share a second.
\<close>

theorem ton_scan_handles_history:
  assumes w: "nw_cursors w = world_cursors" "\<forall>n. healthy (w_env W n)" "world_view W TON = (h, prev)"
    and server: "\<And>i. i * transfersPageLimit \<le> length (transfers_from hist m) \<Longrightarrow>
        fetch_transfers p w m i (int (i * transfersPageLimit)) =
          Inr (take transfersPageLimit (drop (i * transfersPageLimit) (transfers_from hist m)))"
    and m: "m = start_utime p prev" "0 < m" "seen = take 2000 (transfers_from hist m)"
    and small: "\<And>tr. tr \<in> set hist \<Longrightarrow> jt_TransactionNow tr < 2 ^ 62"
  shows "\<exists>W'. scanNewTransfers lib p w W = (Inr (), w\<lparr>nw_pending := handle_transfers lib seen (nw_pending w)\<rparr>, W') \<and>
    snd (world_view W' TON) = (if seen = [] then prev else Some (jt_TransactionNow (List.last seen) * 1000000000)) \<and>
    (seen \<noteq> [] \<and> sorted_wrt (<) (map jt_TransactionNow (transfers_from hist m)) \<longrightarrow>
       transfers_from hist (start_utime p' (snd (world_view W' TON))) = drop 2000 (transfers_from hist m))"
proof -
  obtain W' where sc: "scanNewTransfers lib p w W = (Inr (), w\<lparr>nw_pending := handle_transfers lib seen (nw_pending w)\<rparr>, W')"
    and c: "snd (world_view W' TON) = (if seen = [] then prev else Some (jt_TransactionNow (List.last seen) * 1000000000))"
    using ton_scan_history [OF w server m] by blast
  have "transfers_from hist (start_utime p' (snd (world_view W' TON))) = drop 2000 (transfers_from hist m)"
    if ne: "seen \<noteq> []" and srt: "sorted_wrt (<) (map jt_TransactionNow (transfers_from hist m))"
  proof -
    let ?t = "jt_TransactionNow (List.last seen)"
    have l: "List.last seen \<in> set (transfers_from hist m)" using last_in_set [OF ne] unfolding m(3) by (rule in_set_takeD)
    have t: "m \<le> ?t" "?t < 2 ^ 62" using transfers_from_ge [OF l] small l by (auto simp: transfers_from_def)
    have "start_utime p' (snd (world_view W' TON)) = ?t + 1"
      using c ne t m(2) by (simp add: start_utime_def Unix_s in_i64_def)
    then show ?thesis
      using transfers_from_later [of m "?t + 1" hist] t(1) filter_after_take [OF srt ne [unfolded m(3)]] m(3) by simp
  qed
  with sc c show ?thesis by blast
qed

theorem ton_scan_handles_history_witness:
  "\<exists>w' W'. scanNewTransfers five_million served_ton_poll fresh_ton (still two_pending) = (Inr (), w', W') \<and>
     nw_pending w' = [''t3'' \<mapsto> \<lparr>to_amount = 5, to_lt = 7, to_observed = 1700000000\<rparr>] \<and>
     snd (world_view W' TON) = Some 1700000000000000000"
proof -
  have h: "\<forall>n. healthy (w_env (still two_pending) n)" by simp
  have c: "world_view (still two_pending) TON = (0, None)" by (simp add: world_view_def cursor_view_def two_pending_def empty_db_def)
  have b: "jt_TransactionNow sample_transfer = 1700000000" "jt_TransactionHash sample_transfer = ''t3''"
    by (simp_all add: sample_transfer_def)
  from ton_scan_handles_history [OF fresh_sel(7) h c served_ton served_ton_start [symmetric] _ refl, of five_million served_ton_poll]
  show ?thesis by (auto simp: served_transfers handle_one_transfer [OF served_transfer_value] b)
qed

subsection \<open>From TRON and TON to an order\<close>

text \<open>
  C13. From TRON to the order in one poll: when the server has one new event from the cursor
  on, to the receiving address, deep enough for the order it pays, the order is the only one
  pending for that amount, and nothing else happens meanwhile, then the poll of the TRON
  watcher confirms the order, with the transaction, its block and the amount received.
\<close>

theorem tron_payment_confirms_order:
  assumes w: "tw_sink w = service_sink lib s" "tw_cursors w = world_cursors" "tw_pending w = Map.empty"
    and latest: "getLatestBlock p w = Inr latest" "latest < 2 ^ 31 - 1"
    and server: "\<And>i. i = 0 \<or> i * eventsPageLimit < length (events_from hist m) \<Longrightarrow>
        fetch_events p w m i (token i) = Inr (event_page token (events_from hist m) i)"
      "token 0 = []" "\<And>i. token (Suc i) \<noteq> []"
      "m = min_timestamp p prev" "0 < m" "events_from hist m = [ev]"
      "\<And>pend. dom pend = {ce_TransactionID ev} \<Longrightarrow> range_order (tp_range p pend) pend"
    and t: "event_value lib (tw_addressHex w) ev = Some t" "0 \<le> tr_height t" "tr_height t \<le> latest"
      "tr_height t + o_required a - 1 \<le> latest" "numeric20_8 (tr_amount t) = Some x"
    and W: "world_ok (s_tolerance s) W" "\<forall>k. healthy (w_env W k)" "\<forall>k d. w_other W k d = d"
      "world_view W Chains.Tron = (h, prev)"
    and a: "only_payee (s_tolerance s) Chains.Tron (tr_amount t) a (orders (w_db W))"
      "\<forall>k. \<not> locked (w_env W k) (o_id a)"
      "\<forall>b\<in>set (orders (w_db W)). \<not> (o_chain b = Chains.Tron \<and> o_tx b = Some (ce_TransactionID ev))"
  shows "\<exists>w2 W2. tron_pollOnce lib p w W = (Inr (), w2, W2) \<and>
    (\<exists>b\<in>set (orders (w_db W2)). o_id b = o_id a \<and> o_status b = Confirmed \<and> o_tx b = Some (ce_TransactionID ev) \<and>
       o_height b = Some (tr_height t) \<and> o_received b = Some x)"
proof -
  let ?tx = "ce_TransactionID ev"
  let ?w1 = "w\<lparr>tw_pending := [?tx \<mapsto> t]\<rparr>"
  have one: "handle_events lib (tw_addressHex w) [ev] (tw_pending w) = [?tx \<mapsto> t]"
    by (simp add: handle_one_event [OF t(1)] w(3))
  obtain W1 where sc: "scanNewEvents lib p latest w W = (Inr (), ?w1, W1)" and co: "cursors_only W W1"
    using tron_scan_history [OF w(2) W(2,4) server(1-5) refl, of lib latest] server(6) one by auto
  have rng: "range_order (tp_range p [?tx \<mapsto> t]) [?tx \<mapsto> t]" by (rule server(7)) simp
  then have ks: "tp_range p [?tx \<mapsto> t] = [?tx]" by (rule range_order_single) simp
  define e where "e = tron_event p latest ?tx t"
  have e: "ev_chain e = Chains.Tron" "ev_tx e = ?tx" "ev_amount e = tr_amount t" "ev_height e = tr_height t"
    "ev_confs e = latest - tr_height t + 1"
    using height_confs_small [of latest "tr_height t"] t(2,3) latest(2) by (simp_all add: e_def tron_event_def emitted_confs_max)
  have k: "in_i32 (ev_confs e)" "o_required a \<le> ev_confs e" using t(2-4) latest(2) by (simp_all add: e in_i32_def)
  have "\<exists>w2. tron_pollOnce lib p w W = (Inr (), w2, deliver (service_sink lib s) [e] W1)"
    by (simp add: tron_pollOnce_def latest(1) sc tron_refreshConfirmations_def ks report_items_range [OF rng [unfolded ks]] e_def w(1))
  moreover have "\<exists>b\<in>set (orders (w_db (deliver (service_sink lib s) [e] W1))). o_id b = o_id a \<and> o_status b = Confirmed \<and>
      o_tx b = Some ?tx \<and> o_height b = Some (tr_height t) \<and> o_received b = Some x"
    using single_report_settles [OF co W(1-3) k(1) _ k(2), of x s lib] t(5) a by (simp add: e)
  ultimately show ?thesis by blast
qed

text \<open>
  C14. The same on TON, where the confirmations are the seconds since the transfer divided
  by five.
\<close>

theorem ton_payment_confirms_order:
  assumes w: "nw_sink w = service_sink lib s" "nw_cursors w = world_cursors" "nw_pending w = Map.empty"
    and server: "\<And>i. i * transfersPageLimit \<le> length (transfers_from hist m) \<Longrightarrow>
        fetch_transfers p w m i (int (i * transfersPageLimit)) =
          Inr (take transfersPageLimit (drop (i * transfersPageLimit) (transfers_from hist m)))"
      "m = start_utime p prev" "0 < m" "transfers_from hist m = [tr]"
      "\<And>pend. dom pend = {jt_TransactionHash tr} \<Longrightarrow> range_order (np_range p pend) pend"
    and t: "transfer_value lib tr = Some t" "in_i32 (ton_confs (Unix (np_start p)) (jt_TransactionNow tr))"
      "o_required a \<le> ton_confs (Unix (np_start p)) (jt_TransactionNow tr)" "numeric20_8 (to_amount t) = Some x"
    and W: "world_ok (s_tolerance s) W" "\<forall>k. healthy (w_env W k)" "\<forall>k d. w_other W k d = d" "world_view W TON = (h, prev)"
    and a: "only_payee (s_tolerance s) TON (to_amount t) a (orders (w_db W))" "\<forall>k. \<not> locked (w_env W k) (o_id a)"
      "\<forall>b\<in>set (orders (w_db W)). \<not> (o_chain b = TON \<and> o_tx b = Some (jt_TransactionHash tr))"
  shows "\<exists>w2 W2. ton_pollOnce lib p w W = (Inr (), w2, W2) \<and>
    (\<exists>b\<in>set (orders (w_db W2)). o_id b = o_id a \<and> o_status b = Confirmed \<and> o_tx b = Some (jt_TransactionHash tr) \<and>
       o_height b = Some (to_lt t) \<and> o_received b = Some x)"
proof -
  let ?tx = "jt_TransactionHash tr"
  let ?w1 = "w\<lparr>nw_pending := [?tx \<mapsto> t]\<rparr>"
  have one: "handle_transfers lib [tr] (nw_pending w) = [?tx \<mapsto> t]"
    by (simp add: handle_one_transfer [OF t(1)] w(3))
  obtain W1 where sc: "scanNewTransfers lib p w W = (Inr (), ?w1, W1)" and co: "cursors_only W W1"
    using ton_scan_history [OF w(2) W(2,4) server(1-3) refl, of lib] server(4) one by auto
  have rng: "range_order (np_range p [?tx \<mapsto> t]) [?tx \<mapsto> t]" by (rule server(5)) simp
  then have ks: "np_range p [?tx \<mapsto> t] = [?tx]" by (rule range_order_single) simp
  have obs: "to_observed t = jt_TransactionNow tr" using t(1) by (auto simp: transfer_value_def split: option.splits)
  define e where "e = ton_event p (Unix (np_start p)) ?tx t"
  have e: "ev_chain e = TON" "ev_tx e = ?tx" "ev_amount e = to_amount t" "ev_height e = to_lt t"
    "ev_confs e = ton_confs (Unix (np_start p)) (jt_TransactionNow tr)"
    by (simp_all add: e_def ton_event_def obs)
  have k: "in_i32 (ev_confs e)" "o_required a \<le> ev_confs e" using t(2,3) by (simp_all add: e)
  have "\<exists>w2. ton_pollOnce lib p w W = (Inr (), w2, deliver (service_sink lib s) [e] W1)"
    by (simp add: ton_pollOnce_def Let_def sc ton_refreshConfirmations_def ks report_items_range [OF rng [unfolded ks]] e_def w(1))
  moreover have "\<exists>b\<in>set (orders (w_db (deliver (service_sink lib s) [e] W1))). o_id b = o_id a \<and> o_status b = Confirmed \<and>
      o_tx b = Some ?tx \<and> o_height b = Some (to_lt t) \<and> o_received b = Some x"
    using single_report_settles [OF co W(1-3) k(1) _ k(2), of x s lib] t(4) a by (simp add: e)
  ultimately show ?thesis by blast
qed

text \<open>An order for 5.0001 on each chain, and the sample event and transfer that pay them.\<close>

definition five_due :: "string \<Rightarrow> order" where
  "five_due chain = new_order 1 ''alice'' chain 5 1 3 100 1000"

definition five_waiting :: "string \<Rightarrow> db" where
  "five_waiting chain = empty_db\<lparr>orders := [five_due chain]\<rparr>"

lemma five_due_sel [simp]:
  "o_id (five_due c) = 1" "o_chain (five_due c) = c" "o_status (five_due c) = Pending" "o_tx (five_due c) = None"
  "o_expected (five_due c) = 50001 / 10000" "o_required (five_due c) = 3"
  by (simp_all add: five_due_def new_order_def)

lemma five_waiting_sel [simp]:
  "orders (five_waiting c) = [five_due c]" "world_view (still (five_waiting c)) c' = (0, None)"
  by (simp_all add: five_waiting_def empty_db_def world_view_def cursor_view_def)

lemma db_ok_five_waiting: "db_ok (five_waiting c)"
  by (simp add: db_ok_def five_waiting_def empty_db_def unique_ok_def five_due_def new_order_def order_ok_def untouched_def)

lemma five_only_payee: "only_payee (s_tolerance default_service) c 5 (five_due c) (orders (w_db (still (five_waiting c))))"
  by (simp add: only_payee_def free_pending_def)

theorem tron_payment_confirms_order_witness:
  "\<exists>w2 W2 b. tron_pollOnce five_million served_tron_poll fresh_tron (still (five_waiting Chains.Tron)) = (Inr (), w2, W2) \<and>
     b \<in> set (orders (w_db W2)) \<and> o_id b = 1 \<and> o_status b = Confirmed \<and> o_tx b = Some ''t2''"
proof -
  have t: "pages_token 0 = []" "pages_token (Suc i) \<noteq> []" for i by (simp_all add: pages_token_def)
  have g: "getLatestBlock served_tron_poll fresh_tron = Inr 100"
    by (simp add: getLatestBlock_def served_tron_poll_def sample_event_poll_def sample_tron_poll_def echo_tron_get)
  have tx: "ce_TransactionID sample_event = ''t2''" by (simp add: sample_event_def)
  have r: "range_order (tp_range served_tron_poll m) m" if "dom m = {ce_TransactionID sample_event}" for m
    using range_order_sorted [OF that] by (simp add: served_tron_poll_def)
  have n: "numeric20_8 5 = Some 5" using numeric20_8_4 [of 50000] by simp
  show ?thesis
    using tron_payment_confirms_order [OF fresh_sel(1-3) g _ served_tron t served_tron_start [symmetric] _ served_events r,
        of "\<lparr>tr_amount = 5, tr_height = 95\<rparr>" "five_due Chains.Tron" 5 "still (five_waiting Chains.Tron)" 0]
      five_only_payee [of Chains.Tron]
    by (simp add: served_event_value n still_ok db_ok_five_waiting tx) blast
qed

theorem ton_payment_confirms_order_witness:
  "\<exists>w2 W2 b. ton_pollOnce five_million served_ton_poll fresh_ton (still (five_waiting TON)) = (Inr (), w2, W2) \<and>
     b \<in> set (orders (w_db W2)) \<and> o_id b = 1 \<and> o_status b = Confirmed \<and> o_tx b = Some ''t3''"
proof -
  have tx: "jt_TransactionHash sample_transfer = ''t3''" by (simp add: sample_transfer_def)
  have r: "range_order (np_range served_ton_poll m) m" if "dom m = {jt_TransactionHash sample_transfer}" for m
    using range_order_sorted [OF that] by (simp add: served_ton_poll_def)
  have n: "numeric20_8 5 = Some 5" using numeric20_8_4 [of 50000] by simp
  have k: "ton_confs (Unix (np_start served_ton_poll)) (jt_TransactionNow sample_transfer) = 20"
    by (simp add: served_ton_poll_def sample_transfer_def Unix_def ton_confs_def assumedBlockTimeSeconds_def Let_def in_i64_def)
  show ?thesis
    using ton_payment_confirms_order [OF fresh_sel(6-8) served_ton served_ton_start [symmetric] _ served_transfers r served_transfer_value,
        of "five_due TON" 5 "still (five_waiting TON)" 0] five_only_payee [of TON]
    by (simp add: n k in_i32_def still_ok db_ok_five_waiting tx) blast
qed

end
