(* ===== verification/Runs.thy ===== *)
theory Runs
  imports Main
begin

text \<open>
  What a watcher owes over a whole run. A poll moves a position forward over the items of a
  history, and stays where it is when a request fails; a poll that reports takes note of
  every item in flight or passed, and settles the ones it finds deep enough. The locale
  \<open>follower\<close> is this contract of a single poll, and its lemma what it gives over any number
  of polls.
\<close>

fun run_polls :: "('p \<Rightarrow> 'x \<Rightarrow> 'x option) \<Rightarrow> 'p list \<Rightarrow> 'x \<Rightarrow> 'x option" where
  "run_polls poll [] x = Some x"
| "run_polls poll (p # ps) x = (case poll p x of None \<Rightarrow> None | Some x1 \<Rightarrow> run_polls poll ps x1)"

text \<open>Every poll of a run is good at the position where it starts.\<close>

fun all_good :: "('p \<Rightarrow> 'n \<Rightarrow> bool) \<Rightarrow> ('p \<Rightarrow> 'n \<Rightarrow> 'n) \<Rightarrow> 'p list \<Rightarrow> 'n \<Rightarrow> bool" where
  "all_good ok advance [] n \<longleftrightarrow> True"
| "all_good ok advance (p # ps) n \<longleftrightarrow> ok p n \<and> all_good ok advance ps (advance p n)"

lemma all_good_constant [simp]: "all_good (\<lambda>p n. ok p) advance ps n \<longleftrightarrow> (\<forall>p\<in>set ps. ok p)"
  by (induction ps arbitrary: n) auto

lemma all_good_mono:
  "all_good ok advance ps n \<Longrightarrow> (\<And>p n. p \<in> set ps \<Longrightarrow> ok p n \<Longrightarrow> ok' p n) \<Longrightarrow> all_good ok' advance ps n"
  by (induction ps arbitrary: n) auto

locale follower =
  fixes poll :: "'p \<Rightarrow> 'x \<Rightarrow> 'x option" and ok :: "'p \<Rightarrow> 'n::linorder \<Rightarrow> bool"
    and advance :: "'p \<Rightarrow> 'n \<Rightarrow> 'n" and inv :: "'n \<Rightarrow> 'x \<Rightarrow> bool"
    and items :: "'i set" and position :: "'i \<Rightarrow> 'n" and reports :: "'p \<Rightarrow> bool" and deep :: "'p \<Rightarrow> 'i \<Rightarrow> bool"
    and in_flight :: "'x \<Rightarrow> 'i \<Rightarrow> bool" and noted :: "'x \<Rightarrow> 'i \<Rightarrow> bool" and settled :: "'x \<Rightarrow> 'i \<Rightarrow> bool"
  assumes polls: "ok p n \<Longrightarrow> inv n x \<Longrightarrow> \<exists>x'. poll p x = Some x' \<and> inv (advance p n) x' \<and>
      (\<forall>i\<in>items. (noted x i \<longrightarrow> noted x' i) \<and> (settled x i \<longrightarrow> settled x' i) \<and>
        (in_flight x i \<or> n < position i \<and> position i \<le> advance p n \<longrightarrow>
          (reports p \<longrightarrow> noted x' i) \<and> (if reports p \<and> deep p i then settled x' i else in_flight x' i)))"
    and silent: "\<not> reports p \<Longrightarrow> advance p n = n"
begin

text \<open>Followed: in flight, or noted and settled already.\<close>

definition followed :: "'x \<Rightarrow> 'i \<Rightarrow> bool" where
  "followed x i \<longleftrightarrow> in_flight x i \<or> noted x i \<and> settled x i"

lemma followed_poll:
  assumes "ok p n" "inv n x"
  obtains x' where "poll p x = Some x'" "inv (advance p n) x'"
    "\<And>i. i \<in> items \<Longrightarrow> noted x i \<Longrightarrow> noted x' i"
    "\<And>i. i \<in> items \<Longrightarrow> followed x i \<or> n < position i \<and> position i \<le> advance p n \<Longrightarrow>
       followed x' i \<and> (reports p \<longrightarrow> noted x' i \<and> (deep p i \<longrightarrow> settled x' i))"
proof -
  obtain x' where x': "poll p x = Some x'" "inv (advance p n) x'"
    and i: "\<forall>i\<in>items. (noted x i \<longrightarrow> noted x' i) \<and> (settled x i \<longrightarrow> settled x' i) \<and>
        (in_flight x i \<or> n < position i \<and> position i \<le> advance p n \<longrightarrow>
          (reports p \<longrightarrow> noted x' i) \<and> (if reports p \<and> deep p i then settled x' i else in_flight x' i))"
    using polls [OF assms] by blast
  show thesis
  proof (rule that [OF x'])
    fix j assume "j \<in> items"
    note j = bspec [OF i this]
    then show "noted x j \<Longrightarrow> noted x' j" by blast
    assume "followed x j \<or> n < position j \<and> position j \<le> advance p n"
    then show "followed x' j \<and> (reports p \<longrightarrow> noted x' j \<and> (deep p j \<longrightarrow> settled x' j))"
      using j by (cases "reports p \<and> deep p j") (auto simp: followed_def)
  qed
qed

lemma silent_run: "\<forall>p\<in>set ps. \<not> reports p \<Longrightarrow> fold advance ps n = n"
  by (induction ps) (simp_all add: silent)

lemma run_follows:
  assumes "all_good ok advance ps n" "inv n x"
  shows "\<exists>x'. run_polls poll ps x = Some x' \<and> inv (fold advance ps n) x' \<and>
    (\<forall>i\<in>items. followed x i \<or> n < position i \<and> position i \<le> fold advance ps n \<longrightarrow>
       followed x' i \<and> ((\<exists>p\<in>set ps. reports p) \<longrightarrow> noted x' i) \<and>
       (ps \<noteq> [] \<and> reports (List.last ps) \<and> deep (List.last ps) i \<longrightarrow> settled x' i))"
proof -
  have "\<exists>x'. run_polls poll ps x = Some x' \<and> inv (fold advance ps n) x' \<and>
    (\<forall>i\<in>items. (noted x i \<longrightarrow> noted x' i) \<and>
      (followed x i \<or> n < position i \<and> position i \<le> fold advance ps n \<longrightarrow>
       followed x' i \<and> ((\<exists>p\<in>set ps. reports p) \<longrightarrow> noted x' i) \<and>
       (ps \<noteq> [] \<and> reports (List.last ps) \<and> deep (List.last ps) i \<longrightarrow> settled x' i)))"
    using assms
  proof (induction ps arbitrary: n x)
    case (Cons p ps)
    obtain x1 where x1: "poll p x = Some x1" "inv (advance p n) x1"
      "\<And>i. i \<in> items \<Longrightarrow> noted x i \<Longrightarrow> noted x1 i"
      "\<And>i. i \<in> items \<Longrightarrow> followed x i \<or> n < position i \<and> position i \<le> advance p n \<Longrightarrow>
         followed x1 i \<and> (reports p \<longrightarrow> noted x1 i \<and> (deep p i \<longrightarrow> settled x1 i))"
      using followed_poll [of p n x] Cons.prems by auto
    obtain x2 where x2: "run_polls poll ps x1 = Some x2" "inv (fold advance ps (advance p n)) x2"
      "\<forall>i\<in>items. (noted x1 i \<longrightarrow> noted x2 i) \<and>
        (followed x1 i \<or> advance p n < position i \<and> position i \<le> fold advance ps (advance p n) \<longrightarrow>
         followed x2 i \<and> ((\<exists>p\<in>set ps. reports p) \<longrightarrow> noted x2 i) \<and>
         (ps \<noteq> [] \<and> reports (List.last ps) \<and> deep (List.last ps) i \<longrightarrow> settled x2 i))"
      using Cons.IH [OF _ x1(2)] Cons.prems(1) by auto
    have "followed x2 i \<and> ((\<exists>p\<in>set (p # ps). reports p) \<longrightarrow> noted x2 i) \<and>
        (reports (List.last (p # ps)) \<and> deep (List.last (p # ps)) i \<longrightarrow> settled x2 i)"
      if i: "i \<in> items" "followed x i \<or> n < position i \<and> position i \<le> fold advance (p # ps) n" for i
    proof (cases "followed x i \<or> n < position i \<and> position i \<le> advance p n")
      case True
      with x1(4) [OF i(1)] bspec [OF x2(3) i(1)] x2(1) show ?thesis by (cases ps) auto
    next
      case False
      with i(2) have pos: "advance p n < position i" "position i \<le> fold advance ps (advance p n)" by auto
      then have "\<exists>p\<in>set ps. reports p" using silent_run [of ps "advance p n"] by force
      moreover from this have "ps \<noteq> []" by auto
      ultimately show ?thesis using bspec [OF x2(3) i(1)] pos by auto
    qed
    with x1 x2 show ?case by auto
  qed (auto)
  then show ?thesis by blast
qed

text \<open>What lies within the reach of a run was noted.\<close>

lemma run_passes:
  "n < position i \<Longrightarrow> position i \<le> fold advance ps n \<Longrightarrow> \<exists>p\<in>set ps. reports p"
  using silent_run [of ps n] by force

end

end
