(* ===== verification/Settling.thy ===== *)
theory Settling
  imports OrderProperties SettlementProperties Runs
begin

text \<open>
  What reports do over time. A transfer that is reported is accounted for; once it is
  reported with the confirmations an order requires, that order is done with it. Both stay
  true, and the reports of one watcher leave its cursor alone.
\<close>

subsection \<open>Cursors\<close>

lemma cursors_update_orders [simp]: "cursors (snd (update_orders P f d)) = cursors d"
  by (simp add: update_orders_def Let_def)

lemma cursors_exec: "(\<And>d. cursors (snd (f d)) = cursors d) \<Longrightarrow> cursors (snd (exec e k f d)) = cursors d"
  by (rule exec_preserves) simp_all

lemma cursors_service_statements [simp]:
  "cursors (snd (UpdateConfirmations e c tx h n d)) = cursors d"
  "cursors (snd (TxAlreadyClaimed e c tx d)) = cursors d"
  "cursors (snd (ClaimExactMatch e c tx amt h n tol d)) = cursors d"
  "cursors (snd (ClaimUnderpaid lib e c tx amt h mx d)) = cursors d"
  "cursors (snd (LogReviewItem e c tx amt reason i d)) = cursors d"
proof -
  show "cursors (snd (UpdateConfirmations e c tx h n d)) = cursors d"
    by (simp add: UpdateConfirmations_def cursors_exec update_confirmations_stmt_def)
  show "cursors (snd (TxAlreadyClaimed e c tx d)) = cursors d"
    using TxAlreadyClaimed_same [of e c tx d] by (metis surj_pair snd_conv)
  show "cursors (snd (ClaimExactMatch e c tx amt h n tol d)) = cursors d"
    by (auto simp: ClaimExactMatch_def Let_def claim_stmt_def split: list.splits option.splits intro!: cursors_exec)
  show "cursors (snd (ClaimUnderpaid lib e c tx amt h mx d)) = cursors d"
    using snd_ClaimUnderpaid [of lib e c tx amt h mx d] by (auto simp: mark_underpaid_stmt_def split: option.splits)
  show "cursors (snd (LogReviewItem e c tx amt reason i d)) = cursors d"
    by (auto simp: snd_LogReviewItem insert_review_stmt_def split: option.splits intro!: cursors_exec)
qed

lemma cursors_snd [dest]:
  "UpdateConfirmations e c tx h n d = (r, d') \<Longrightarrow> cursors d' = cursors d"
  "TxAlreadyClaimed e c tx d = (r', d') \<Longrightarrow> cursors d' = cursors d"
  "ClaimExactMatch e c tx amt h n tol d = (r, d') \<Longrightarrow> cursors d' = cursors d"
  "ClaimUnderpaid lib e c tx amt h mx d = (r, d') \<Longrightarrow> cursors d' = cursors d"
  by (metis cursors_service_statements snd_conv)+

lemma cursors_OnTransfer: "cursors (snd (OnTransfer lib e s ev d)) = cursors d"
  by (auto simp: OnTransfer_def Let_def dest!: cursors_snd split: sum.splits option.splits prod.splits bool.splits)

subsection \<open>Settled\<close>

text \<open>
  A transaction is settled, for orders that require at most \<open>req\<close> confirmations, when it is
  in the review queue or an order has it and is confirmed or underpaid.
\<close>

definition settled_tx :: "int \<Rightarrow> db \<Rightarrow> string \<Rightarrow> string \<Rightarrow> bool" where
  "settled_tx req d chain tx \<longleftrightarrow>
     (\<exists>r\<in>set (reviews d). r_chain r = chain \<and> r_tx r = tx) \<or>
     (\<exists>a\<in>set (orders d). o_chain a = chain \<and> o_tx a = Some tx \<and>
        (o_status a \<in> {Confirmed, Underpaid} \<or> req < o_required a))"

lemma settled_evolves:
  assumes "db_evolves d d'" "settled_tx req d chain tx"
  shows "settled_tx req d' chain tx"
  using assms(2) unfolding settled_tx_def
proof
  assume "\<exists>r\<in>set (reviews d). r_chain r = chain \<and> r_tx r = tx"
  then show "(\<exists>r\<in>set (reviews d'). r_chain r = chain \<and> r_tx r = tx) \<or>
      (\<exists>a\<in>set (orders d'). o_chain a = chain \<and> o_tx a = Some tx \<and> (o_status a \<in> {Confirmed, Underpaid} \<or> req < o_required a))"
    using assms(1) by (auto simp: db_evolves_def dest: set_mono_prefix)
next
  assume "\<exists>a\<in>set (orders d). o_chain a = chain \<and> o_tx a = Some tx \<and> (o_status a \<in> {Confirmed, Underpaid} \<or> req < o_required a)"
  then obtain a where a: "a \<in> set (orders d)" "o_chain a = chain" "o_tx a = Some tx"
    "o_status a \<in> {Confirmed, Underpaid} \<or> req < o_required a" by blast
  obtain b where "b \<in> set (orders d')" "order_evolves a b" by (rule db_evolvesE [OF assms(1) a(1)])
  with a show "(\<exists>r\<in>set (reviews d'). r_chain r = chain \<and> r_tx r = tx) \<or>
      (\<exists>a\<in>set (orders d'). o_chain a = chain \<and> o_tx a = Some tx \<and> (o_status a \<in> {Confirmed, Underpaid} \<or> req < o_required a))"
    by (intro disjI2 bexI [of _ b]) (auto simp: order_evolves_def)
qed

lemma OnTransfer_settles:
  assumes "decimal_library lib" "healthy e" "db_ok d" "in_i32 (ev_confs ev)"
    and "0 \<le> ev_amount ev" "numeric20_8 (ev_amount ev) = Some x" "req \<le> ev_confs ev"
  shows "settled_tx req (snd (OnTransfer lib e s ev d)) (ev_chain ev) (ev_tx ev)"
proof -
  let ?d' = "snd (OnTransfer lib e s ev d)"
  have ok: "db_ok ?d'" by (rule db_steps_ok [OF OnTransfer_steps [OF assms(3)] assms(3)])
  have spec: "transfer_spec lib e s ev x (ledger_of d) (ledger_of ?d')"
    using assms(1-6) by (intro decimal_library.OnTransfer_refines [THEN conjunct2]) (simp_all add: db_okD)
  have acc: "accounted ?d' (ev_chain ev) (ev_tx ev)" by (rule OnTransfer_accounts [OF assms(1-6)])
  have "o_status a \<in> {Confirmed, Underpaid} \<or> req < o_required a"
    if a: "a \<in> set (orders ?d')" "o_chain a = ev_chain ev" "o_tx a = Some (ev_tx ev)" for a
  proof (rule ccontr)
    assume "\<not> ?thesis"
    moreover have "order_ok a" using db_okD ok a(1) by blast
    ultimately have c: "o_status a = Confirming" "o_confs a < ev_confs ev"
      using a(3) assms(7) by (cases "o_status a"; auto simp: order_ok_def untouched_def)+
    then have adv: "advances ev a" using a by (simp add: advances_def progress_target_def)
    have "l_orders (ledger_of ?d') (o_id a) = Some a"
      using a(1) db_okD(1) [OF ok] by (simp add: by_id_iff)
    from spec_leaves_claimed_row [OF spec refl db_okD(1) [OF ok] this adv] c(2) show False by simp
  qed
  with acc show ?thesis unfolding accounted_def settled_tx_def by blast
qed

subsection \<open>A steady world\<close>

text \<open>
  The statements of the watcher run, the other goroutines run the program's statements, and
  none of them moves the cursor of this chain.
\<close>

definition steady :: "amount \<Rightarrow> string \<Rightarrow> world \<Rightarrow> bool" where
  "steady tol c W \<longleftrightarrow> world_ok tol W \<and> (\<forall>n. healthy (w_env W n)) \<and>
     (\<forall>n d. cursors (w_other W n d) c = cursors d c)"

definition keeps_cursor :: "amount \<Rightarrow> string \<Rightarrow> world \<Rightarrow> world \<Rightarrow> bool" where
  "keeps_cursor tol c W W' \<longleftrightarrow> world_evolves tol W W' \<and> world_view W' c = world_view W c"

lemma steadyD:
  assumes "steady tol c W"
  shows "world_ok tol W" "healthy (w_env W n)" "cursors (w_other W n d) c = cursors d c" "db_ok (w_db W)"
  using assms by (auto simp: steady_def world_ok_def)

lemma steady_cursors_only: "cursors_only W W' \<Longrightarrow> steady tol c W \<Longrightarrow> steady tol c W'"
  using cursors_only_world_ok [of W W' tol] by (auto simp: steady_def cursors_only_def)

lemma cursors_only_evolves: "cursors_only W W' \<Longrightarrow> world_evolves tol W W'"
  by (simp add: cursors_only_def world_evolves_def)

lemma service_sink_db:
  "w_db (snd (service_sink lib s ev W)) = snd (OnTransfer lib (w_env W 0) s ev (w_other W 0 (w_db W)))"
  by (simp add: service_sink_def next_call_def split: prod.split)

interpretation steady_transfers: transfer_sink "service_sink lib s" "steady (s_tolerance s) c"
  "keeps_cursor (s_tolerance s) c" for lib s c
proof unfold_locales
  fix W ev
  assume W: "steady (s_tolerance s) c W"
  let ?W' = "snd (service_sink lib s ev W)"
  have "w_env ?W' = (\<lambda>n. w_env W (Suc n))" "w_other ?W' = (\<lambda>n. w_other W (Suc n))"
    by (simp_all add: service_sink_def next_call_def split: prod.split)
  with W service_transfers.sink_inv [OF steadyD(1) [OF W], of lib ev]
  show "steady (s_tolerance s) c ?W'" by (simp add: steady_def)
  have "cursors (w_db ?W') c = cursors (w_db W) c"
    by (simp add: service_sink_db cursors_OnTransfer steadyD(3) [OF W])
  with service_transfers.sink_evolves [OF steadyD(1) [OF W], of lib ev]
  show "keeps_cursor (s_tolerance s) c W ?W'" by (simp add: keeps_cursor_def world_view_def cursor_view_def)
qed (auto simp: keeps_cursor_def intro: world_evolves_refl world_evolves_trans)

lemma evolves_keeps:
  assumes "world_evolves tol W W'" "world_ok tol W"
  shows "accounted (w_db W) c tx \<Longrightarrow> accounted (w_db W') c tx"
    and "settled_tx req (w_db W) c tx \<Longrightarrow> settled_tx req (w_db W') c tx"
  using assms db_steps_evolves [of tol "w_db W" "w_db W'"]
  by (auto simp: world_evolves_def world_ok_def intro: accounted_evolves settled_evolves)

text \<open>Every report of a series leaves its transfer accounted for, and settled if it is deep enough.\<close>

lemma deliver_notes:
  assumes lib: "decimal_library lib" and W: "steady (s_tolerance s) c W"
    and ev: "ev \<in> set evs" "ev_chain ev = c" "in_i32 (ev_confs ev)" "0 \<le> ev_amount ev" "numeric20_8 (ev_amount ev) \<noteq> None"
  shows "accounted (w_db (deliver (service_sink lib s) evs W)) c (ev_tx ev) \<and>
    (req \<le> ev_confs ev \<longrightarrow> settled_tx req (w_db (deliver (service_sink lib s) evs W)) c (ev_tx ev))"
proof -
  obtain x where x: "numeric20_8 (ev_amount ev) = Some x" using ev(5) by blast
  obtain W1 where W1: "steady (s_tolerance s) c W1"
    and rest: "keeps_cursor (s_tolerance s) c (snd (service_sink lib s ev W1)) (deliver (service_sink lib s) evs W)"
    by (rule steady_transfers.deliver_splitE [OF ev(1) W, of lib]) blast
  let ?e = "w_env W1 0" and ?d = "w_other W1 0 (w_db W1)"
  have ok: "db_ok ?d" using steadyD(1) [OF W1] by (auto simp: world_ok_def intro: db_steps_ok)
  let ?W' = "snd (service_sink lib s ev W1)"
  have "world_evolves (s_tolerance s) ?W' (deliver (service_sink lib s) evs W)" "world_ok (s_tolerance s) ?W'"
    using rest service_transfers.sink_inv [OF steadyD(1) [OF W1]] by (simp_all add: keeps_cursor_def)
  note on = evolves_keeps [OF this, unfolded service_sink_db]
  show ?thesis
    using on OnTransfer_accounts [OF lib steadyD(2) [OF W1] ok ev(3,4) x]
      OnTransfer_settles [OF lib steadyD(2) [OF W1] ok ev(3,4) x, of req] ev(2)
    by auto
qed

lemma reports_steady:
  assumes "steady (s_tolerance s) c W" "cursors_only W W1" "W2 = deliver (service_sink lib s) evs W1"
  shows "steady (s_tolerance s) c W1" "steady (s_tolerance s) c W2" "world_view W2 c = world_view W1 c"
    and "world_evolves (s_tolerance s) W W2"
proof -
  show s1: "steady (s_tolerance s) c W1" by (rule steady_cursors_only [OF assms(2,1)])
  show "steady (s_tolerance s) c W2" unfolding assms(3) by (rule steady_transfers.deliver_inv [OF s1])
  have k: "keeps_cursor (s_tolerance s) c W1 W2"
    unfolding assms(3) by (rule steady_transfers.deliver_evolves [OF s1])
  then show "world_view W2 c = world_view W1 c" by (simp add: keeps_cursor_def)
  show "world_evolves (s_tolerance s) W W2"
    using world_evolves_trans [OF cursors_only_evolves [OF assms(2)]] k by (simp add: keeps_cursor_def)
qed

subsection \<open>Tracking and reporting\<close>

text \<open>What the handlers of the three watchers do with a list of items.\<close>

definition track :: "('i \<Rightarrow> string) \<Rightarrow> ('i \<Rightarrow> 'p option) \<Rightarrow> 'i list \<Rightarrow> 'p tracking \<Rightarrow> 'p tracking" where
  "track key val xs pend = foldl (\<lambda>m x. case val x of None \<Rightarrow> m | Some t \<Rightarrow> m(key x \<mapsto> t)) pend xs"

lemma track_simps [simp]:
  "track key val [] pend = pend"
  "track key val (x # xs) pend = track key val xs (case val x of None \<Rightarrow> pend | Some t \<Rightarrow> pend(key x \<mapsto> t))"
  by (simp_all add: track_def)

lemma finite_track: "finite (dom pend) \<Longrightarrow> finite (dom (track key val xs pend))"
  by (induction xs arbitrary: pend) (auto split: option.splits)

lemma track_keeps:
  assumes "\<And>j. j \<in> set xs \<Longrightarrow> val j \<noteq> None \<Longrightarrow> key j = key i \<Longrightarrow> val j = Some t"
    and "val i = Some t" "pend (key i) = Some t \<or> i \<in> set xs"
  shows "track key val xs pend (key i) = Some t"
  using assms(1,3)
proof (induction xs arbitrary: pend)
  case (Cons x xs)
  let ?pend = "case val x of None \<Rightarrow> pend | Some u \<Rightarrow> pend(key x \<mapsto> u)"
  have "?pend (key i) = Some t \<or> i \<in> set xs"
    using Cons.prems(1) [of x] Cons.prems(2) assms(2) by (cases "key x = key i") (auto split: option.splits)
  with Cons.IH [of ?pend] Cons.prems(1) show ?case by simp
qed simp

lemma finite_unfinished: "finite (dom pend) \<Longrightarrow> finite (dom (unfinished fin pend))"
  by (rule finite_subset [of _ "dom pend"]) (auto simp: unfinished_def split: option.splits)

lemma refresh_follows:
  assumes "decimal_library lib" "steady (s_tolerance s) c W" "range_order ks pend"
    and "pend tx = Some t" "ev_chain (mk tx t) = c" "ev_tx (mk tx t) = tx"
    and "in_i32 (ev_confs (mk tx t))" "0 \<le> ev_amount (mk tx t)" "numeric20_8 (ev_amount (mk tx t)) \<noteq> None"
    and "W' = deliver (service_sink lib s) (map (\<lambda>tx. mk tx (the (pend tx))) ks) W"
  shows "accounted (w_db W') c tx" "req \<le> ev_confs (mk tx t) \<Longrightarrow> settled_tx req (w_db W') c tx"
    and "\<not> fin t \<Longrightarrow> unfinished fin pend tx = Some t"
proof -
  have "mk tx t \<in> set (map (\<lambda>tx. mk tx (the (pend tx))) ks)"
    using assms(3,4) by (force simp: range_order_def)
  from deliver_notes [OF assms(1,2) this assms(5,7-9), of req] assms(6,10)
  show "accounted (w_db W') c tx" "req \<le> ev_confs (mk tx t) \<Longrightarrow> settled_tx req (w_db W') c tx" by auto
  show "\<not> fin t \<Longrightarrow> unfinished fin pend tx = Some t" using assms(4) by (simp add: unfinished_def)
qed

end
