(* ===== verification/EvmRun.thy ===== *)
theory EvmRun
  imports Settling
begin

text \<open>
  A run of the EVM watcher over any number of polls: it follows every transfer of the
  chain's history, from the poll that first sees its block to the settlement of its order.
\<close>

definition log_value :: "rpc_log \<Rightarrow> tracked option" where
  "log_value l =
     (if length (l_topics l) < 3 then None
      else case (parseHexBigInt (l_data l), parseHexQuantity (l_blockNumber l)) of
        (Inr n, Inr b) \<Rightarrow> Some \<lparr>tr_amount = of_int n / 10 ^ 6, tr_height = b\<rparr>
      | _ \<Rightarrow> None)"

lemma handle_logs_track: "handle_logs logs pend = track l_txHash log_value logs pend"
proof -
  have "handleLog l m = (case log_value l of None \<Rightarrow> m | Some t \<Rightarrow> m(l_txHash l \<mapsto> t))" for l m
    by (simp add: handleLog_def log_value_def Let_def split: sum.splits)
  then show ?thesis by (simp add: handle_logs_def track_def)
qed

lemma log_value_block: "log_value l = Some t \<Longrightarrow> log_block l = tr_height t"
  by (auto simp: log_value_def log_block_def split: sum.splits if_splits)

text \<open>A log the service can take: an amount that is not negative and fits the column.\<close>

definition creditable :: "rpc_log \<Rightarrow> bool" where
  "creditable l \<longleftrightarrow> (case log_value l of None \<Rightarrow> False
     | Some t \<Rightarrow> 0 \<le> tr_height t \<and> tr_height t < 2 ^ 62 \<and> 0 \<le> tr_amount t \<and> numeric20_8 (tr_amount t) \<noteq> None)"

text \<open>
  An honest network may fail any request, but what it answers is from the history of the
  chain, up to the latest block of the poll, whichever node that is and however far it has got.
\<close>

definition evm_honest :: "rpc_log list \<Rightarrow> world evm_watcher \<Rightarrow> evm_poll \<Rightarrow> bool" where
  "evm_honest hist w p \<longleftrightarrow>
     (\<forall>latest. blockNumber p w = Inr latest \<longrightarrow> 0 \<le> latest \<and> latest < 2 ^ 31 - 1 \<and>
        (\<forall>a b logs. get_logs p w a b = Inr logs \<longrightarrow>
           logs = logs_between (filter (\<lambda>l. log_block l \<le> latest) hist) a b)) \<and>
     (\<forall>m. finite (dom m) \<longrightarrow> range_order (ep_range p m) m)"

text \<open>A poll reports when it is told the latest block, which it then works with.\<close>

definition evm_reports :: "'s evm_watcher \<Rightarrow> evm_poll \<Rightarrow> bool" where
  "evm_reports w p \<longleftrightarrow> (case blockNumber p w of Inr _ \<Rightarrow> True | Inl _ \<Rightarrow> False)"

definition top_block :: "'s evm_watcher \<Rightarrow> evm_poll \<Rightarrow> int" where
  "top_block w p = (case blockNumber p w of Inr n \<Rightarrow> n | Inl _ \<Rightarrow> 0)"

text \<open>The cursor after a poll: the latest block when every batch was answered.\<close>

definition evm_advance :: "'s evm_watcher \<Rightarrow> evm_poll \<Rightarrow> int \<Rightarrow> int" where
  "evm_advance w p n =
     (if evm_reports w p \<and>
         (\<forall>(a, b)\<in>set (batch_ranges (batch_blocks (em_cfg w)) (top_block w p) (n + 1)). \<not> isl (get_logs p w a b))
      then max n (top_block w p) else n)"

text \<open>
  The watcher w of a history, now with other transfers in flight, in a steady world where
  its cursor is n.
\<close>

definition evm_at ::
    "decimal_lib \<Rightarrow> service \<Rightarrow> rpc_log list \<Rightarrow> world evm_watcher \<Rightarrow> int \<Rightarrow> world evm_watcher \<times> world \<Rightarrow> bool" where
  "evm_at lib s hist w n x \<longleftrightarrow>
     decimal_library lib \<and> em_sink w = service_sink lib s \<and> em_cursors w = world_cursors \<and>
     batch_blocks (em_cfg w) < 2 ^ 62 \<and> sorted (map log_block hist) \<and>
     inj_on l_txHash {l \<in> set hist. log_value l \<noteq> None} \<and>
     (\<exists>pend. fst x = w\<lparr>em_pending := pend\<rparr> \<and> finite (dom pend)) \<and>
     steady (s_tolerance s) (em_chain w) (snd x) \<and> fst (world_view (snd x) (em_chain w)) = n \<and>
     0 < n \<and> n < 2 ^ 31"

definition evm_poll_step :: "evm_poll \<Rightarrow> 's evm_watcher \<times> 's \<Rightarrow> ('s evm_watcher \<times> 's) option" where
  "evm_poll_step p x = map_option snd (evm_pollOnce p (fst x) (snd x))"

lemma evm_polls_run: "evm_polls ps w s = run_polls evm_poll_step ps (w, s)"
  by (induction ps arbitrary: w s) (auto simp: evm_poll_step_def split: option.splits)

lemma evm_pending_sel [simp]:
  "blockNumber p (w\<lparr>em_pending := m\<rparr>) = blockNumber p w"
  "get_logs p (w\<lparr>em_pending := m\<rparr>) = get_logs p w"
  by (simp_all add: blockNumber_def get_logs_def fun_eq_iff)

subsection \<open>A scan whose requests may fail\<close>

lemma honest_reply: "\<not> isl x \<Longrightarrow> \<forall>y. x = Inr y \<longrightarrow> y = z \<Longrightarrow> x = Inr z"
  by (cases x) auto

lemma scan_ranges_honest:
  assumes "\<forall>a b logs. fetch a b = Inr logs \<longrightarrow> logs = logs_between hist a b" "\<forall>(a, b)\<in>set rs. n < a"
  shows "\<exists>logs. snd (scan_ranges fetch rs c0 pend) = track l_txHash log_value logs pend \<and> set logs \<subseteq> {l \<in> set hist. n < log_block l}"
  using assms(2)
proof (induction rs arbitrary: c0 pend)
  case (Cons r rs)
  obtain a b where r: "r = (a, b)" by (cases r)
  with Cons.prems have a: "n < a" by simp
  show ?case
  proof (cases "fetch a b")
    case (Inr new)
    then have "new = logs_between hist a b" using assms(1) by blast
    then have new: "set new \<subseteq> {l \<in> set hist. n < log_block l}" using a by (auto simp: logs_between_def)
    obtain logs where "snd (scan_ranges fetch rs b (handle_logs new pend)) = track l_txHash log_value logs (handle_logs new pend)"
      "set logs \<subseteq> {l \<in> set hist. n < log_block l}" using Cons.IH [of b "handle_logs new pend"] Cons.prems by auto
    with new show ?thesis
      by (intro exI [of _ "new @ logs"]) (simp add: r Inr handle_logs_track track_def)
  qed (auto simp: r intro: exI [of _ "[]"])
qed (auto intro: exI [of _ "[]"])

lemma scan_ranges_fails: "(a, b) \<in> set rs \<Longrightarrow> isl (fetch a b) \<Longrightarrow> \<exists>e. fst (scan_ranges fetch rs c0 pend) = Inl e"
  by (induction rs arbitrary: c0 pend) (auto split: sum.splits)

lemma scan_ranges_cong:
  "\<forall>(a, b)\<in>set rs. fetch a b = fetch' a b \<Longrightarrow> scan_ranges fetch rs c0 pend = scan_ranges fetch' rs c0 pend"
  by (induction rs arbitrary: c0 pend) (auto split: sum.splits)

lemma evm_scan_from:
  assumes at: "evm_at lib s hist w n (v, W)" and honest: "evm_honest hist w p" and v: "v = w\<lparr>em_pending := pend\<rparr>"
    and bn: "blockNumber p w = Inr latest"
  shows "\<exists>r logs W1. scanNewLogs p latest v W = Some (r, w\<lparr>em_pending := track l_txHash log_value logs pend\<rparr>, W1) \<and>
    cursors_only W W1 \<and> fst (world_view W1 (em_chain w)) = evm_advance w p n \<and> set logs \<subseteq> {l \<in> set hist. n < log_block l} \<and>
    (\<forall>l\<in>set hist. n < log_block l \<and> log_block l \<le> evm_advance w p n \<longrightarrow> l \<in> set logs)"
proof -
  let ?hist = "filter (\<lambda>l. log_block l \<le> latest) hist"
  let ?rs = "batch_ranges (batch_blocks (em_cfg w)) latest (n + 1)"
  obtain t where view: "world_view W (em_chain w) = (n, t)" using at by (metis evm_at_def prod.collapse snd_conv)
  have n: "0 < n" "n < 2 ^ 31" and w: "em_cursors w = world_cursors" "batch_blocks (em_cfg w) < 2 ^ 62"
    and srt: "sorted (map log_block hist)" and st: "steady (s_tolerance s) (em_chain w) W"
    using at by (auto simp: evm_at_def)
  have top: "top_block w p = latest" "evm_reports w p" "latest < 2 ^ 31 - 1"
    and fetch: "\<forall>a b logs. get_logs p w a b = Inr logs \<longrightarrow> logs = logs_between ?hist a b"
    using honest bn by (auto simp: evm_honest_def top_block_def evm_reports_def)
  have f: "first_block n latest = n + 1" using n by (simp add: first_block_def in_i64_def)
  obtain W1 where g: "get_cursor world_cursors (em_chain w) W = (Inr (n, t), W1)" "world_view W1 = world_view W"
    and e: "w_env W1 = (\<lambda>k. w_env W (Suc k))"
    using world_get_runs [of W "em_chain w"] steadyD(2) [OF st] view by auto
  note o1 = world_cursors_only(1) [OF g(1)]
  have sb: "scan_batches (get_logs p w) (batch_blocks (em_cfg w)) latest (n + 1) c0 pend =
      Some (scan_ranges (get_logs p w) ?rs c0 pend)" for c0
    using scan_batches_bounded [of w latest n "get_logs p w" c0 pend] w n top(3) f by (auto simp: in_bounds_def)
  have adv: "evm_advance w p n = (if \<forall>(a, b)\<in>set ?rs. \<not> isl (get_logs p w a b) then max n latest else n)"
    by (simp add: evm_advance_def top)
  note scan = scanNewLogs_def Let_def v w(1) g(1) f sb
  show ?thesis
  proof (cases "n + 1 \<le> latest")
    case False
    then have "scanNewLogs p latest v W = Some (Inr (), w\<lparr>em_pending := track l_txHash log_value [] pend\<rparr>, W1)"
      by (simp add: scan)
    moreover have "evm_advance w p n = n" using False by (simp add: evm_advance_def top)
    ultimately show ?thesis using o1 g(2) view by (intro exI [of _ "Inr ()"] exI [of _ "[]"] exI [of _ W1]) simp
  next
    case le: True
    show ?thesis
    proof (cases "\<forall>(a, b)\<in>set ?rs. \<not> isl (get_logs p w a b)")
      case True
      then have "\<forall>(a, b)\<in>set ?rs. get_logs p w a b = Inr (logs_between ?hist a b)"
        using fetch by (auto intro: honest_reply)
      then have sr: "scan_ranges (get_logs p w) ?rs c0 pend = (Inr latest, handle_logs (logs_between ?hist (n + 1) latest) pend)" for c0
        using scan_ranges_history [of "\<lambda>a b. Inr (logs_between ?hist a b)" ?hist "batch_blocks (em_cfg w)" "n + 1" latest]
          le srt batch_blocks_pos [of "em_cfg w"] by (subst scan_ranges_cong) (auto intro!: sorted_filter)
      obtain W2 where s: "set_cursor world_cursors (em_chain w) latest (ep_now p) W1 = (Inr (), W2)"
        "world_view W2 (em_chain w) = (latest, Some (ep_now p))"
        using world_set_runs [of W1 "em_chain w" latest "ep_now p"] steadyD(2) [OF st] e by auto
      show ?thesis
        using le s adv True cursors_only_trans [OF o1 world_cursors_only(2) [OF s(1)]]
        by (intro exI [of _ "Inr ()"] exI [of _ "logs_between ?hist (n + 1) latest"] exI [of _ W2])
          (auto simp: scan sr handle_logs_track logs_between_def)
    next
      case False
      then obtain a b where "(a, b) \<in> set ?rs" "isl (get_logs p w a b)" by auto
      then obtain err where err: "fst (scan_ranges (get_logs p w) ?rs (i64 (n + 1 - 1)) pend) = Inl err"
        using scan_ranges_fails [of a b ?rs "get_logs p w"] by blast
      obtain logs where logs: "snd (scan_ranges (get_logs p w) ?rs (i64 (n + 1 - 1)) pend) = track l_txHash log_value logs pend"
        "set logs \<subseteq> {l \<in> set ?hist. n < log_block l}"
        using scan_ranges_honest [OF fetch, of ?rs n] batch_ranges_bounds by fastforce
      have sr: "scan_ranges (get_logs p w) ?rs (i64 (n + 1 - 1)) pend = (Inl err, track l_txHash log_value logs pend)"
        using err logs(1) by (metis prod.collapse)
      have nadv: "evm_advance w p n = n" using False adv by auto
      show ?thesis
        using le o1 g(2) view logs(2) nadv sr
        by (intro exI [of _ "Inl err"] exI [of _ logs] exI [of _ W1]) (auto simp: scan)
    qed
  qed
qed

subsection \<open>One poll\<close>

definition evm_deep :: "world evm_watcher \<Rightarrow> evm_poll \<Rightarrow> rpc_log \<Rightarrow> bool" where
  "evm_deep w p l \<longleftrightarrow> log_block l + ec_RequiredConfirms (em_cfg w) - 1 \<le> top_block w p"

lemma evm_poll_shape:
  assumes at: "evm_at lib s hist w n (w\<lparr>em_pending := pend\<rparr>, W)" and honest: "evm_honest hist w p" and bn: "blockNumber p w = Inr latest"
    and fin: "finite (dom pend)"
  obtains logs pend1 W1 W2 where "set logs \<subseteq> {l \<in> set hist. n < log_block l}"
    "\<forall>l\<in>set hist. n < log_block l \<and> log_block l \<le> evm_advance w p n \<longrightarrow> l \<in> set logs"
    "pend1 = track l_txHash log_value logs pend" "range_order (ep_range p pend1) pend1" "cursors_only W W1"
    "W2 = deliver (service_sink lib s)
       (map (\<lambda>tx. evm_event p latest (w\<lparr>em_pending := pend1\<rparr>) tx (the (pend1 tx))) (ep_range p pend1)) W1"
    "evm_poll_step p (w\<lparr>em_pending := pend\<rparr>, W) =
       Some (w\<lparr>em_pending := unfinished (evm_final latest (w\<lparr>em_pending := pend1\<rparr>)) pend1\<rparr>, W2)"
    "evm_at lib s hist w (evm_advance w p n) (w\<lparr>em_pending := unfinished (evm_final latest (w\<lparr>em_pending := pend1\<rparr>)) pend1\<rparr>, W2)"
proof -
  let ?c = "em_chain w" and ?sink = "service_sink lib s"
  have st: "steady (s_tolerance s) ?c W" and sink: "em_sink w = ?sink" and n: "0 < n" "n < 2 ^ 31"
    using at by (auto simp: evm_at_def)
  have top: "0 \<le> latest" "latest < 2 ^ 31 - 1" "top_block w p = latest"
    using honest bn by (auto simp: evm_honest_def top_block_def)
  then have adv: "0 < evm_advance w p n" "evm_advance w p n < 2 ^ 31" using n by (auto simp: evm_advance_def)
  obtain r logs W1 where scan: "scanNewLogs p latest (w\<lparr>em_pending := pend\<rparr>) W =
      Some (r, w\<lparr>em_pending := track l_txHash log_value logs pend\<rparr>, W1)"
    and co: "cursors_only W W1" and cur: "fst (world_view W1 ?c) = evm_advance w p n"
    and logs: "set logs \<subseteq> {l \<in> set hist. n < log_block l}"
      "\<forall>l\<in>set hist. n < log_block l \<and> log_block l \<le> evm_advance w p n \<longrightarrow> l \<in> set logs"
    using evm_scan_from [OF at honest refl bn] by blast
  define pend1 where "pend1 = track l_txHash log_value logs pend"
  have fin: "finite (dom pend1)" by (simp add: pend1_def finite_track fin)
  have rng: "range_order (ep_range p pend1) pend1" using honest fin by (simp add: evm_honest_def)
  define w1 where "w1 = w\<lparr>em_pending := pend1\<rparr>"
  define W2 where "W2 = deliver ?sink (map (\<lambda>tx. evm_event p latest w1 tx (the (pend1 tx))) (ep_range p pend1)) W1"
  let ?x' = "(w\<lparr>em_pending := unfinished (evm_final latest w1) pend1\<rparr>, W2)"
  note sw = reports_steady [OF st co W2_def]
  have step: "evm_poll_step p (w\<lparr>em_pending := pend\<rparr>, W) = Some ?x'"
    using evm_refresh_eq [of p w1 latest W1] rng
    by (simp add: evm_poll_step_def evm_pollOnce_def bn scan [unfolded pend1_def [symmetric]] w1_def W2_def sink)
  have "evm_at lib s hist w (evm_advance w p n) ?x'"
    using at cur sw(2,3) adv fin finite_unfinished [OF fin] by (auto simp: evm_at_def)
  with that [OF logs pend1_def rng co W2_def [unfolded w1_def] step [unfolded w1_def]] show thesis
    by (simp add: w1_def)
qed

lemma evm_reporting_poll:
  assumes at: "evm_at lib s hist w n x" and honest: "evm_honest hist w p" and bn: "blockNumber p w = Inr latest"
  obtains x' where "evm_poll_step p x = Some x'" "evm_at lib s hist w (evm_advance w p n) x'"
    "world_evolves (s_tolerance s) (snd x) (snd x')"
    "\<And>l. l \<in> set hist \<Longrightarrow> creditable l \<Longrightarrow>
       em_pending (fst x) (l_txHash l) = log_value l \<or> n < log_block l \<and> log_block l \<le> evm_advance w p n \<Longrightarrow>
       accounted (w_db (snd x')) (em_chain w) (l_txHash l) \<and>
       (evm_deep w p l \<longrightarrow> settled_tx (ec_RequiredConfirms (em_cfg w)) (w_db (snd x')) (em_chain w) (l_txHash l)) \<and>
       (\<not> evm_deep w p l \<longrightarrow> em_pending (fst x') (l_txHash l) = log_value l)"
proof -
  let ?c = "em_chain w" and ?sink = "service_sink lib s"
  obtain pend W where x: "x = (w\<lparr>em_pending := pend\<rparr>, W)" "finite (dom pend)"
    using at by (cases x) (auto simp: evm_at_def)
  have lib: "decimal_library lib" and inj: "inj_on l_txHash {l \<in> set hist. log_value l \<noteq> None}"
    and st: "steady (s_tolerance s) ?c W"
    using at by (auto simp: evm_at_def x)
  have top: "0 \<le> latest" "latest < 2 ^ 31 - 1" "top_block w p = latest"
    using honest bn by (auto simp: evm_honest_def top_block_def)
  obtain logs pend1 W1 W2 where logs: "set logs \<subseteq> {l \<in> set hist. n < log_block l}"
      "\<forall>l\<in>set hist. n < log_block l \<and> log_block l \<le> evm_advance w p n \<longrightarrow> l \<in> set logs"
    and pend1_def: "pend1 = track l_txHash log_value logs pend" and rng: "range_order (ep_range p pend1) pend1"
    and co: "cursors_only W W1"
    and W2_def: "W2 = deliver ?sink (map (\<lambda>tx. evm_event p latest (w\<lparr>em_pending := pend1\<rparr>) tx (the (pend1 tx))) (ep_range p pend1)) W1"
    and step: "evm_poll_step p (w\<lparr>em_pending := pend\<rparr>, W) =
       Some (w\<lparr>em_pending := unfinished (evm_final latest (w\<lparr>em_pending := pend1\<rparr>)) pend1\<rparr>, W2)"
      "evm_at lib s hist w (evm_advance w p n) (w\<lparr>em_pending := unfinished (evm_final latest (w\<lparr>em_pending := pend1\<rparr>)) pend1\<rparr>, W2)"
    by (rule evm_poll_shape [OF at [unfolded x(1)] honest bn x(2)])
  define w1 where "w1 = w\<lparr>em_pending := pend1\<rparr>"
  let ?x' = "(w\<lparr>em_pending := unfinished (evm_final latest w1) pend1\<rparr>, W2)"
  note sw = reports_steady [OF st co W2_def]
  show thesis
  proof (rule that [of ?x'])
    show "evm_poll_step p x = Some ?x'" "evm_at lib s hist w (evm_advance w p n) ?x'"
      using step by (simp_all add: x(1) w1_def)
    show "world_evolves (s_tolerance s) (snd x) (snd ?x')" using sw(4) by (simp add: x(1))
  next
    fix l assume l: "l \<in> set hist" "creditable l"
      and new: "em_pending (fst x) (l_txHash l) = log_value l \<or> n < log_block l \<and> log_block l \<le> evm_advance w p n"
    obtain t where t: "log_value l = Some t" "0 \<le> tr_height t" "tr_height t < 2 ^ 62" "0 \<le> tr_amount t" "numeric20_8 (tr_amount t) \<noteq> None"
      using l(2) by (auto simp: creditable_def split: option.splits)
    note blk = log_value_block [OF t(1)]
    have "pend (l_txHash l) = Some t \<or> l \<in> set logs"
      using new l(1) t(1) logs(2) by (auto simp: x(1))
    then have p1: "pend1 (l_txHash l) = Some t"
      unfolding pend1_def by (rule track_keeps [rotated 2])
        (use inj l(1) t(1) logs(1) in \<open>auto simp: inj_on_def\<close>)
    have hc: "height_confs latest (tr_height t) = latest - tr_height t + 1"
      using t(2,3) top by (intro height_confs_small) simp_all
    have ev: "ev_chain (evm_event p latest w1 (l_txHash l) t) = ?c" "ev_tx (evm_event p latest w1 (l_txHash l) t) = l_txHash l"
      "ev_amount (evm_event p latest w1 (l_txHash l) t) = tr_amount t"
      "ev_confs (evm_event p latest w1 (l_txHash l) t) = max 0 (latest - tr_height t + 1)"
      using hc by (simp_all add: evm_event_def w1_def emitted_confs_max)
    have i32: "in_i32 (ev_confs (evm_event p latest w1 (l_txHash l) t))"
      using t(2) top by (auto simp: ev in_i32_def)
    have fl: "evm_final latest w1 t \<longleftrightarrow> evm_deep w p l" using hc blk top by (auto simp: evm_final_def evm_deep_def w1_def)
    note follows = refresh_follows [where mk = "evm_event p latest w1", OF lib sw(1) rng p1 ev(1,2) i32 _ _ W2_def [folded w1_def]]
    show "accounted (w_db (snd ?x')) ?c (l_txHash l) \<and>
       (evm_deep w p l \<longrightarrow> settled_tx (ec_RequiredConfirms (em_cfg w)) (w_db (snd ?x')) ?c (l_txHash l)) \<and>
       (\<not> evm_deep w p l \<longrightarrow> em_pending (fst ?x') (l_txHash l) = log_value l)"
      using follows(1) follows(2) [where req = "ec_RequiredConfirms (em_cfg w)"] follows(3) [where fin = "evm_final latest w1"]
        t blk top(3) by (auto simp: ev fl evm_deep_def)
  qed
qed

lemma evm_silent_poll: "\<not> evm_reports w p \<Longrightarrow> evm_at lib s hist w n x \<Longrightarrow> evm_poll_step p x = Some x \<and> evm_advance w p n = n"
  by (cases x) (auto simp: evm_reports_def evm_poll_step_def evm_pollOnce_def evm_at_def evm_advance_def split: sum.splits)

interpretation evm_follower: follower evm_poll_step "\<lambda>p n. evm_honest hist w p" "evm_advance w"
  "evm_at lib s hist w" "{l \<in> set hist. creditable l}" log_block "evm_reports w" "evm_deep w"
  "\<lambda>x l. em_pending (fst x) (l_txHash l) = log_value l"
  "\<lambda>x l. accounted (w_db (snd x)) (em_chain w) (l_txHash l)"
  "\<lambda>x l. settled_tx (ec_RequiredConfirms (em_cfg w)) (w_db (snd x)) (em_chain w) (l_txHash l)"
  for hist w lib s
proof (unfold_locales, goal_cases)
  case (1 p n x)
  then have "world_ok (s_tolerance s) (snd x)" by (auto simp: evm_at_def steady_def)
  note keep = evolves_keeps [OF _ this]
  show ?case
  proof (cases "evm_reports w p")
    case True
    then obtain latest where "blockNumber p w = Inr latest" by (auto simp: evm_reports_def split: sum.splits)
    then show ?thesis
      by (rule evm_reporting_poll [OF 1(2,1)], intro exI) (use keep True in \<open>auto split: if_splits\<close>)
  next
    case False
    with evm_silent_poll [OF False 1(2)] 1(2) show ?thesis by auto
  qed
qed (simp add: evm_advance_def)

end
