(* ===== verification/PagingRuns.thy ===== *)
theory PagingRuns
  imports Settling PagingProperties
begin

text \<open>
  Runs of the TRON and TON watchers over any number of polls. Both page through a history
  in the order of its times, a bounded number of items per poll, and resume after the last
  time they saw.
\<close>

subsection \<open>Paging by time\<close>

definition since :: "('i \<Rightarrow> int) \<Rightarrow> 'i list \<Rightarrow> int \<Rightarrow> 'i list" where
  "since f hist m = filter (\<lambda>x. m \<le> f x) (sort_key f hist)"

text \<open>The time reached by a poll that may take \<open>quota\<close> items, from what is known by \<open>now\<close>.\<close>

definition known_by :: "('i \<Rightarrow> int) \<Rightarrow> int \<Rightarrow> 'i list \<Rightarrow> 'i list" where
  "known_by f now hist = filter (\<lambda>x. f x \<le> now) hist"

definition reach :: "('i \<Rightarrow> int) \<Rightarrow> nat \<Rightarrow> 'i list \<Rightarrow> int \<Rightarrow> int \<Rightarrow> int" where
  "reach f quota hist now c =
     (let seen = take quota (since f (known_by f now hist) (c + 1)) in if seen = [] then c else f (List.last seen))"

lemma set_since: "set (since f hist m) = {x \<in> set hist. m \<le> f x}"
  by (auto simp: since_def)

text \<open>
  A list in the order of its times is cut cleanly when the cut does not separate items of one
  time: because nothing is cut off, or because the times are distinct.
\<close>

definition clean_cut :: "('i \<Rightarrow> int) \<Rightarrow> nat \<Rightarrow> 'i list \<Rightarrow> bool" where
  "clean_cut f quota xs \<longleftrightarrow>
     (\<forall>x\<in>set (drop quota xs). take quota xs \<noteq> [] \<longrightarrow> f (List.last (take quota xs)) < f x)"

lemma clean_cut_short: "length xs \<le> quota \<Longrightarrow> clean_cut f quota xs"
  by (simp add: clean_cut_def)

lemma sorted_since: "sorted (map f (since f hist m))"
  unfolding since_def by (intro sorted_filter) simp

lemma clean_cut_distinct:
  assumes "distinct (map f hist)"
  shows "clean_cut f quota (since f hist m)"
proof -
  let ?S = "since f hist m"
  have "distinct (map f (sort_key f hist))"
    using assms by (metis distinct_map distinct_sort set_sort)
  then have "distinct (map f ?S)" unfolding since_def by (rule distinct_map_filter)
  then have "sorted_wrt (<) (map f (take quota ?S @ drop quota ?S))" using sorted_since by (simp add: strict_sorted_iff)
  then show ?thesis unfolding clean_cut_def map_append sorted_wrt_append by (auto dest: last_in_set)
qed

lemma clean_cutD:
  assumes "clean_cut f quota (since f hist m)" "take quota (since f hist m) \<noteq> []"
  shows "\<forall>x\<in>set (take quota (since f hist m)). f x \<le> f (List.last (take quota (since f hist m)))"
    "\<forall>x\<in>set (drop quota (since f hist m)). f (List.last (take quota (since f hist m))) < f x"
  using sorted_wrt_take [OF sorted_since [of f hist m], of quota] assms unfolding take_map
  by (auto simp: clean_cut_def dest: sorted_last_max)

lemma reach_ge: "c \<le> reach f quota hist now c"
proof -
  have "c + 1 \<le> f x" if "x \<in> set (take quota (since f (known_by f now hist) (c + 1)))" for x
    using in_set_takeD [OF that] by (simp add: set_since)
  from this [OF last_in_set] show ?thesis by (fastforce simp: reach_def Let_def)
qed

lemma reach_covers:
  assumes "clean_cut f quota (since f (known_by f now hist) (c + 1))" "x \<in> set hist" "c < f x" "f x \<le> reach f quota hist now c"
  shows "x \<in> set (take quota (since f (known_by f now hist) (c + 1)))"
proof -
  let ?S = "since f (known_by f now hist) (c + 1)"
  have ne: "take quota ?S \<noteq> []" and r: "f x \<le> f (List.last (take quota ?S))"
    using assms(3,4) by (auto simp: reach_def Let_def split: if_splits)
  have l: "List.last (take quota ?S) \<in> set ?S" using last_in_set [OF ne] by (rule in_set_takeD)
  then have "f x \<le> now" using r by (auto simp: set_since known_by_def)
  then have "x \<in> set ?S" using assms(2,3) by (simp add: set_since known_by_def)
  then have "x \<in> set (take quota ?S) \<or> x \<in> set (drop quota ?S)" by (metis Un_iff append_take_drop_id set_append)
  with clean_cutD(2) [OF assms(1) ne] r show ?thesis by force
qed

text \<open>A backlog that every poll knows is worked through \<open>quota\<close> items at a time.\<close>

lemma reach_backlog:
  assumes "clean_cut f quota (since f hist (c + 1))" "\<forall>x\<in>set hist. f x \<le> now"
  shows "since f hist (reach f quota hist now c + 1) = drop quota (since f hist (c + 1)) \<and>
    (\<forall>x\<in>set (take quota (since f hist (c + 1))). f x \<le> reach f quota hist now c)"
proof -
  let ?S = "since f hist (c + 1)"
  have k: "known_by f now hist = hist" using assms(2) by (simp add: known_by_def)
  show ?thesis
  proof (cases "take quota ?S = []")
    case True
    then show ?thesis by (auto simp: reach_def k)
  next
    case False
    let ?t = "f (List.last (take quota ?S))"
    have r: "reach f quota hist now c = ?t" using False by (simp add: reach_def k Let_def)
    note cut = clean_cutD [OF assms(1) False]
    have "since f hist (?t + 1) = filter (\<lambda>x. ?t + 1 \<le> f x) (take quota ?S @ drop quota ?S)"
      using reach_ge [of c f quota hist now] unfolding r append_take_drop_id by (auto simp: since_def intro!: filter_cong)
    also have "\<dots> = drop quota ?S"
    proof -
      have "filter (\<lambda>x. ?t + 1 \<le> f x) (take quota ?S) = []" using cut(1) by (auto simp: filter_empty_conv)
      moreover have "filter (\<lambda>x. ?t + 1 \<le> f x) (drop quota ?S) = drop quota ?S"
        using cut(2) by (intro filter_True) force
      ultimately show ?thesis unfolding filter_append by simp
    qed
    finally show ?thesis using cut(1) r by simp
  qed
qed

text \<open>
  A run in which every poll reaches as far as it may. The assumption that a poll's cut is clean
  is asked for at the position where the poll starts.
\<close>

lemma fold_ge: "\<forall>p c. c \<le> advance p c \<Longrightarrow> (c::int) \<le> fold advance ps c"
  by (induction ps arbitrary: c) (auto intro: order_trans)

lemma le_fold:
  assumes "\<forall>p c. c \<le> advance p c" "p \<in> set ps" "\<forall>c. (m::int) \<le> advance p c"
  shows "m \<le> fold advance ps c"
  using assms(2)
proof (induction ps arbitrary: c)
  case (Cons q ps)
  then show ?case using assms(3) fold_ge [OF assms(1), of "advance q c" ps]
    by (auto intro: order_trans)
qed simp

lemma backlog_worked_off:
  assumes "all_good (\<lambda>p c. advance p c = reach f quota hist (now p) c \<and>
        clean_cut f quota (since f (known_by f (now p) hist) (c + 1))) advance ps c"
    and "\<forall>p c. c \<le> advance p c"
    and "\<forall>p\<in>set ps. \<forall>x\<in>set hist. f x \<le> now p" "x \<in> set (take (quota * length ps) (since f hist (c + 1)))"
  shows "f x \<le> fold advance ps c"
  using assms(1,3,4)
proof (induction ps arbitrary: c)
  case (Cons p ps)
  let ?S = "since f hist (c + 1)" and ?c = "reach f quota hist (now p) c"
  have k: "\<forall>y\<in>set hist. f y \<le> now p" using Cons.prems(2) by simp
  then have "known_by f (now p) hist = hist" by (simp add: known_by_def)
  with Cons.prems(1) have "clean_cut f quota ?S" and adv: "advance p c = ?c" by simp_all
  note r = reach_backlog [OF this(1) k]
  have "take (quota * length (p # ps)) ?S = take quota ?S @ take (quota * length ps) (drop quota ?S)"
    by (simp add: take_add)
  then consider "x \<in> set (take quota ?S)" | "x \<in> set (take (quota * length ps) (since f hist (?c + 1)))"
    using Cons.prems(3) r by auto
  then show ?case
  proof cases
    case 1
    with r have "f x \<le> ?c" by blast
    also have "\<dots> \<le> fold advance ps ?c" by (rule fold_ge [OF assms(2)])
    finally show ?thesis using adv by simp
  next
    case 2
    then show ?thesis using Cons.IH [OF _ _ 2] Cons.prems(1,2) adv by simp
  qed
qed simp

lemma reach_bound:
  assumes "\<forall>x\<in>set hist. f x < b" "c < b"
  shows "reach f quota hist now c < b"
proof -
  have "f x < b" if "x \<in> set (take quota (since f (known_by f now hist) (c + 1)))" for x
    using in_set_takeD [OF that] assms(1) by (simp add: set_since known_by_def)
  from this [OF last_in_set] assms(2) show ?thesis by (simp add: reach_def Let_def)
qed

subsection \<open>TRON\<close>

text \<open>An event the service can take.\<close>

definition event_creditable :: "decimal_lib \<Rightarrow> string \<Rightarrow> contract_event \<Rightarrow> bool" where
  "event_creditable lib hex ev \<longleftrightarrow> (case event_value lib hex ev of None \<Rightarrow> False
     | Some t \<Rightarrow> 0 \<le> tr_height t \<and> tr_height t < 2 ^ 62 \<and> 0 \<le> tr_amount t \<and> numeric20_8 (tr_amount t) \<noteq> None)"

definition tron_latest :: "'s tron_watcher \<Rightarrow> tron_poll \<Rightarrow> int" where
  "tron_latest w p = (case getLatestBlock p w of Inr n \<Rightarrow> n | Inl _ \<Rightarrow> 0)"

text \<open>
  Whether every page that is asked for is answered; the cursor moves only then.
\<close>

fun pages_answered :: "(nat \<Rightarrow> string \<Rightarrow> events_response res) \<Rightarrow> nat \<Rightarrow> nat \<Rightarrow> string \<Rightarrow> bool" where
  "pages_answered fetch page 0 fingerprint \<longleftrightarrow> True"
| "pages_answered fetch page (Suc n) fingerprint \<longleftrightarrow>
     (case fetch page fingerprint of
        Inl _ \<Rightarrow> False
      | Inr resp \<Rightarrow> er_Fingerprint resp = [] \<or> length (er_Data resp) < eventsPageLimit \<or>
          pages_answered fetch (Suc page) n (er_Fingerprint resp))"

lemma scan_pages_answered:
  "fst (scan_pages lib hex fetch page n fp sc) = None \<longleftrightarrow> pages_answered fetch page n fp"
  by (induction n arbitrary: page fp sc) (auto simp: Let_def split: sum.splits)

lemma pages_all_answered: "(\<And>i j. \<not> isl (fetch i j)) \<Longrightarrow> pages_answered fetch page n fp"
proof (induction n arbitrary: page fp)
  case (Suc n page x)
  obtain r where "fetch page x = Inr r" using Suc.prems [of page x] by (cases "fetch page x") auto
  with Suc.IH [OF Suc.prems] show ?case by auto
qed simp

definition tron_reports :: "'s tron_watcher \<Rightarrow> tron_poll \<Rightarrow> bool" where
  "tron_reports w p \<longleftrightarrow> (case getLatestBlock p w of Inr _ \<Rightarrow> True | Inl _ \<Rightarrow> False)"

text \<open>
  An honest network may fail any request of a poll from the timestamp c, but what it answers
  is from the events known by the time \<open>now p\<close>, page by page in the order of their timestamps.
  The 4000 events of a poll do not end inside a block.
\<close>

definition tron_honest ::
    "contract_event list \<Rightarrow> (tron_poll \<Rightarrow> int) \<Rightarrow> world tron_watcher \<Rightarrow> tron_poll \<Rightarrow> int \<Rightarrow> bool" where
  "tron_honest hist now w p c \<longleftrightarrow>
     (\<forall>latest. getLatestBlock p w = Inr latest \<longrightarrow> 0 \<le> latest \<and> latest < 2 ^ 31 - 1) \<and>
     (\<exists>token. token 0 = [] \<and> (\<forall>i. token (Suc i) \<noteq> []) \<and>
        (\<forall>i resp. (i = 0 \<or> i * eventsPageLimit < length (events_from (known_by ce_BlockTimestamp (now p) hist) (c + 1))) \<and>
           fetch_events p w (c + 1) i (token i) = Inr resp \<longrightarrow>
           resp = event_page token (events_from (known_by ce_BlockTimestamp (now p) hist) (c + 1)) i)) \<and>
     (\<forall>m. finite (dom m) \<longrightarrow> range_order (tp_range p m) m) \<and>
     clean_cut ce_BlockTimestamp 4000 (events_from (known_by ce_BlockTimestamp (now p) hist) (c + 1))"

text \<open>The timestamp of the cursor after a poll.\<close>

definition tron_advance ::
    "contract_event list \<Rightarrow> (tron_poll \<Rightarrow> int) \<Rightarrow> 's tron_watcher \<Rightarrow> tron_poll \<Rightarrow> int \<Rightarrow> int" where
  "tron_advance hist now w p c =
     (if tron_reports w p \<and> pages_answered (fetch_events p w (c + 1)) 0 maxPagesPerPoll []
      then reach ce_BlockTimestamp 4000 hist (now p) c else c)"

definition tron_at ::
    "decimal_lib \<Rightarrow> service \<Rightarrow> contract_event list \<Rightarrow> world tron_watcher \<Rightarrow> int \<Rightarrow> world tron_watcher \<times> world \<Rightarrow> bool" where
  "tron_at lib s hist w c x \<longleftrightarrow>
     decimal_library lib \<and> tw_sink w = service_sink lib s \<and> tw_cursors w = world_cursors \<and>
     (\<forall>ev\<in>set hist. ce_BlockTimestamp ev < 2 ^ 62) \<and>
     inj_on ce_TransactionID {ev \<in> set hist. event_value lib (tw_addressHex w) ev \<noteq> None} \<and>
     (\<exists>pend. fst x = w\<lparr>tw_pending := pend\<rparr> \<and> finite (dom pend)) \<and>
     steady (s_tolerance s) Chains.Tron (snd x) \<and>
     snd (world_view (snd x) Chains.Tron) = Some (c * 1000000) \<and> 0 \<le> c \<and> c < 2 ^ 62"

definition tron_poll_step ::
    "decimal_lib \<Rightarrow> tron_poll \<Rightarrow> 's tron_watcher \<times> 's \<Rightarrow> ('s tron_watcher \<times> 's) option" where
  "tron_poll_step lib p x = Some (snd (tron_pollOnce lib p (fst x) (snd x)))"

lemma tron_polls_run: "run_polls (tron_poll_step lib) ps (w, s) = Some (tron_polls lib ps w s)"
  by (induction ps arbitrary: w s) (auto simp: tron_poll_step_def split: prod.splits)

lemma tron_pending_sel [simp]:
  "getLatestBlock p (w\<lparr>tw_pending := m\<rparr>) = getLatestBlock p w"
  "fetch_events p (w\<lparr>tw_pending := m\<rparr>) = fetch_events p w"
  by (simp_all add: getLatestBlock_def fetch_events_def fun_eq_iff)

lemma handle_events_track: "handle_events lib hex evs pend = track ce_TransactionID (event_value lib hex) evs pend"
  by (simp add: handle_events_def track_def handleEvent_value)

lemma events_since: "events_from hist m = since ce_BlockTimestamp hist m"
  by (simp add: events_from_def since_def)

lemma scan_pages_honest:
  assumes server: "\<And>i resp. i = 0 \<or> i * eventsPageLimit < length evs \<Longrightarrow> fetch i (token i) = Inr resp \<Longrightarrow> resp = event_page token evs i"
      "\<And>i. token (Suc i) \<noteq> []"
    and "i = 0 \<or> i * eventsPageLimit < length evs"
  shows "\<exists>k. snd (scan_pages lib hex fetch i n (token i) sc) = tron_events lib hex (take k (drop (i * eventsPageLimit) evs)) sc \<and>
    (pages_answered fetch i n (token i) \<longrightarrow>
       take k (drop (i * eventsPageLimit) evs) = take (n * eventsPageLimit) (drop (i * eventsPageLimit) evs))"
  using assms(3)
proof (induction n arbitrary: i sc)
  case 0
  show ?case by (intro exI [of _ 0]) (simp add: tron_events_def)
next
  case (Suc n)
  let ?L = eventsPageLimit and ?page = "event_page token evs i"
  have d: "er_Data ?page = take ?L (drop (i * ?L) evs)" by (simp add: event_page_def)
  have more: "er_Fingerprint ?page = [] \<or> length (er_Data ?page) < ?L \<longleftrightarrow> \<not> Suc i * ?L < length evs"
    using server(2) [of i] by (auto simp: event_page_def)
  show ?case
  proof (cases "fetch i (token i)")
    case (Inl err)
    then show ?thesis by (intro exI [of _ 0]) simp
  next
    case (Inr resp)
    then have f: "fetch i (token i) = Inr ?page" using server(1) [OF Suc.prems] by blast
    show ?thesis
    proof (cases "Suc i * ?L < length evs")
      case True
      then have fp: "er_Fingerprint ?page = token (Suc i)" by (simp add: event_page_def)
      obtain k where k: "snd (scan_pages lib hex fetch (Suc i) n (token (Suc i)) (tron_events lib hex (er_Data ?page) sc)) =
          tron_events lib hex (take k (drop (Suc i * ?L) evs)) (tron_events lib hex (er_Data ?page) sc)"
        "pages_answered fetch (Suc i) n (token (Suc i)) \<longrightarrow>
          take k (drop (Suc i * ?L) evs) = take (n * ?L) (drop (Suc i * ?L) evs)"
        using Suc.IH [of "Suc i"] True by blast
      have cat: "take (?L + m) (drop (i * ?L) evs) = take ?L (drop (i * ?L) evs) @ take m (drop (Suc i * ?L) evs)" for m
        by (simp add: take_add)
      show ?thesis
      proof (intro exI [of _ "?L + k"] conjI impI)
        show "snd (scan_pages lib hex fetch i (Suc n) (token i) sc) =
            tron_events lib hex (take (?L + k) (drop (i * ?L) evs)) sc"
          using more True fp k(1) by (simp only: cat tron_events_append) (simp add: f Let_def d)
        assume "pages_answered fetch i (Suc n) (token i)"
        then show "take (?L + k) (drop (i * ?L) evs) = take (Suc n * ?L) (drop (i * ?L) evs)"
          using more True fp k(2) cat [of k] cat [of "n * ?L"] by (simp add: f)
      qed
    next
      case False
      then show ?thesis using more take_last [of evs "i * ?L" ?L "n * ?L"]
        by (intro exI [of _ ?L]) (simp add: f Let_def d add.commute)
    qed
  qed
qed

lemma tron_scan_from:
  assumes at: "tron_at lib s hist w c (v, W)" and honest: "tron_honest hist now w p c"
    and v: "v = w\<lparr>tw_pending := pend\<rparr>" and gl: "getLatestBlock p w = Inr latest"
  shows "\<exists>r evs W1. scanNewEvents lib p latest v W =
      (r, w\<lparr>tw_pending := track ce_TransactionID (event_value lib (tw_addressHex w)) evs pend\<rparr>, W1) \<and>
    cursors_only W W1 \<and> snd (world_view W1 Chains.Tron) = Some (tron_advance hist now w p c * 1000000) \<and>
    set evs \<subseteq> set hist \<and>
    (\<forall>ev\<in>set hist. c < ce_BlockTimestamp ev \<and> ce_BlockTimestamp ev \<le> tron_advance hist now w p c \<longrightarrow> ev \<in> set evs)"
proof -
  define evs where "evs = events_from (known_by ce_BlockTimestamp (now p) hist) (c + 1)"
  let ?init = "\<lparr>ts_maxBlock = 0, ts_maxTimestamp = 0, ts_pending = pend\<rparr>" and ?hex = "tw_addressHex w"
  obtain h where view: "world_view W Chains.Tron = (h, Some (c * 1000000))"
    using at by (metis tron_at_def prod.collapse snd_conv)
  have c: "0 \<le> c" "c < 2 ^ 62" and w: "tw_cursors w = world_cursors" and st: "steady (s_tolerance s) Chains.Tron W"
    using at by (auto simp: tron_at_def)
  have m: "c + 1 = min_timestamp p (Some (c * 1000000))"
    using c by (simp add: min_timestamp_def UnixMilli_ms in_i64_def)
  have sub: "set evs \<subseteq> set hist" by (auto simp: evs_def events_since set_since known_by_def)
  have cut: "clean_cut ce_BlockTimestamp 4000 evs" using honest by (simp add: tron_honest_def evs_def)
  obtain token where tok: "token 0 = []" "\<And>i. token (Suc i) \<noteq> []"
    "\<And>i resp. i = 0 \<or> i * eventsPageLimit < length evs \<Longrightarrow>
       fetch_events p w (c + 1) i (token i) = Inr resp \<Longrightarrow> resp = event_page token evs i"
    using honest unfolding tron_honest_def evs_def by blast
  obtain k where k: "snd (scan_pages lib ?hex (fetch_events p w (c + 1)) 0 maxPagesPerPoll [] ?init) =
      tron_events lib ?hex (take k evs) ?init"
    "pages_answered (fetch_events p w (c + 1)) 0 maxPagesPerPoll [] \<longrightarrow> take k evs = take 4000 evs"
    using scan_pages_honest [where fetch = "fetch_events p w (c + 1)" and i = 0, OF tok(3,2), of lib ?hex maxPagesPerPoll ?init]
    by (auto simp: tok(1) maxPagesPerPoll_def eventsPageLimit_def)
  have tr: "tron_reports w p" by (simp add: tron_reports_def gl)
  show ?thesis
  proof (cases "pages_answered (fetch_events p w (c + 1)) 0 maxPagesPerPoll []")
    case True
    then have seen: "scan_pages lib (tw_addressHex v) (fetch_events p v (c + 1)) 0 maxPagesPerPoll []
        \<lparr>ts_maxBlock = 0, ts_maxTimestamp = 0, ts_pending = tw_pending v\<rparr> =
      (None, tron_events lib (tw_addressHex v) (take 4000 evs) \<lparr>ts_maxBlock = 0, ts_maxTimestamp = 0, ts_pending = tw_pending v\<rparr>)"
      using k scan_pages_answered [of lib ?hex "fetch_events p w (c + 1)" 0 maxPagesPerPoll "[]" ?init]
      by (simp add: v prod_eq_iff)
    have srt: "sorted (map ce_BlockTimestamp (take 4000 evs))" "\<forall>ev\<in>set (take 4000 evs). c + 1 \<le> ce_BlockTimestamp ev"
      using sorted_wrt_take [OF sorted_events_from, of 4000] unfolding evs_def take_map
      by (auto dest: in_set_takeD events_from_ge)
    have adv: "tron_advance hist now w p c = reach ce_BlockTimestamp 4000 hist (now p) c"
      using True tr by (simp add: tron_advance_def)
    obtain W1 where "scanNewEvents lib p latest v W =
        (Inr (), v\<lparr>tw_pending := handle_events lib (tw_addressHex v) (take 4000 evs) (tw_pending v)\<rparr>, W1)"
      "cursors_only W W1" "snd (world_view W1 Chains.Tron) = (if take 4000 evs = [] then Some (c * 1000000)
         else Some (ce_BlockTimestamp (List.last (take 4000 evs)) * 1000000))"
      using tron_scan_seen [OF _ _ _ seen m _ srt, of W h latest] v w steadyD(2) [OF st] view c(1) by auto
    then show ?thesis using sub reach_covers [OF cut [unfolded evs_def events_since], folded events_since, folded evs_def]
      by (intro exI [of _ "Inr ()"] exI [of _ "take 4000 evs"] exI [of _ W1])
        (auto simp: v handle_events_track adv reach_def Let_def events_since evs_def dest!: in_set_takeD)
  next
    case False
    then obtain err where err: "fst (scan_pages lib ?hex (fetch_events p w (c + 1)) 0 maxPagesPerPoll [] ?init) = Some err"
      using scan_pages_answered [of lib ?hex "fetch_events p w (c + 1)" 0 maxPagesPerPoll "[]" ?init] by auto
    have sp: "scan_pages lib ?hex (fetch_events p w (c + 1)) 0 maxPagesPerPoll [] ?init =
        (Some err, tron_events lib ?hex (take k evs) ?init)" using err k(1) by (simp add: prod_eq_iff)
    obtain W1 where g: "get_cursor world_cursors Chains.Tron W = (Inr (h, Some (c * 1000000)), W1)" "world_view W1 = world_view W"
      using world_get_runs [of W Chains.Tron] steadyD(2) [OF st] view by auto
    have adv: "tron_advance hist now w p c = c" using False by (simp add: tron_advance_def)
    have "scanNewEvents lib p latest v W = (Inl err, w\<lparr>tw_pending := track ce_TransactionID (event_value lib ?hex) (take k evs) pend\<rparr>, W1)"
      by (simp add: scanNewEvents_def v w g(1) m [symmetric] sp ts_pending_events handle_events_track)
    then show ?thesis using world_cursors_only(1) [OF g(1)] g(2) view sub
      by (intro exI [of _ "Inl err"] exI [of _ "take k evs"] exI [of _ W1]) (auto simp: adv dest: in_set_takeD)
  qed
qed

definition tron_deep :: "world tron_watcher \<Rightarrow> tron_poll \<Rightarrow> contract_event \<Rightarrow> bool" where
  "tron_deep w p ev \<longleftrightarrow> ce_BlockNumber ev + tc_RequiredConfirms (tw_cfg w) - 1 \<le> tron_latest w p"

lemma tron_advance_ge: "c \<le> tron_advance hist now w p c"
  by (simp add: tron_advance_def reach_ge)

lemma tron_reporting_poll:
  assumes at: "tron_at lib s hist w c x" and honest: "tron_honest hist now w p c" and gl: "getLatestBlock p w = Inr latest"
  obtains x' where "tron_poll_step lib p x = Some x'" "tron_at lib s hist w (tron_advance hist now w p c) x'"
    "world_evolves (s_tolerance s) (snd x) (snd x')"
    "\<And>ev. ev \<in> set hist \<Longrightarrow> event_creditable lib (tw_addressHex w) ev \<Longrightarrow>
       tw_pending (fst x) (ce_TransactionID ev) = event_value lib (tw_addressHex w) ev \<or>
         c < ce_BlockTimestamp ev \<and> ce_BlockTimestamp ev \<le> tron_advance hist now w p c \<Longrightarrow>
       accounted (w_db (snd x')) Chains.Tron (ce_TransactionID ev) \<and>
       (tron_deep w p ev \<longrightarrow> settled_tx (tc_RequiredConfirms (tw_cfg w)) (w_db (snd x')) Chains.Tron (ce_TransactionID ev)) \<and>
       (\<not> tron_deep w p ev \<longrightarrow> tw_pending (fst x') (ce_TransactionID ev) = event_value lib (tw_addressHex w) ev)"
proof -
  let ?val = "event_value lib (tw_addressHex w)"
  obtain v W where x: "x = (v, W)" by (cases x)
  obtain pend where pend: "v = w\<lparr>tw_pending := pend\<rparr>" "finite (dom pend)"
    using at by (auto simp: tron_at_def x)
  have lib: "decimal_library lib" and inj: "inj_on ce_TransactionID {ev \<in> set hist. ?val ev \<noteq> None}"
    and st: "steady (s_tolerance s) Chains.Tron W" and sink: "tw_sink w = service_sink lib s"
    and small: "\<forall>ev\<in>set hist. ce_BlockTimestamp ev < 2 ^ 62" and c: "0 \<le> c" "c < 2 ^ 62"
    using at by (auto simp: tron_at_def x)
  have adv: "0 \<le> tron_advance hist now w p c" "tron_advance hist now w p c < 2 ^ 62"
    using c reach_bound [OF small c(2)] tron_advance_ge [of c hist now w p] by (auto simp: tron_advance_def)
  have top: "0 \<le> latest" "latest < 2 ^ 31 - 1" "tron_latest w p = latest"
    using honest gl by (auto simp: tron_honest_def tron_latest_def)
  obtain r evs W1 where scan: "scanNewEvents lib p latest v W = (r, w\<lparr>tw_pending := track ce_TransactionID ?val evs pend\<rparr>, W1)"
    and co: "cursors_only W W1" and cur: "snd (world_view W1 Chains.Tron) = Some (tron_advance hist now w p c * 1000000)"
    and new: "set evs \<subseteq> set hist"
      "\<forall>ev\<in>set hist. c < ce_BlockTimestamp ev \<and> ce_BlockTimestamp ev \<le> tron_advance hist now w p c \<longrightarrow> ev \<in> set evs"
    using tron_scan_from [OF at [unfolded x] honest pend(1) gl] by blast
  define pend1 where "pend1 = track ce_TransactionID ?val evs pend"
  have fin: "finite (dom pend1)" by (simp add: pend1_def finite_track pend(2))
  have rng: "range_order (tp_range p pend1) pend1" using honest fin by (simp add: tron_honest_def)
  define w1 where "w1 = w\<lparr>tw_pending := pend1\<rparr>"
  define reps where "reps = map (\<lambda>tx. tron_event p latest tx (the (pend1 tx))) (tp_range p pend1)"
  define W2 where "W2 = deliver (service_sink lib s) reps W1"
  let ?x' = "(w\<lparr>tw_pending := unfinished (tron_final latest w1) pend1\<rparr>, W2)"
  note sw = reports_steady [OF st co W2_def]
  have step: "tron_poll_step lib p x = Some ?x'"
    by (simp add: tron_poll_step_def x pend(1) tron_pollOnce_def gl scan [unfolded pend(1) pend1_def [symmetric]]
        tron_refreshConfirmations_def report_items_range [OF rng] w1_def reps_def W2_def sink)
  show thesis
  proof (rule that [OF step])
    show "tron_at lib s hist w (tron_advance hist now w p c) ?x'"
      using at cur sw(2,3) adv fin finite_unfinished [OF fin] by (auto simp: tron_at_def)
    show "world_evolves (s_tolerance s) (snd x) (snd ?x')" using sw(4) by (simp add: x)
  next
    fix ev assume ev: "ev \<in> set hist" "event_creditable lib (tw_addressHex w) ev"
      and or: "tw_pending (fst x) (ce_TransactionID ev) = ?val ev \<or>
        c < ce_BlockTimestamp ev \<and> ce_BlockTimestamp ev \<le> tron_advance hist now w p c"
    let ?tx = "ce_TransactionID ev"
    obtain t where t: "?val ev = Some t" "0 \<le> tr_height t" "tr_height t < 2 ^ 62" "0 \<le> tr_amount t" "numeric20_8 (tr_amount t) \<noteq> None"
      using ev(2) by (auto simp: event_creditable_def split: option.splits)
    have blk: "ce_BlockNumber ev = tr_height t" using t(1) by (auto simp: event_value_def split: if_splits)
    have "pend ?tx = Some t \<or> ev \<in> set evs" using or new(2) ev(1) t(1) by (auto simp: x pend(1))
    then have p1: "pend1 ?tx = Some t"
      unfolding pend1_def by (rule track_keeps [rotated 2]) (use inj ev(1) t(1) new(1) in \<open>auto simp: inj_on_def\<close>)
    have hc: "height_confs latest (tr_height t) = latest - tr_height t + 1"
      using t(2,3) top by (intro height_confs_small) simp_all
    have e: "ev_chain (tron_event p latest ?tx t) = Chains.Tron" "ev_tx (tron_event p latest ?tx t) = ?tx"
      "ev_amount (tron_event p latest ?tx t) = tr_amount t" "ev_confs (tron_event p latest ?tx t) = max 0 (latest - tr_height t + 1)"
      using hc by (simp_all add: tron_event_def emitted_confs_max)
    have i32: "in_i32 (ev_confs (tron_event p latest ?tx t))" using t(2) top by (auto simp: e in_i32_def)
    have fl: "tron_final latest w1 t \<longleftrightarrow> tron_deep w p ev" using hc blk top by (auto simp: tron_final_def tron_deep_def w1_def)
    note follows = refresh_follows [where mk = "tron_event p latest", OF lib sw(1) rng p1 e(1,2) i32 _ _ W2_def [unfolded reps_def]]
    show "accounted (w_db (snd ?x')) Chains.Tron ?tx \<and>
       (tron_deep w p ev \<longrightarrow> settled_tx (tc_RequiredConfirms (tw_cfg w)) (w_db (snd ?x')) Chains.Tron ?tx) \<and>
       (\<not> tron_deep w p ev \<longrightarrow> tw_pending (fst ?x') ?tx = ?val ev)"
      using follows(1) follows(2) [where req = "tc_RequiredConfirms (tw_cfg w)"] follows(3) [where fin = "tron_final latest w1"]
        t blk top(3) by (auto simp: e fl tron_deep_def)
  qed
qed

lemma tron_silent_poll:
  "\<not> tron_reports w p \<Longrightarrow> tron_at lib s hist w c x \<Longrightarrow> tron_poll_step lib p x = Some x \<and> tron_advance hist now w p c = c"
  by (cases x) (auto simp: tron_reports_def tron_poll_step_def tron_pollOnce_def tron_at_def tron_advance_def split: sum.splits)

interpretation tron_follower: follower "tron_poll_step lib" "tron_honest hist now w" "tron_advance hist now w"
  "tron_at lib s hist w" "{ev \<in> set hist. event_creditable lib (tw_addressHex w) ev}" ce_BlockTimestamp
  "tron_reports w" "tron_deep w"
  "\<lambda>x ev. tw_pending (fst x) (ce_TransactionID ev) = event_value lib (tw_addressHex w) ev"
  "\<lambda>x ev. accounted (w_db (snd x)) Chains.Tron (ce_TransactionID ev)"
  "\<lambda>x ev. settled_tx (tc_RequiredConfirms (tw_cfg w)) (w_db (snd x)) Chains.Tron (ce_TransactionID ev)"
  for lib hist now w s
proof (unfold_locales, goal_cases)
  case (1 p c x)
  then have "world_ok (s_tolerance s) (snd x)" by (auto simp: tron_at_def steady_def)
  note keep = evolves_keeps [OF _ this]
  show ?case
  proof (cases "tron_reports w p")
    case True
    then obtain latest where "getLatestBlock p w = Inr latest" by (auto simp: tron_reports_def split: sum.splits)
    then show ?thesis
      by (rule tron_reporting_poll [OF 1(2,1)], intro exI) (use keep True in \<open>auto split: if_splits\<close>)
  next
    case False
    with tron_silent_poll [OF False 1(2)] 1(2) show ?thesis by auto
  qed
qed (simp add: tron_advance_def)

subsection \<open>TON\<close>

text \<open>The same for TON, where every poll reports: there is no latest block to ask for.\<close>

definition transfer_creditable :: "decimal_lib \<Rightarrow> jetton_transfer \<Rightarrow> bool" where
  "transfer_creditable lib tr \<longleftrightarrow> (case transfer_value lib tr of None \<Rightarrow> False
     | Some t \<Rightarrow> 0 \<le> to_amount t \<and> numeric20_8 (to_amount t) \<noteq> None \<and> 0 \<le> to_observed t \<and> to_observed t < 2 ^ 62)"

fun offsets_answered :: "(nat \<Rightarrow> int \<Rightarrow> jetton_transfer list res) \<Rightarrow> nat \<Rightarrow> nat \<Rightarrow> int \<Rightarrow> bool" where
  "offsets_answered fetch page 0 offset \<longleftrightarrow> True"
| "offsets_answered fetch page (Suc n) offset \<longleftrightarrow>
     (case fetch page offset of
        Inl _ \<Rightarrow> False
      | Inr trs \<Rightarrow> length trs < transfersPageLimit \<or>
          offsets_answered fetch (Suc page) n (offset + int transfersPageLimit))"

lemma ton_scan_pages_answered:
  "fst (ton_scan_pages lib fetch page n off sc) = None \<longleftrightarrow> offsets_answered fetch page n off"
  by (induction n arbitrary: page off sc) (auto simp: Let_def split: sum.splits)

lemma offsets_all_answered: "(\<And>i j. \<not> isl (fetch i j)) \<Longrightarrow> offsets_answered fetch page n off"
proof (induction n arbitrary: page off)
  case (Suc n page x)
  obtain r where "fetch page x = Inr r" using Suc.prems [of page x] by (cases "fetch page x") auto
  with Suc.IH [OF Suc.prems] show ?case by auto
qed simp

definition ton_honest ::
    "jetton_transfer list \<Rightarrow> (ton_poll \<Rightarrow> int) \<Rightarrow> world ton_watcher \<Rightarrow> ton_poll \<Rightarrow> int \<Rightarrow> bool" where
  "ton_honest hist now w p c \<longleftrightarrow>
     0 \<le> Unix (np_start p) \<and> Unix (np_start p) < 2 ^ 33 \<and>
     (\<forall>i trs. i * transfersPageLimit \<le> length (transfers_from (known_by jt_TransactionNow (now p) hist) (c + 1)) \<and>
        fetch_transfers p w (c + 1) i (int (i * transfersPageLimit)) = Inr trs \<longrightarrow>
        trs = take transfersPageLimit (drop (i * transfersPageLimit) (transfers_from (known_by jt_TransactionNow (now p) hist) (c + 1)))) \<and>
     (\<forall>m. finite (dom m) \<longrightarrow> range_order (np_range p m) m) \<and>
     clean_cut jt_TransactionNow 2000 (transfers_from (known_by jt_TransactionNow (now p) hist) (c + 1))"

definition ton_advance ::
    "jetton_transfer list \<Rightarrow> (ton_poll \<Rightarrow> int) \<Rightarrow> 's ton_watcher \<Rightarrow> ton_poll \<Rightarrow> int \<Rightarrow> int" where
  "ton_advance hist now w p c =
     (if offsets_answered (fetch_transfers p w (c + 1)) 0 ton_maxPagesPerPoll 0
      then reach jt_TransactionNow 2000 hist (now p) c else c)"

definition ton_at ::
    "decimal_lib \<Rightarrow> service \<Rightarrow> jetton_transfer list \<Rightarrow> world ton_watcher \<Rightarrow> int \<Rightarrow> world ton_watcher \<times> world \<Rightarrow> bool" where
  "ton_at lib s hist w c x \<longleftrightarrow>
     decimal_library lib \<and> nw_sink w = service_sink lib s \<and> nw_cursors w = world_cursors \<and>
     (\<forall>tr\<in>set hist. jt_TransactionNow tr < 2 ^ 62) \<and>
     inj_on jt_TransactionHash {tr \<in> set hist. transfer_value lib tr \<noteq> None} \<and>
     (\<exists>pend. fst x = w\<lparr>nw_pending := pend\<rparr> \<and> finite (dom pend)) \<and>
     steady (s_tolerance s) TON (snd x) \<and>
     snd (world_view (snd x) TON) = Some (c * 1000000000) \<and> 0 \<le> c \<and> c < 2 ^ 62"

definition ton_poll_step ::
    "decimal_lib \<Rightarrow> ton_poll \<Rightarrow> 's ton_watcher \<times> 's \<Rightarrow> ('s ton_watcher \<times> 's) option" where
  "ton_poll_step lib p x = Some (snd (ton_pollOnce lib p (fst x) (snd x)))"

lemma ton_polls_run: "run_polls (ton_poll_step lib) ps (w, s) = Some (ton_polls lib ps w s)"
  by (induction ps arbitrary: w s) (auto simp: ton_poll_step_def split: prod.splits)

lemma ton_pending_sel [simp]: "fetch_transfers p (w\<lparr>nw_pending := m\<rparr>) = fetch_transfers p w"
  by (simp add: fetch_transfers_def fun_eq_iff)

lemma handle_transfers_track: "handle_transfers lib trs pend = track jt_TransactionHash (transfer_value lib) trs pend"
proof -
  have "handleTransfer lib tr m = (case transfer_value lib tr of None \<Rightarrow> m | Some t \<Rightarrow> m(jt_TransactionHash tr \<mapsto> t))" for tr m
    by (auto simp: handleTransfer_def transfer_value_def split: option.splits)
  then show ?thesis by (simp add: handle_transfers_def track_def)
qed

lemma transfers_since: "transfers_from hist m = since jt_TransactionNow hist m"
  by (simp add: transfers_from_def since_def)

lemma ton_confs_i32:
  assumes "0 \<le> n" "n < 2 ^ 33" "0 \<le> k" "k < 2 ^ 62"
  shows "in_i32 (ton_confs n k)"
proof -
  have "i64 (n - k) = n - k" using assms by (intro i64_id) (simp add: in_i64_def)
  moreover have "(n - k) sdiv 5 < 2 ^ 31" using assms by (auto simp: signed_divide_int_def sgn_if abs_if)
  ultimately show ?thesis by (simp add: ton_confs_def Let_def assumedBlockTimeSeconds_def in_i32_def)
qed

lemma ton_pages_honest:
  assumes server: "\<And>i ys. i * transfersPageLimit \<le> length trs \<Longrightarrow> fetch i (int (i * transfersPageLimit)) = Inr ys \<Longrightarrow>
      ys = take transfersPageLimit (drop (i * transfersPageLimit) trs)"
    and "i * transfersPageLimit \<le> length trs"
  shows "\<exists>k. snd (ton_scan_pages lib fetch i n (int (i * transfersPageLimit)) sc) =
      ton_transfers lib (take k (drop (i * transfersPageLimit) trs)) sc \<and>
    (offsets_answered fetch i n (int (i * transfersPageLimit)) \<longrightarrow>
       take k (drop (i * transfersPageLimit) trs) = take (n * transfersPageLimit) (drop (i * transfersPageLimit) trs))"
  using assms(2)
proof (induction n arbitrary: i sc)
  case 0
  show ?case by (intro exI [of _ 0]) (simp add: ton_transfers_def)
next
  case (Suc n)
  let ?L = transfersPageLimit and ?page = "take transfersPageLimit (drop (i * transfersPageLimit) trs)"
  show ?case
  proof (cases "fetch i (int (i * ?L))")
    case (Inl err)
    then show ?thesis by (intro exI [of _ 0]) simp
  next
    case (Inr ys)
    then have f: "fetch i (int (i * ?L)) = Inr ?page" using server [OF Suc.prems] by blast
    show ?thesis
    proof (cases "Suc i * ?L \<le> length trs")
      case True
      then have full: "\<not> length ?page < ?L" by simp
      have off: "int (i * ?L) + int ?L = int (Suc i * ?L)" by simp
      obtain k where k: "snd (ton_scan_pages lib fetch (Suc i) n (int (Suc i * ?L)) (ton_transfers lib ?page sc)) =
          ton_transfers lib (take k (drop (Suc i * ?L) trs)) (ton_transfers lib ?page sc)"
        "offsets_answered fetch (Suc i) n (int (Suc i * ?L)) \<longrightarrow>
          take k (drop (Suc i * ?L) trs) = take (n * ?L) (drop (Suc i * ?L) trs)"
        using Suc.IH [OF True] by blast
      have cat: "take (?L + m) (drop (i * ?L) trs) = ?page @ take m (drop (Suc i * ?L) trs)" for m
        by (simp add: take_add)
      show ?thesis
      proof (intro exI [of _ "?L + k"] conjI impI)
        show "snd (ton_scan_pages lib fetch i (Suc n) (int (i * ?L)) sc) =
            ton_transfers lib (take (?L + k) (drop (i * ?L) trs)) sc"
          unfolding cat ton_transfers_append k(1) [symmetric] ton_scan_pages.simps f
          using full off by (simp add: Let_def add.commute)
        assume "offsets_answered fetch i (Suc n) (int (i * ?L))"
        then have "offsets_answered fetch (Suc i) n (int (Suc i * ?L))"
          using full unfolding offsets_answered.simps f by (simp add: off add.commute)
        then show "take (?L + k) (drop (i * ?L) trs) = take (Suc n * ?L) (drop (i * ?L) trs)"
          using k(2) cat [of k] cat [of "n * ?L"] by simp
      qed
    next
      case False
      then have "length ?page < ?L" using Suc.prems by auto
      then show ?thesis using take_last [of trs "i * ?L" ?L "n * ?L"] False f
        by (intro exI [of _ ?L]) (simp add: Let_def)
    qed
  qed
qed

lemma ton_scan_from:
  assumes at: "ton_at lib s hist w c (v, W)" and honest: "ton_honest hist now w p c"
    and v: "v = w\<lparr>nw_pending := pend\<rparr>"
  shows "\<exists>r trs W1. scanNewTransfers lib p v W =
      (r, w\<lparr>nw_pending := track jt_TransactionHash (transfer_value lib) trs pend\<rparr>, W1) \<and>
    cursors_only W W1 \<and> snd (world_view W1 TON) = Some (ton_advance hist now w p c * 1000000000) \<and>
    set trs \<subseteq> set hist \<and>
    (\<forall>tr\<in>set hist. c < jt_TransactionNow tr \<and> jt_TransactionNow tr \<le> ton_advance hist now w p c \<longrightarrow> tr \<in> set trs)"
proof -
  define trs where "trs = transfers_from (known_by jt_TransactionNow (now p) hist) (c + 1)"
  let ?init = "\<lparr>ns_maxLt = 0, ns_maxUtime = 0, ns_pending = pend\<rparr>" and ?fetch = "fetch_transfers p w (c + 1)"
  obtain h where view: "world_view W TON = (h, Some (c * 1000000000))"
    using at by (metis ton_at_def prod.collapse snd_conv)
  have c: "0 \<le> c" "c < 2 ^ 62" and w: "nw_cursors w = world_cursors" and st: "steady (s_tolerance s) TON W"
    using at by (auto simp: ton_at_def)
  have m: "c + 1 = start_utime p (Some (c * 1000000000))"
    using c by (simp add: start_utime_def Unix_s in_i64_def)
  have sub: "set trs \<subseteq> set hist" by (auto simp: trs_def transfers_since set_since known_by_def)
  have cut: "clean_cut jt_TransactionNow 2000 trs" using honest by (simp add: ton_honest_def trs_def)
  have srv: "\<And>i ys. i * transfersPageLimit \<le> length trs \<Longrightarrow> ?fetch i (int (i * transfersPageLimit)) = Inr ys \<Longrightarrow>
      ys = take transfersPageLimit (drop (i * transfersPageLimit) trs)"
    using honest unfolding ton_honest_def trs_def by blast
  obtain k where k: "snd (ton_scan_pages lib ?fetch 0 ton_maxPagesPerPoll 0 ?init) = ton_transfers lib (take k trs) ?init"
    "offsets_answered ?fetch 0 ton_maxPagesPerPoll 0 \<longrightarrow> take k trs = take 2000 trs"
    using ton_pages_honest [where fetch = ?fetch and i = 0, OF srv, of lib ton_maxPagesPerPoll ?init]
    by (auto simp: ton_maxPagesPerPoll_def transfersPageLimit_def)
  show ?thesis
  proof (cases "offsets_answered ?fetch 0 ton_maxPagesPerPoll 0")
    case True
    then have seen: "ton_scan_pages lib (fetch_transfers p v (c + 1)) 0 ton_maxPagesPerPoll 0
        \<lparr>ns_maxLt = 0, ns_maxUtime = 0, ns_pending = nw_pending v\<rparr> =
      (None, ton_transfers lib (take 2000 trs) \<lparr>ns_maxLt = 0, ns_maxUtime = 0, ns_pending = nw_pending v\<rparr>)"
      using k ton_scan_pages_answered [of lib ?fetch 0 ton_maxPagesPerPoll 0 ?init] by (simp add: v prod_eq_iff)
    have srt: "sorted (map jt_TransactionNow (take 2000 trs))" "\<forall>tr\<in>set (take 2000 trs). c + 1 \<le> jt_TransactionNow tr"
      using sorted_wrt_take [OF sorted_transfers_from, of 2000] unfolding trs_def take_map
      by (auto dest: in_set_takeD transfers_from_ge)
    have adv: "ton_advance hist now w p c = reach jt_TransactionNow 2000 hist (now p) c"
      using True by (simp add: ton_advance_def)
    obtain W1 where "scanNewTransfers lib p v W =
        (Inr (), v\<lparr>nw_pending := handle_transfers lib (take 2000 trs) (nw_pending v)\<rparr>, W1)"
      "cursors_only W W1" "snd (world_view W1 TON) = (if take 2000 trs = [] then Some (c * 1000000000)
         else Some (jt_TransactionNow (List.last (take 2000 trs)) * 1000000000))"
      using ton_scan_seen [OF _ _ _ seen m _ srt, of W h] v w steadyD(2) [OF st] view c(1) by auto
    then show ?thesis using sub reach_covers [OF cut [unfolded trs_def transfers_since], folded transfers_since, folded trs_def]
      by (intro exI [of _ "Inr ()"] exI [of _ "take 2000 trs"] exI [of _ W1])
        (auto simp: v handle_transfers_track adv reach_def Let_def transfers_since trs_def dest!: in_set_takeD)
  next
    case False
    then obtain err where err: "fst (ton_scan_pages lib ?fetch 0 ton_maxPagesPerPoll 0 ?init) = Some err"
      using ton_scan_pages_answered [of lib ?fetch 0 ton_maxPagesPerPoll 0 ?init] by auto
    have sp: "ton_scan_pages lib ?fetch 0 ton_maxPagesPerPoll 0 ?init = (Some err, ton_transfers lib (take k trs) ?init)"
      using err k(1) by (simp add: prod_eq_iff)
    obtain W1 where g: "get_cursor world_cursors TON W = (Inr (h, Some (c * 1000000000)), W1)" "world_view W1 = world_view W"
      using world_get_runs [of W TON] steadyD(2) [OF st] view by auto
    have adv: "ton_advance hist now w p c = c" using False by (simp add: ton_advance_def)
    have "scanNewTransfers lib p v W = (Inl err, w\<lparr>nw_pending := track jt_TransactionHash (transfer_value lib) (take k trs) pend\<rparr>, W1)"
      by (simp add: scanNewTransfers_def v w g(1) m [symmetric] sp ns_pending_transfers handle_transfers_track)
    then show ?thesis using world_cursors_only(1) [OF g(1)] g(2) view sub
      by (intro exI [of _ "Inl err"] exI [of _ "take k trs"] exI [of _ W1]) (auto simp: adv dest: in_set_takeD)
  qed
qed

definition ton_deep :: "world ton_watcher \<Rightarrow> ton_poll \<Rightarrow> jetton_transfer \<Rightarrow> bool" where
  "ton_deep w p tr \<longleftrightarrow> nc_RequiredConfirms (nw_cfg w) \<le> ton_confs (Unix (np_start p)) (jt_TransactionNow tr)"

lemma ton_advance_ge: "c \<le> ton_advance hist now w p c"
  by (simp add: ton_advance_def reach_ge)

lemma ton_reporting_poll:
  assumes at: "ton_at lib s hist w c x" and honest: "ton_honest hist now w p c"
  obtains x' where "ton_poll_step lib p x = Some x'" "ton_at lib s hist w (ton_advance hist now w p c) x'"
    "world_evolves (s_tolerance s) (snd x) (snd x')"
    "\<And>tr. tr \<in> set hist \<Longrightarrow> transfer_creditable lib tr \<Longrightarrow>
       nw_pending (fst x) (jt_TransactionHash tr) = transfer_value lib tr \<or>
         c < jt_TransactionNow tr \<and> jt_TransactionNow tr \<le> ton_advance hist now w p c \<Longrightarrow>
       accounted (w_db (snd x')) TON (jt_TransactionHash tr) \<and>
       (ton_deep w p tr \<longrightarrow> settled_tx (nc_RequiredConfirms (nw_cfg w)) (w_db (snd x')) TON (jt_TransactionHash tr)) \<and>
       (\<not> ton_deep w p tr \<longrightarrow> nw_pending (fst x') (jt_TransactionHash tr) = transfer_value lib tr)"
proof -
  let ?now = "Unix (np_start p)" and ?val = "transfer_value lib"
  obtain v W where x: "x = (v, W)" by (cases x)
  obtain pend where pend: "v = w\<lparr>nw_pending := pend\<rparr>" "finite (dom pend)"
    using at by (auto simp: ton_at_def x)
  have lib: "decimal_library lib" and inj: "inj_on jt_TransactionHash {tr \<in> set hist. ?val tr \<noteq> None}"
    and st: "steady (s_tolerance s) TON W" and sink: "nw_sink w = service_sink lib s"
    and small: "\<forall>tr\<in>set hist. jt_TransactionNow tr < 2 ^ 62" and c: "0 \<le> c" "c < 2 ^ 62"
    using at by (auto simp: ton_at_def x)
  have adv: "0 \<le> ton_advance hist now w p c" "ton_advance hist now w p c < 2 ^ 62"
    using c reach_bound [OF small c(2)] ton_advance_ge [of c hist now w p] by (auto simp: ton_advance_def)
  have now: "0 \<le> ?now" "?now < 2 ^ 33" using honest by (auto simp: ton_honest_def)
  obtain r trs W1 where scan: "scanNewTransfers lib p v W = (r, w\<lparr>nw_pending := track jt_TransactionHash ?val trs pend\<rparr>, W1)"
    and co: "cursors_only W W1" and cur: "snd (world_view W1 TON) = Some (ton_advance hist now w p c * 1000000000)"
    and new: "set trs \<subseteq> set hist"
      "\<forall>tr\<in>set hist. c < jt_TransactionNow tr \<and> jt_TransactionNow tr \<le> ton_advance hist now w p c \<longrightarrow> tr \<in> set trs"
    using ton_scan_from [OF at [unfolded x] honest pend(1)] by blast
  define pend1 where "pend1 = track jt_TransactionHash ?val trs pend"
  have fin: "finite (dom pend1)" by (simp add: pend1_def finite_track pend(2))
  have rng: "range_order (np_range p pend1) pend1" using honest fin by (simp add: ton_honest_def)
  define w1 where "w1 = w\<lparr>nw_pending := pend1\<rparr>"
  define reps where "reps = map (\<lambda>tx. ton_event p ?now tx (the (pend1 tx))) (np_range p pend1)"
  define W2 where "W2 = deliver (service_sink lib s) reps W1"
  let ?x' = "(w\<lparr>nw_pending := unfinished (ton_final ?now w1) pend1\<rparr>, W2)"
  note sw = reports_steady [OF st co W2_def]
  have step: "ton_poll_step lib p x = Some ?x'"
    by (simp add: ton_poll_step_def x pend(1) ton_pollOnce_def Let_def scan [unfolded pend(1) pend1_def [symmetric]]
        ton_refreshConfirmations_def report_items_range [OF rng] w1_def reps_def W2_def sink)
  show thesis
  proof (rule that [OF step])
    show "ton_at lib s hist w (ton_advance hist now w p c) ?x'"
      using at cur sw(2,3) adv fin finite_unfinished [OF fin] by (auto simp: ton_at_def)
    show "world_evolves (s_tolerance s) (snd x) (snd ?x')" using sw(4) by (simp add: x)
  next
    fix tr assume tr: "tr \<in> set hist" "transfer_creditable lib tr"
      and or: "nw_pending (fst x) (jt_TransactionHash tr) = ?val tr \<or>
        c < jt_TransactionNow tr \<and> jt_TransactionNow tr \<le> ton_advance hist now w p c"
    let ?tx = "jt_TransactionHash tr"
    obtain t where t: "?val tr = Some t" "0 \<le> to_amount t" "numeric20_8 (to_amount t) \<noteq> None" "0 \<le> to_observed t" "to_observed t < 2 ^ 62"
      using tr(2) by (auto simp: transfer_creditable_def split: option.splits)
    have obs: "to_observed t = jt_TransactionNow tr" using t(1) by (auto simp: transfer_value_def split: option.splits)
    have "pend ?tx = Some t \<or> tr \<in> set trs" using or new(2) tr(1) t(1) by (auto simp: x pend(1))
    then have p1: "pend1 ?tx = Some t"
      unfolding pend1_def by (rule track_keeps [rotated 2]) (use inj tr(1) t(1) new(1) in \<open>auto simp: inj_on_def\<close>)
    have e: "ev_chain (ton_event p ?now ?tx t) = TON" "ev_tx (ton_event p ?now ?tx t) = ?tx"
      "ev_amount (ton_event p ?now ?tx t) = to_amount t" "ev_confs (ton_event p ?now ?tx t) = ton_confs ?now (jt_TransactionNow tr)"
      by (simp_all add: ton_event_def obs)
    have i32: "in_i32 (ev_confs (ton_event p ?now ?tx t))" using ton_confs_i32 [OF now t(4,5)] by (simp add: e obs)
    have fl: "ton_final ?now w1 t \<longleftrightarrow> ton_deep w p tr" by (simp add: ton_final_def ton_deep_def w1_def obs)
    note follows = refresh_follows [where mk = "ton_event p ?now", OF lib sw(1) rng p1 e(1,2) i32 _ _ W2_def [unfolded reps_def]]
    show "accounted (w_db (snd ?x')) TON ?tx \<and>
       (ton_deep w p tr \<longrightarrow> settled_tx (nc_RequiredConfirms (nw_cfg w)) (w_db (snd ?x')) TON ?tx) \<and>
       (\<not> ton_deep w p tr \<longrightarrow> nw_pending (fst ?x') ?tx = ?val tr)"
      using follows(1) follows(2) [where req = "nc_RequiredConfirms (nw_cfg w)"] follows(3) [where fin = "ton_final ?now w1"]
        t by (auto simp: e fl ton_deep_def)
  qed
qed

interpretation ton_follower: follower "ton_poll_step lib" "ton_honest hist now w" "ton_advance hist now w"
  "ton_at lib s hist w" "{tr \<in> set hist. transfer_creditable lib tr}" jt_TransactionNow "\<lambda>_. True" "ton_deep w"
  "\<lambda>x tr. nw_pending (fst x) (jt_TransactionHash tr) = transfer_value lib tr"
  "\<lambda>x tr. accounted (w_db (snd x)) TON (jt_TransactionHash tr)"
  "\<lambda>x tr. settled_tx (nc_RequiredConfirms (nw_cfg w)) (w_db (snd x)) TON (jt_TransactionHash tr)"
  for lib hist now w s
proof (unfold_locales, goal_cases)
  case (1 p c x)
  then have "world_ok (s_tolerance s) (snd x)" by (auto simp: ton_at_def steady_def)
  note keep = evolves_keeps [OF _ this]
  show ?case
    by (rule ton_reporting_poll [OF 1(2,1)], intro exI) (use keep in \<open>auto split: if_splits\<close>)
qed simp

end
