(* ===== verification/RunProperties.thy ===== *)
theory RunProperties
  imports EvmRun PagingRuns WatcherProperties
begin

text \<open>
  The properties of whole runs: what the watchers owe over any number of polls, at any
  frequency, while the network answers and the database works.
\<close>

subsection \<open>EVM\<close>

text \<open>
  C6. However often the EVM watcher polls, whichever of its requests fail, and whatever the other
  goroutines do to the database meanwhile: a run ends; the stored cursor is never behind the
  latest block of a poll whose requests were all answered; every transfer of the chain's
  history in a block after the old cursor and up to the new one is attributed to an order or
  in the review queue, and so is every transfer that was in flight, once a poll learns the
  latest block; and when the last poll finds such a transfer deep enough, its order is
  confirmed or underpaid, unless that order requires more confirmations than the watcher is
  configured for. Failing requests only delay.
\<close>

theorem evm_run_settles:
  assumes "evm_at lib s hist w h (w, W)" "\<forall>p\<in>set ps. evm_honest hist w p" "ec_Enabled (em_cfg w)"
  shows "\<exists>w' W'. evm_Run ps w W = Some (w', W') \<and>
    fst (world_view W' (em_chain w)) = fold (evm_advance w) ps h \<and>
    (\<forall>p\<in>set ps. evm_reports w p \<and> (\<forall>a b. \<not> isl (get_logs p w a b)) \<longrightarrow> top_block w p \<le> fold (evm_advance w) ps h) \<and>
    (\<forall>l\<in>set hist. creditable l \<longrightarrow>
       h < log_block l \<and> log_block l \<le> fold (evm_advance w) ps h \<or>
         em_pending w (l_txHash l) = log_value l \<and> (\<exists>p\<in>set ps. evm_reports w p) \<longrightarrow>
       accounted (w_db W') (em_chain w) (l_txHash l) \<and>
       (evm_reports w (List.last ps) \<and>
        log_block l + ec_RequiredConfirms (em_cfg w) - 1 \<le> top_block w (List.last ps) \<longrightarrow>
          settled_tx (ec_RequiredConfirms (em_cfg w)) (w_db W') (em_chain w) (l_txHash l)))"
proof -
  let ?h' = "fold (evm_advance w) ps h"
  obtain w' W' where run: "evm_Run ps w W = Some (w', W')" "evm_at lib s hist w ?h' (w', W')"
    and f: "\<forall>l\<in>{l \<in> set hist. creditable l}.
      evm_follower.followed w (w, W) l \<or> h < log_block l \<and> log_block l \<le> ?h' \<longrightarrow>
       evm_follower.followed w (w', W') l \<and>
       ((\<exists>p\<in>set ps. evm_reports w p) \<longrightarrow> accounted (w_db W') (em_chain w) (l_txHash l)) \<and>
       (ps \<noteq> [] \<and> evm_reports w (List.last ps) \<and> evm_deep w (List.last ps) l \<longrightarrow>
          settled_tx (ec_RequiredConfirms (em_cfg w)) (w_db W') (em_chain w) (l_txHash l))"
    using evm_follower.run_follows [OF _ assms(1), of ps] assms(2,3) by (auto simp: evm_Run_def evm_polls_run)
  have top: "top_block w p \<le> ?h'" if "p \<in> set ps" "evm_reports w p" "\<forall>a b. \<not> isl (get_logs p w a b)" for p
  proof (rule le_fold [OF _ that(1)])
    show "\<forall>q c. c \<le> evm_advance w q c" by (simp add: evm_advance_def)
    show "\<forall>c. top_block w p \<le> evm_advance w p c" using that by (simp add: evm_advance_def)
  qed
  have "accounted (w_db W') (em_chain w) (l_txHash l) \<and>
       (evm_reports w (List.last ps) \<and> log_block l + ec_RequiredConfirms (em_cfg w) - 1 \<le> top_block w (List.last ps) \<longrightarrow>
          settled_tx (ec_RequiredConfirms (em_cfg w)) (w_db W') (em_chain w) (l_txHash l))"
    if l: "l \<in> set hist" "creditable l" and or: "h < log_block l \<and> log_block l \<le> ?h' \<or>
         em_pending w (l_txHash l) = log_value l \<and> (\<exists>p\<in>set ps. evm_reports w p)" for l
  proof -
    have fol: "evm_follower.followed w (w, W) l \<or> h < log_block l \<and> log_block l \<le> ?h'"
      using or by (auto simp: evm_follower.followed_def)
    have rep: "\<exists>p\<in>set ps. evm_reports w p" using or evm_follower.run_passes [of h l w ps] by blast
    then have "ps \<noteq> []" by auto
    with bspec [OF f, of l] rep fol l show ?thesis by (auto simp: evm_deep_def)
  qed
  with run top show ?thesis by (intro exI [of _ w'] exI [of _ W']) (auto simp: evm_at_def)
qed

text \<open>
  Three polls around the sample transfer of block 95: at block 92, at block 100 while the node
  answers no request for logs, and at block 100 again.
\<close>

definition failing_poll :: evm_poll where
  "failing_poll = down_poll\<lparr>ep_range := sorted_range\<rparr>"

definition three_polls :: "evm_poll list" where
  "three_polls = [node_poll [] 92 7 sorted_range, failing_poll, node_poll [sample_log] 100 7 sorted_range]"

lemma sorted_range_orders: "finite (dom m) \<Longrightarrow> range_order (sorted_range m) m"
  by (simp add: range_order_def sorted_range_def)

lemma steady_still: "db_ok d \<Longrightarrow> steady tol c (still d)"
  by (simp add: steady_def still_ok)

lemma sample_log_value: "log_value sample_log = Some \<lparr>tr_amount = 10000100 / 10 ^ 6, tr_height = 95\<rparr>"
  by (simp add: log_value_def sample_log_def parseHexBigInt_toHexQuantity parse_toHexQuantity in_i64_def)

lemma sample_log_creditable: "creditable sample_log"
  using numeric20_8_4 [of 100001] by (simp add: creditable_def sample_log_value)

lemma node_block: "in_i64 n \<Longrightarrow> blockNumber (node_poll hist n k r) sample_watcher = Inr n"
  by (rule node_blockNumber) simp_all

lemma three_polls_honest: "\<forall>p\<in>set three_polls. evm_honest [sample_log] sample_watcher p"
proof -
  have b: "blockNumber failing_poll sample_watcher = Inr 100"
    using node_block [of 100 "[]" 7 "\<lambda>_. []"]
    by (simp add: failing_poll_def down_poll_def blockNumber_def node_poll_def in_i64_def)
  have "get_logs failing_poll sample_watcher a b \<noteq> Inr logs" for a b logs
    using down_get_logs [of a b] by (auto simp: failing_poll_def get_logs_def)
  moreover have "ep_range (node_poll hist n k r) = r" "ep_range failing_poll = sorted_range" for hist n k r
    by (simp_all add: node_poll_def failing_poll_def)
  ultimately show ?thesis
    by (simp add: three_polls_def evm_honest_def b node_block in_i64_def sorted_range_orders node_get_logs)
qed

lemma last_of_three:
  "evm_reports sample_watcher (List.last three_polls)" "top_block sample_watcher (List.last three_polls) = 100"
  "\<not> isl (get_logs (List.last three_polls) sample_watcher a b)" "List.last three_polls \<in> set three_polls"
  by (simp_all add: three_polls_def evm_reports_def top_block_def node_block in_i64_def node_get_logs)

lemma sample_at: "evm_at reference_decimal default_service [sample_log] sample_watcher 90 (sample_watcher, still one_waiting)"
proof -
  have id: "\<exists>pend. sample_watcher = sample_watcher\<lparr>em_pending := pend\<rparr> \<and> finite (dom pend)"
    by (intro exI [of _ "em_pending sample_watcher"]) (simp add: sample_watcher_def evm_NewWatcher_def)
  have "batch_blocks sample_cfg < 2 ^ 62" by (simp add: batch_blocks_def sample_cfg_def)
  then show ?thesis using id ref_dec.decimal_library_axioms
    by (simp add: evm_at_def steady_still db_ok_one_waiting inj_on_def)
qed

theorem evm_run_settles_witness:
  "\<exists>w' W'. evm_Run three_polls sample_watcher (still one_waiting) = Some (w', W') \<and>
     settled_tx 3 (w_db W') Polygon ''t''"
proof -
  have tx: "l_txHash sample_log = ''t''" by (simp add: sample_log_def)
  have cfg: "ec_Enabled (em_cfg sample_watcher)" "ec_RequiredConfirms sample_cfg = 3" by (simp_all add: sample_cfg_def)
  obtain w' W' where run: "evm_Run three_polls sample_watcher (still one_waiting) = Some (w', W')"
    and top: "top_block sample_watcher (List.last three_polls) \<le> fold (evm_advance sample_watcher) three_polls 90"
    and l: "creditable sample_log \<longrightarrow> 90 < log_block sample_log \<and> log_block sample_log \<le> fold (evm_advance sample_watcher) three_polls 90 \<longrightarrow>
      settled_tx 3 (w_db W') Polygon ''t''"
    using evm_run_settles [OF sample_at three_polls_honest cfg(1)] last_of_three tx cfg(2) by fastforce
  then show ?thesis using sample_log_creditable last_of_three(2) by auto
qed

subsection \<open>TRON\<close>

text \<open>
  C7. The same of TRON, whose server gives a poll at most 4000 events in the order of their
  timestamps. Whichever requests fail, every transfer of an event after the old cursor and up
  to the new one, and every one that was in flight, is attributed to an order or in the review
  queue, and settled once the last poll finds it deep enough. A backlog, such as the events of
  an outage, is reached at 4000 events per poll whose requests are answered.
\<close>

theorem tron_run_settles:
  assumes "tron_at lib s hist w c (w, W)" "all_good (tron_honest hist now w) (tron_advance hist now w) ps c"
    and "tc_Enabled (tw_cfg w)"
  shows "snd (world_view (snd (tron_Run lib ps w W)) Chains.Tron) = Some (fold (tron_advance hist now w) ps c * 1000000) \<and>
    (\<forall>ev\<in>set hist. event_creditable lib (tw_addressHex w) ev \<longrightarrow>
      c < ce_BlockTimestamp ev \<and> ce_BlockTimestamp ev \<le> fold (tron_advance hist now w) ps c \<or>
        tw_pending w (ce_TransactionID ev) = event_value lib (tw_addressHex w) ev \<and> (\<exists>p\<in>set ps. tron_reports w p) \<longrightarrow>
      accounted (w_db (snd (tron_Run lib ps w W))) Chains.Tron (ce_TransactionID ev) \<and>
      (tron_reports w (List.last ps) \<and>
       ce_BlockNumber ev + tc_RequiredConfirms (tw_cfg w) - 1 \<le> tron_latest w (List.last ps) \<longrightarrow>
         settled_tx (tc_RequiredConfirms (tw_cfg w)) (w_db (snd (tron_Run lib ps w W))) Chains.Tron (ce_TransactionID ev))) \<and>
    ((\<forall>p\<in>set ps. tron_reports w p \<and> (\<forall>m i fp. \<not> isl (fetch_events p w m i fp)) \<and>
        (\<forall>ev\<in>set hist. ce_BlockTimestamp ev \<le> now p)) \<longrightarrow>
       (\<forall>ev\<in>set (take (4000 * length ps) (events_from hist (c + 1))).
          ce_BlockTimestamp ev \<le> fold (tron_advance hist now w) ps c))"
proof (intro conjI impI ballI)
  let ?x' = "tron_Run lib ps w W" and ?c' = "fold (tron_advance hist now w) ps c"
  have run: "run_polls (tron_poll_step lib) ps (w, W) = Some ?x'"
    using assms(3) by (simp add: tron_Run_def tron_polls_run)
  note follows = tron_follower.run_follows [OF assms(2,1), unfolded run]
  show "snd (world_view (snd ?x') Chains.Tron) = Some (?c' * 1000000)" using follows by (auto simp: tron_at_def)
  fix ev assume ev: "ev \<in> set hist" "event_creditable lib (tw_addressHex w) ev"
    and or: "c < ce_BlockTimestamp ev \<and> ce_BlockTimestamp ev \<le> ?c' \<or>
      tw_pending w (ce_TransactionID ev) = event_value lib (tw_addressHex w) ev \<and> (\<exists>p\<in>set ps. tron_reports w p)"
  then have fol: "tron_follower.followed lib w (w, W) ev \<or> c < ce_BlockTimestamp ev \<and> ce_BlockTimestamp ev \<le> ?c'"
    by (auto simp: tron_follower.followed_def)
  have rep: "\<exists>p\<in>set ps. tron_reports w p" using or tron_follower.run_passes [of c ev hist now w ps] by blast
  then have "ps \<noteq> []" by auto
  with follows ev fol rep
  show "accounted (w_db (snd ?x')) Chains.Tron (ce_TransactionID ev)"
    "tron_reports w (List.last ps) \<and> ce_BlockNumber ev + tc_RequiredConfirms (tw_cfg w) - 1 \<le> tron_latest w (List.last ps) \<Longrightarrow>
       settled_tx (tc_RequiredConfirms (tw_cfg w)) (w_db (snd ?x')) Chains.Tron (ce_TransactionID ev)"
    by (auto simp: tron_deep_def)
next
  fix ev assume all: "\<forall>p\<in>set ps. tron_reports w p \<and> (\<forall>m i fp. \<not> isl (fetch_events p w m i fp)) \<and>
      (\<forall>ev\<in>set hist. ce_BlockTimestamp ev \<le> now p)"
    and ev: "ev \<in> set (take (4000 * length ps) (events_from hist (c + 1)))"
  show "ce_BlockTimestamp ev \<le> fold (tron_advance hist now w) ps c"
  proof (rule backlog_worked_off [OF all_good_mono [OF assms(2)] _ _ ev [unfolded events_since]])
    fix p n assume "p \<in> set ps" "tron_honest hist now w p n"
    with all show "tron_advance hist now w p n = reach ce_BlockTimestamp 4000 hist (now p) n \<and>
        clean_cut ce_BlockTimestamp 4000 (since ce_BlockTimestamp (known_by ce_BlockTimestamp (now p) hist) (n + 1))"
      by (simp add: tron_advance_def tron_honest_def events_since pages_all_answered)
  qed (use all tron_advance_ge in auto)
qed

text \<open>
  Three polls around the sample event, from just before it: the first gets no page, the second
  receives the event, the third nothing new.
\<close>

definition dead_net :: net where
  "dead_net = \<lparr>reply = (\<lambda>req k. Unreachable (ConnError ''down'')), ctx_done = (\<lambda>_. False)\<rparr>"

definition lost_tron_poll :: tron_poll where
  "lost_tron_poll = served_tron_poll\<lparr>tp_page_net := \<lambda>_. dead_net\<rparr>"

definition quiet_tron_poll :: tron_poll where
  "quiet_tron_poll = sample_tron_poll\<lparr>tp_range := sorted_range\<rparr>"

definition waiting_since :: "string \<Rightarrow> time \<Rightarrow> db" where
  "waiting_since chain t = (five_waiting chain)\<lparr>cursors := [chain \<mapsto> \<lparr>c_height = 0, c_at = Some t, c_updated = 0\<rparr>]\<rparr>"

lemma waiting_since_sel [simp]:
  "world_view (still (waiting_since chain t)) chain = (0, Some t)" "db_ok (waiting_since chain t)"
  using db_ok_five_waiting [of chain]
  by (simp_all add: waiting_since_def world_view_def cursor_view_def db_ok_def)

definition event_time :: int where "event_time = 1700000000000"

lemma sample_event_sel: "ce_BlockTimestamp sample_event = event_time" "ce_TransactionID sample_event = ''t2''"
  "ce_BlockNumber sample_event = 95"
  by (simp_all add: sample_event_def event_time_def)

lemma tron_polls_latest:
  "getLatestBlock served_tron_poll fresh_tron = Inr 100" "getLatestBlock quiet_tron_poll fresh_tron = Inr 100"
  "getLatestBlock lost_tron_poll fresh_tron = Inr 100"
  by (simp_all add: getLatestBlock_def lost_tron_poll_def served_tron_poll_def sample_event_poll_def quiet_tron_poll_def
      sample_tron_poll_def echo_tron_get)

lemma tron_polls_fetch:
  "isl (fetch_events lost_tron_poll fresh_tron m i fp)"
  "fetch_events served_tron_poll fresh_tron m i fp = Inr (event_page pages_token [sample_event] 0)"
  "fetch_events quiet_tron_poll fresh_tron m i fp = Inr (event_page pages_token [] 0)"
proof -
  show "isl (fetch_events lost_tron_poll fresh_tron m i fp)"
    by (simp add: fetch_events_def lost_tron_poll_def tron_get_def retry_def newClient_def maxAttemptsPerURL_def
        numeral_2_eq_2 rest_step_def dead_net_def Let_def)
qed (simp_all add: fetch_events_def quiet_tron_poll_def served_tron_poll_def sample_event_poll_def sample_tron_poll_def
  echo_tron_get event_page_def eventsPageLimit_def)

lemma tron_polls_advance:
  "tron_advance [sample_event] (\<lambda>_. event_time) fresh_tron lost_tron_poll c = c"
  "tron_advance [sample_event] (\<lambda>_. event_time) fresh_tron served_tron_poll 1699999399999 = event_time"
  "tron_advance [sample_event] (\<lambda>_. event_time) fresh_tron quiet_tron_poll event_time = event_time"
proof -
  have n: "maxPagesPerPoll = Suc 19" by (simp add: maxPagesPerPoll_def)
  have "\<not> pages_answered (fetch_events lost_tron_poll fresh_tron m) 0 maxPagesPerPoll []" for m
    using tron_polls_fetch(1) [of m 0 "[]"] unfolding n pages_answered.simps(2) by (auto simp: isl_def)
  then show "tron_advance [sample_event] (\<lambda>_. event_time) fresh_tron lost_tron_poll c = c" by (simp add: tron_advance_def)
  have "pages_answered (fetch_events p fresh_tron m) 0 maxPagesPerPoll []" if "p = served_tron_poll \<or> p = quiet_tron_poll" for p m
    using that unfolding n pages_answered.simps(2) by (auto simp: tron_polls_fetch event_page_def eventsPageLimit_def)
  moreover have "tron_reports fresh_tron served_tron_poll" "tron_reports fresh_tron quiet_tron_poll"
    by (simp_all add: tron_reports_def tron_polls_latest)
  moreover have "reach ce_BlockTimestamp 4000 [sample_event] event_time 1699999399999 = event_time"
    "reach ce_BlockTimestamp 4000 [sample_event] event_time event_time = event_time"
    by (simp_all add: reach_def known_by_def since_def sample_event_sel) (simp_all add: event_time_def)
  ultimately show "tron_advance [sample_event] (\<lambda>_. event_time) fresh_tron served_tron_poll 1699999399999 = event_time"
    "tron_advance [sample_event] (\<lambda>_. event_time) fresh_tron quiet_tron_poll event_time = event_time"
    by (simp_all add: tron_advance_def)
qed

abbreviation tron_polls_sample :: "tron_poll list" where
  "tron_polls_sample \<equiv> [lost_tron_poll, served_tron_poll, quiet_tron_poll]"

lemma tron_polls_honest:
  "all_good (tron_honest [sample_event] (\<lambda>_. event_time) fresh_tron) (tron_advance [sample_event] (\<lambda>_. event_time) fresh_tron)
     tron_polls_sample 1699999399999"
proof -
  let ?hist = "[sample_event]"
  have k: "known_by ce_BlockTimestamp event_time ?hist = ?hist"
    by (simp add: known_by_def sample_event_sel)
  have some: "events_from ?hist 1699999400000 = ?hist" and none: "events_from ?hist (event_time + 1) = []"
    by (simp_all add: events_from_def sample_event_sel) (simp add: event_time_def)
  have t: "pages_token 0 = []" "\<forall>i. pages_token (Suc i) \<noteq> []" by (simp_all add: pages_token_def)
  have r: "tp_range p = sorted_range" if "p \<in> set tron_polls_sample" for p
    using that by (auto simp: lost_tron_poll_def served_tron_poll_def quiet_tron_poll_def)
  have cut: "clean_cut ce_BlockTimestamp 4000 (events_from ?hist m)" "clean_cut ce_BlockTimestamp 4000 ?hist" for m
    unfolding events_since by (rule clean_cut_short, simp add: since_def)+
  have lost: "fetch_events lost_tron_poll fresh_tron m i fp \<noteq> Inr resp" for m i fp resp
    using tron_polls_fetch(1) [of m i fp] by (cases "fetch_events lost_tron_poll fresh_tron m i fp") auto
  have one: "i = 0" if "i = 0 \<or> i * eventsPageLimit < length ?hist" for i
    using that by (auto simp: eventsPageLimit_def)
  have "tron_honest ?hist (\<lambda>_. event_time) fresh_tron lost_tron_poll 1699999399999"
    using t by (auto simp: tron_honest_def k r lost cut tron_polls_latest sorted_range_orders intro!: exI [of _ pages_token])
  moreover have "tron_honest ?hist (\<lambda>_. event_time) fresh_tron served_tron_poll 1699999399999"
    using t one by (auto simp: tron_honest_def k r some cut tron_polls_fetch tron_polls_latest sorted_range_orders eventsPageLimit_def
        intro!: exI [of _ pages_token])
  moreover have "tron_honest ?hist (\<lambda>_. event_time) fresh_tron quiet_tron_poll event_time"
    using t by (auto simp: tron_honest_def k r none clean_cut_short tron_polls_fetch tron_polls_latest sorted_range_orders
        intro!: exI [of _ pages_token])
  ultimately show ?thesis by (simp add: tron_polls_advance)
qed

interpretation five_dec: decimal_library five_million
  by unfold_locales (simp add: five_million_def reference_decimal_def)

lemma fresh_watchers_hold_nothing:
  "\<exists>pend. fresh_tron = fresh_tron\<lparr>tw_pending := pend\<rparr> \<and> finite (dom pend)"
  "\<exists>pend. fresh_ton = fresh_ton\<lparr>nw_pending := pend\<rparr> \<and> finite (dom pend)"
  by (intro exI [of _ Map.empty]; simp add: fresh_tron_def fresh_ton_def sample_ton_def ton_NewWatcher_def)+

theorem tron_run_settles_witness:
  "settled_tx 3 (w_db (snd (tron_Run five_million [lost_tron_poll, served_tron_poll, quiet_tron_poll] fresh_tron
     (still (waiting_since Chains.Tron 1699999399999000000))))) Chains.Tron ''t2''"
proof -
  have at: "tron_at five_million default_service [sample_event] fresh_tron 1699999399999
      (fresh_tron, still (waiting_since Chains.Tron 1699999399999000000))"
    using fresh_watchers_hold_nothing(1) five_dec.decimal_library_axioms
    by (simp add: tron_at_def steady_still inj_on_def sample_event_sel) (simp add: event_time_def)
  have cr: "event_creditable five_million (tw_addressHex fresh_tron) sample_event"
    using numeric20_8_4 [of 50000] by (simp add: event_creditable_def served_event_value)
  have cfg: "tc_Enabled (tw_cfg fresh_tron)" "tc_RequiredConfirms (tw_cfg fresh_tron) = 3"
    by (simp_all add: fresh_tron_def sample_tron_def sample_tron_cfg_def)
  have l: "tron_latest fresh_tron quiet_tron_poll = 100" "tron_reports fresh_tron quiet_tron_poll"
    by (simp_all add: tron_latest_def tron_reports_def tron_polls_latest)
  have "(1699999399999::int) < event_time" by (simp add: event_time_def)
  then show ?thesis
    using tron_run_settles [OF at tron_polls_honest cfg(1), THEN conjunct2, THEN conjunct1, rule_format, of sample_event] cr
    by (simp add: cfg l sample_event_sel tron_polls_advance)
qed

subsection \<open>TON\<close>

text \<open>
  C8. The same of TON, with at most 2000 transfers per poll; a transfer is deep enough when
  enough seconds have passed at the last poll.
\<close>

theorem ton_run_settles:
  assumes "ton_at lib s hist w c (w, W)" "all_good (ton_honest hist now w) (ton_advance hist now w) ps c"
    and "nc_Enabled (nw_cfg w)"
  shows "snd (world_view (snd (ton_Run lib ps w W)) TON) = Some (fold (ton_advance hist now w) ps c * 1000000000) \<and>
    (\<forall>tr\<in>set hist. transfer_creditable lib tr \<longrightarrow>
      c < jt_TransactionNow tr \<and> jt_TransactionNow tr \<le> fold (ton_advance hist now w) ps c \<or>
        nw_pending w (jt_TransactionHash tr) = transfer_value lib tr \<and> ps \<noteq> [] \<longrightarrow>
      accounted (w_db (snd (ton_Run lib ps w W))) TON (jt_TransactionHash tr) \<and>
      (nc_RequiredConfirms (nw_cfg w) \<le> ton_confs (Unix (np_start (List.last ps))) (jt_TransactionNow tr) \<longrightarrow>
         settled_tx (nc_RequiredConfirms (nw_cfg w)) (w_db (snd (ton_Run lib ps w W))) TON (jt_TransactionHash tr))) \<and>
    ((\<forall>p\<in>set ps. (\<forall>m i off. \<not> isl (fetch_transfers p w m i off)) \<and> (\<forall>tr\<in>set hist. jt_TransactionNow tr \<le> now p)) \<longrightarrow>
       (\<forall>tr\<in>set (take (2000 * length ps) (transfers_from hist (c + 1))).
          jt_TransactionNow tr \<le> fold (ton_advance hist now w) ps c))"
proof (intro conjI impI ballI)
  let ?x' = "ton_Run lib ps w W" and ?c' = "fold (ton_advance hist now w) ps c"
  have run: "run_polls (ton_poll_step lib) ps (w, W) = Some ?x'"
    using assms(3) by (simp add: ton_Run_def ton_polls_run)
  note follows = ton_follower.run_follows [OF assms(2,1), unfolded run]
  show "snd (world_view (snd ?x') TON) = Some (?c' * 1000000000)" using follows by (auto simp: ton_at_def)
  fix tr assume tr: "tr \<in> set hist" "transfer_creditable lib tr"
    and or: "c < jt_TransactionNow tr \<and> jt_TransactionNow tr \<le> ?c' \<or>
      nw_pending w (jt_TransactionHash tr) = transfer_value lib tr \<and> ps \<noteq> []"
  then have fol: "ton_follower.followed lib w (w, W) tr \<or> c < jt_TransactionNow tr \<and> jt_TransactionNow tr \<le> ?c'"
    by (auto simp: ton_follower.followed_def)
  have "ps \<noteq> []" using or by auto
  with follows tr fol
  show "accounted (w_db (snd ?x')) TON (jt_TransactionHash tr)"
    "nc_RequiredConfirms (nw_cfg w) \<le> ton_confs (Unix (np_start (List.last ps))) (jt_TransactionNow tr) \<Longrightarrow>
       settled_tx (nc_RequiredConfirms (nw_cfg w)) (w_db (snd ?x')) TON (jt_TransactionHash tr)"
    by (auto simp: ton_deep_def)
next
  fix tr assume all: "\<forall>p\<in>set ps. (\<forall>m i off. \<not> isl (fetch_transfers p w m i off)) \<and> (\<forall>tr\<in>set hist. jt_TransactionNow tr \<le> now p)"
    and tr: "tr \<in> set (take (2000 * length ps) (transfers_from hist (c + 1)))"
  show "jt_TransactionNow tr \<le> fold (ton_advance hist now w) ps c"
  proof (rule backlog_worked_off [OF all_good_mono [OF assms(2)] _ _ tr [unfolded transfers_since]])
    fix p n assume "p \<in> set ps" "ton_honest hist now w p n"
    with all show "ton_advance hist now w p n = reach jt_TransactionNow 2000 hist (now p) n \<and>
        clean_cut jt_TransactionNow 2000 (since jt_TransactionNow (known_by jt_TransactionNow (now p) hist) (n + 1))"
      by (simp add: ton_advance_def ton_honest_def transfers_since offsets_all_answered)
  qed (use all ton_advance_ge in auto)
qed

text \<open>The three polls for TON.\<close>

definition lost_ton_poll :: ton_poll where
  "lost_ton_poll = served_ton_poll\<lparr>np_page_net := \<lambda>_. dead_net\<rparr>"

definition quiet_ton_poll :: ton_poll where
  "quiet_ton_poll = served_ton_poll\<lparr>np_decode := (\<lambda>_. Some [])\<rparr>"

abbreviation ton_polls_sample :: "ton_poll list" where
  "ton_polls_sample \<equiv> [lost_ton_poll, served_ton_poll, quiet_ton_poll]"

definition transfer_time :: int where "transfer_time = 1700000000"

lemma sample_transfer_sel: "jt_TransactionNow sample_transfer = transfer_time" "jt_TransactionHash sample_transfer = ''t3''"
  by (simp_all add: sample_transfer_def transfer_time_def)

lemma ton_polls_fetch:
  "isl (fetch_transfers lost_ton_poll fresh_ton m i off)"
  "fetch_transfers served_ton_poll fresh_ton m i off = Inr [sample_transfer]"
  "fetch_transfers quiet_ton_poll fresh_ton m i off = Inr []"
  by (simp_all add: fetch_transfers_def lost_ton_poll_def quiet_ton_poll_def served_ton_poll_def sample_ton_poll_def ton_get_def
      retry_def ton_newClient_def maxAttemptsPerURL_def numeral_2_eq_2 rest_step_def echo_net_def dead_net_def Let_def)

lemma ton_polls_sel:
  "p \<in> set ton_polls_sample \<Longrightarrow> np_range p = sorted_range"
  "p \<in> set ton_polls_sample \<Longrightarrow> Unix (np_start p) = 1700000100"
  by (auto simp: lost_ton_poll_def served_ton_poll_def quiet_ton_poll_def Unix_def in_i64_def)

lemma ton_polls_advance:
  "ton_advance [sample_transfer] (\<lambda>_. transfer_time) fresh_ton lost_ton_poll c = c"
  "ton_advance [sample_transfer] (\<lambda>_. transfer_time) fresh_ton served_ton_poll 1699999499 = transfer_time"
  "ton_advance [sample_transfer] (\<lambda>_. transfer_time) fresh_ton quiet_ton_poll transfer_time = transfer_time"
proof -
  have n: "ton_maxPagesPerPoll = Suc 19" by (simp add: ton_maxPagesPerPoll_def)
  have "\<not> offsets_answered (fetch_transfers lost_ton_poll fresh_ton m) 0 ton_maxPagesPerPoll 0" for m
    using ton_polls_fetch(1) [of m 0 0] unfolding n offsets_answered.simps(2) by (auto simp: isl_def)
  then show "ton_advance [sample_transfer] (\<lambda>_. transfer_time) fresh_ton lost_ton_poll c = c" by (simp add: ton_advance_def)
  have "offsets_answered (fetch_transfers p fresh_ton m) 0 ton_maxPagesPerPoll 0" if "p = served_ton_poll \<or> p = quiet_ton_poll" for p m
    using that unfolding n offsets_answered.simps(2) by (auto simp: ton_polls_fetch transfersPageLimit_def)
  moreover have "reach jt_TransactionNow 2000 [sample_transfer] transfer_time 1699999499 = transfer_time"
    "reach jt_TransactionNow 2000 [sample_transfer] transfer_time transfer_time = transfer_time"
    by (simp_all add: reach_def known_by_def since_def sample_transfer_sel) (simp_all add: transfer_time_def)
  ultimately show "ton_advance [sample_transfer] (\<lambda>_. transfer_time) fresh_ton served_ton_poll 1699999499 = transfer_time"
    "ton_advance [sample_transfer] (\<lambda>_. transfer_time) fresh_ton quiet_ton_poll transfer_time = transfer_time"
    by (simp_all add: ton_advance_def)
qed

lemma ton_polls_honest:
  "all_good (ton_honest [sample_transfer] (\<lambda>_. transfer_time) fresh_ton) (ton_advance [sample_transfer] (\<lambda>_. transfer_time) fresh_ton)
     ton_polls_sample 1699999499"
proof -
  let ?hist = "[sample_transfer]"
  have k: "known_by jt_TransactionNow transfer_time ?hist = ?hist" by (simp add: known_by_def sample_transfer_sel)
  have some: "transfers_from ?hist 1699999500 = ?hist" and none: "transfers_from ?hist (transfer_time + 1) = []"
    by (simp_all add: transfers_from_def sample_transfer_sel) (simp add: transfer_time_def)
  have cut: "clean_cut jt_TransactionNow 2000 (transfers_from ?hist m)" "clean_cut jt_TransactionNow 2000 ?hist" for m
    unfolding transfers_since by (rule clean_cut_short, simp add: since_def)+
  have lost: "fetch_transfers lost_ton_poll fresh_ton m i off \<noteq> Inr trs" for m i off trs
    using ton_polls_fetch(1) [of m i off] by (cases "fetch_transfers lost_ton_poll fresh_ton m i off") auto
  have one: "drop (i * transfersPageLimit) ?hist = ?hist" if "i * transfersPageLimit \<le> length ?hist" for i
    using that by (cases i) (auto simp: transfersPageLimit_def)
  have "ton_honest ?hist (\<lambda>_. transfer_time) fresh_ton lost_ton_poll 1699999499"
    by (simp add: ton_honest_def k ton_polls_sel lost cut sorted_range_orders)
  moreover have "ton_honest ?hist (\<lambda>_. transfer_time) fresh_ton served_ton_poll 1699999499"
    by (auto simp: ton_honest_def k ton_polls_sel some cut ton_polls_fetch sorted_range_orders one [simplified])
      (simp_all add: transfersPageLimit_def)
  moreover have "ton_honest ?hist (\<lambda>_. transfer_time) fresh_ton quiet_ton_poll transfer_time"
    by (auto simp: ton_honest_def k ton_polls_sel none cut ton_polls_fetch sorted_range_orders clean_cut_short)
  ultimately show ?thesis by (simp add: ton_polls_advance)
qed

theorem ton_run_settles_witness:
  "settled_tx 5 (w_db (snd (ton_Run five_million [lost_ton_poll, served_ton_poll, quiet_ton_poll] fresh_ton
     (still (waiting_since TON 1699999499000000000))))) TON ''t3''"
proof -
  have at: "ton_at five_million default_service [sample_transfer] fresh_ton 1699999499
      (fresh_ton, still (waiting_since TON 1699999499000000000))"
    using fresh_watchers_hold_nothing(2) five_dec.decimal_library_axioms
    by (simp add: ton_at_def steady_still inj_on_def sample_transfer_sel) (simp add: transfer_time_def)
  have cr: "transfer_creditable five_million sample_transfer"
    using numeric20_8_4 [of 50000] by (simp add: transfer_creditable_def served_transfer_value)
  have cfg: "nc_Enabled (nw_cfg fresh_ton)" "nc_RequiredConfirms (nw_cfg fresh_ton) = 5"
    by (simp_all add: fresh_ton_def sample_ton_def ton_NewWatcher_def sample_ton_cfg_def)
  have d: "5 \<le> ton_confs (Unix (np_start quiet_ton_poll)) transfer_time"
    by (simp add: ton_polls_sel transfer_time_def ton_confs_def assumedBlockTimeSeconds_def Let_def in_i64_def)
  have "(1699999499::int) < transfer_time" by (simp add: transfer_time_def)
  then show ?thesis
    using ton_run_settles [OF at ton_polls_honest cfg(1), THEN conjunct2, THEN conjunct1, rule_format, of sample_transfer] cr d
    by (simp add: cfg sample_transfer_sel ton_polls_advance)
qed

end
