(* ===== verification/Wiring.thy ===== *)
theory Wiring
  imports Service Evm Tron Ton
begin

text \<open>
  \<open>cmd/frenixpay/main.go\<close>: which watchers are built from the configuration, the addresses
  shown to payers, the service, and the start: a manager over the watchers, whose in-flight
  sets are reseeded from the database before anything runs.
\<close>

subsection \<open>A watcher of any chain\<close>

datatype 's any_watcher =
    TronW "'s tron_watcher"
  | TonW "'s ton_watcher"
  | EvmW "'s evm_watcher"

fun any_chain :: "'s any_watcher \<Rightarrow> string" where
  "any_chain (TronW w) = w_chain tron_iface w"
| "any_chain (TonW w) = w_chain ton_iface w"
| "any_chain (EvmW w) = w_chain evm_iface w"

fun any_required :: "'s any_watcher \<Rightarrow> int" where
  "any_required (TronW w) = w_required tron_iface w"
| "any_required (TonW w) = w_required ton_iface w"
| "any_required (EvmW w) = w_required evm_iface w"

fun any_seed :: "time \<Rightarrow> pending_transfer \<Rightarrow> 's any_watcher \<Rightarrow> unit res \<times> 's any_watcher" where
  "any_seed now t (TronW w) = (case w_seed tron_iface now t w of (r, w') \<Rightarrow> (r, TronW w'))"
| "any_seed now t (TonW w) = (case w_seed ton_iface now t w of (r, w') \<Rightarrow> (r, TonW w'))"
| "any_seed now t (EvmW w) = (case w_seed evm_iface now t w of (r, w') \<Rightarrow> (r, EvmW w'))"

fun in_flight :: "'s any_watcher \<Rightarrow> string \<rightharpoonup> amount \<times> int" where
  "in_flight (TronW w) = heights (tw_pending w)"
| "in_flight (TonW w) = ton_heights (nw_pending w)"
| "in_flight (EvmW w) = heights (em_pending w)"

definition any_iface :: "'s any_watcher watcher_iface" where
  "any_iface = \<lparr>w_chain = any_chain, w_required = any_required, w_seed = any_seed\<rparr>"

lemma any_iface_sel [simp]:
  "w_chain any_iface = any_chain" "w_required any_iface = any_required" "w_seed any_iface = any_seed"
  by (simp_all add: any_iface_def)

interpretation any_w: chain_watcher any_iface in_flight
proof unfold_locales
  fix now t and w :: "'s any_watcher"
  show "fst (w_seed any_iface now t w) = Inr ()"
    by (cases w) (simp_all add: tron_w.seed_result ton_w.seed_result evm.seed_result split_beta)
  show "w_chain any_iface (snd (w_seed any_iface now t w)) = w_chain any_iface w"
    by (cases w) (simp_all add: tron_w.seed_chain ton_w.seed_chain evm.seed_chain split_beta)
  show "w_required any_iface (snd (w_seed any_iface now t w)) = w_required any_iface w"
    by (cases w) (simp_all add: tron_w.seed_required ton_w.seed_required evm.seed_required split_beta)
  show "in_flight (snd (w_seed any_iface now t w)) =
      (case in_flight w (pt_tx t) of
         None \<Rightarrow> (in_flight w)(pt_tx t \<mapsto> (pt_amount t, pt_height t))
       | Some _ \<Rightarrow> in_flight w)"
    by (cases w) (simp_all add: tron_w.seed_tracked ton_w.seed_tracked evm.seed_tracked split_beta split: option.split)
qed

subsection \<open>The watchers of a configuration\<close>

definition main_watchers ::
    "(string \<Rightarrow> byte list) \<Rightarrow> (byte list \<Rightarrow> byte list) \<Rightarrow> ChainsConfig \<Rightarrow> 's sink \<Rightarrow> 's cursor_ops
      \<Rightarrow> 's any_watcher list res" where
  "main_watchers b58 sha256 cs sinkProxy cursorStore =
     (let others =
        (if nc_Enabled (cfg_TON cs) then [TonW (ton_NewWatcher (cfg_TON cs) sinkProxy cursorStore)] else []) @
        (if ec_Enabled (cfg_Polygon cs)
           then [EvmW (evm_NewWatcher Polygon (cfg_Polygon cs) sinkProxy cursorStore)] else []) @
        (if ec_Enabled (cfg_BSC cs)
           then [EvmW (evm_NewWatcher BSC (cfg_BSC cs) sinkProxy cursorStore)] else [])
      in if tc_Enabled (cfg_Tron cs) then
           case tron_NewWatcher b58 sha256 (cfg_Tron cs) sinkProxy cursorStore of
             Inl err \<Rightarrow> Inl err
           | Inr w \<Rightarrow> Inr (TronW w # others)
         else Inr others)"

definition main_addresses :: "ChainsConfig \<Rightarrow> string \<rightharpoonup> string" where
  "main_addresses cs =
     (let a0 = Map.empty;
          a1 = (if tc_Enabled (cfg_Tron cs) then a0(Chains.Tron \<mapsto> tc_Address (cfg_Tron cs)) else a0);
          a2 = (if nc_Enabled (cfg_TON cs) then a1(TON \<mapsto> nc_Address (cfg_TON cs)) else a1);
          a3 = (if ec_Enabled (cfg_Polygon cs) then a2(Polygon \<mapsto> ec_Address (cfg_Polygon cs)) else a2)
      in if ec_Enabled (cfg_BSC cs) then a3(BSC \<mapsto> ec_Address (cfg_BSC cs)) else a3)"

definition main_service :: "Config \<Rightarrow> service" where
  "main_service cfg =
     \<lparr>s_expiry = OrderExpiry cfg, s_tolerance = AmountTolerance cfg,
      s_max_gap = UnderpaymentMaxGapPercent cfg, s_offset_min = OffsetMinTenThousandths cfg,
      s_offset_max = OffsetMaxTenThousandths cfg, s_max_retries = MaxCollisionRetries cfg\<rparr>"

text \<open>
  The start, up to the moment the manager runs; \<open>ks\<close> is the order in which \<open>Chains()\<close> lists
  the manager's map.
\<close>

definition startup ::
    "(string \<Rightarrow> byte list) \<Rightarrow> (byte list \<Rightarrow> byte list) \<Rightarrow> Config \<Rightarrow> 's sink \<Rightarrow> 's cursor_ops \<Rightarrow> env \<Rightarrow> time
      \<Rightarrow> string list \<Rightarrow> db \<Rightarrow> 's any_watcher manager res \<times> db" where
  "startup b58 sha256 cfg sinkProxy cursorStore e now ks d =
     (case main_watchers b58 sha256 (cfg_Chains cfg) sinkProxy cursorStore of
        Inl err \<Rightarrow> (Inl err, d)
      | Inr ws \<Rightarrow>
          (case LoadPendingTransfers e now ks (NewManager any_iface ws) d of
             (Inl err, _, d1) \<Rightarrow> (Inl err, d1)
           | (Inr _, mgr, d1) \<Rightarrow> (Inr mgr, d1)))"

text \<open>A chain is enabled in the configuration, and the confirmations it requires.\<close>

definition chain_enabled :: "ChainsConfig \<Rightarrow> string \<Rightarrow> bool" where
  "chain_enabled cs c \<longleftrightarrow>
     c = Chains.Tron \<and> tc_Enabled (cfg_Tron cs) \<or> c = TON \<and> nc_Enabled (cfg_TON cs) \<or>
     c = Polygon \<and> ec_Enabled (cfg_Polygon cs) \<or> c = BSC \<and> ec_Enabled (cfg_BSC cs)"

definition chain_confirms :: "ChainsConfig \<Rightarrow> string \<Rightarrow> int" where
  "chain_confirms cs c =
     (if c = Chains.Tron then tc_RequiredConfirms (cfg_Tron cs)
      else if c = TON then nc_RequiredConfirms (cfg_TON cs)
      else if c = Polygon then ec_RequiredConfirms (cfg_Polygon cs)
      else ec_RequiredConfirms (cfg_BSC cs))"

lemma chains_distinct [simp]:
  "Chains.Tron \<noteq> TON" "TON \<noteq> Chains.Tron" "Chains.Tron \<noteq> Polygon" "Polygon \<noteq> Chains.Tron"
  "Chains.Tron \<noteq> BSC" "BSC \<noteq> Chains.Tron" "TON \<noteq> Polygon" "Polygon \<noteq> TON" "TON \<noteq> BSC" "BSC \<noteq> TON"
  "Polygon \<noteq> BSC" "BSC \<noteq> Polygon"
  by (simp_all add: chain_defs)

lemma tron_NewWatcher_Inr:
  "tron_NewWatcher b58 sha256 cfg sink store = Inr w \<Longrightarrow> tw_cfg w = cfg \<and> tw_pending w = Map.empty"
  by (auto simp: tron_NewWatcher_def split: sum.splits)

lemma main_watchers_cases:
  assumes "main_watchers b58 sha256 cs sink store = Inr ws"
  obtains w where "tw_cfg w = cfg_Tron cs" "tw_pending w = Map.empty"
    "ws = (if tc_Enabled (cfg_Tron cs) then [TronW w] else []) @
       (if nc_Enabled (cfg_TON cs) then [TonW (ton_NewWatcher (cfg_TON cs) sink store)] else []) @
       (if ec_Enabled (cfg_Polygon cs) then [EvmW (evm_NewWatcher Polygon (cfg_Polygon cs) sink store)] else []) @
       (if ec_Enabled (cfg_BSC cs) then [EvmW (evm_NewWatcher BSC (cfg_BSC cs) sink store)] else [])"
proof (cases "tc_Enabled (cfg_Tron cs)")
  case True
  with assms obtain w where w: "tron_NewWatcher b58 sha256 (cfg_Tron cs) sink store = Inr w"
    by (auto simp: main_watchers_def split: sum.splits)
  with assms True tron_NewWatcher_Inr [OF w] show ?thesis
    by (intro that [of w]) (simp_all add: main_watchers_def Let_def)
next
  case False
  obtain w :: "'a tron_watcher" where "tw_cfg w = cfg_Tron cs" "tw_pending w = Map.empty"
    by (metis tron_watcher.select_convs(1) tron_watcher.select_convs(6))
  with assms False show ?thesis
    by (intro that [of w]) (simp_all add: main_watchers_def Let_def)
qed

lemma any_NewWatcher [simp]:
  "any_chain (TronW w) = Chains.Tron" "any_chain (TonW w2) = TON"
  "any_chain (EvmW (evm_NewWatcher c cfg sink store)) = c"
  "any_required (TronW w) = tc_RequiredConfirms (tw_cfg w)"
  "any_required (TonW (ton_NewWatcher ncfg sink store)) = nc_RequiredConfirms ncfg"
  "any_required (EvmW (evm_NewWatcher c cfg sink store)) = ec_RequiredConfirms cfg"
  "in_flight (TonW (ton_NewWatcher ncfg sink store)) = Map.empty"
  "in_flight (EvmW (evm_NewWatcher c cfg sink store)) = Map.empty"
  by (simp_all add: tron_iface_def ton_iface_def evm_iface_def evm_NewWatcher_def ton_NewWatcher_def
      heights_def ton_heights_def fun_eq_iff)

lemma in_flight_fresh_tron: "tw_pending w = Map.empty \<Longrightarrow> in_flight (TronW w) = Map.empty"
  by (simp add: heights_def fun_eq_iff)

declare any_chain.simps [simp del] any_required.simps [simp del] in_flight.simps [simp del]

lemma main_watchers_Inr:
  assumes "main_watchers b58 sha256 cs sink store = Inr ws"
  shows "distinct (map any_chain ws)"
    and "set (map any_chain ws) = {c. chain_enabled cs c}"
    and "w \<in> set ws \<Longrightarrow> any_required w = chain_confirms cs (any_chain w) \<and> in_flight w = Map.empty"
proof -
  obtain v where v: "tw_cfg v = cfg_Tron cs" "tw_pending v = Map.empty"
    and ws: "ws = (if tc_Enabled (cfg_Tron cs) then [TronW v] else []) @
       (if nc_Enabled (cfg_TON cs) then [TonW (ton_NewWatcher (cfg_TON cs) sink store)] else []) @
       (if ec_Enabled (cfg_Polygon cs) then [EvmW (evm_NewWatcher Polygon (cfg_Polygon cs) sink store)] else []) @
       (if ec_Enabled (cfg_BSC cs) then [EvmW (evm_NewWatcher BSC (cfg_BSC cs) sink store)] else [])"
    using assms by (rule main_watchers_cases) blast
  show "distinct (map any_chain ws)" by (simp add: ws)
  show "set (map any_chain ws) = {c. chain_enabled cs c}" by (auto simp: ws chain_enabled_def)
  show "any_required w = chain_confirms cs (any_chain w) \<and> in_flight w = Map.empty" if "w \<in> set ws"
    using that in_flight_fresh_tron [OF v(2)]
    by (auto simp: ws chain_confirms_def v(1) split: if_splits)
qed

lemma watchers_main:
  assumes "main_watchers b58 sha256 cs sink store = Inr ws"
  shows "watchers (NewManager any_iface ws) c = Some w \<longleftrightarrow> w \<in> set ws \<and> any_chain w = c"
    and "dom (watchers (NewManager any_iface ws)) = {c. chain_enabled cs c}"
proof -
  have one: "w = w'" if "w \<in> set ws" "w' \<in> set ws" "any_chain w = any_chain w'" for w w'
    using that main_watchers_Inr(1) [OF assms] by (auto simp: distinct_map inj_on_def)
  then have iff: "watchers (NewManager any_iface ws) c = Some w \<longleftrightarrow> w \<in> set ws \<and> any_chain w = c" for c w
    unfolding watchers_NewManager by (subst find_unique) auto
  show "watchers (NewManager any_iface ws) c = Some w \<longleftrightarrow> w \<in> set ws \<and> any_chain w = c" by (rule iff)
  show "dom (watchers (NewManager any_iface ws)) = {c. chain_enabled cs c}"
    unfolding main_watchers_Inr(2) [OF assms, symmetric] dom_def using iff by auto
qed

subsection \<open>Reseeding\<close>

text \<open>What a list of confirming orders contributes: the first order that carries the hash.\<close>

definition seeds :: "order list \<Rightarrow> string \<rightharpoonup> amount \<times> int" where
  "seeds as tx =
     (case find (\<lambda>a. o_tx a = Some tx \<and> o_received a \<noteq> None) as of
        None \<Rightarrow> None
      | Some a \<Rightarrow> Some (the (o_received a), case o_height a of None \<Rightarrow> 0 | Some h \<Rightarrow> h))"

definition tracks :: "('w \<Rightarrow> string \<rightharpoonup> amount \<times> int) \<Rightarrow> 'w manager \<Rightarrow> string \<Rightarrow> string \<rightharpoonup> amount \<times> int" where
  "tracks tracked mgr c tx = (case watchers mgr c of None \<Rightarrow> None | Some w \<Rightarrow> tracked w tx)"

lemma mgr_SeedPending_other: "c \<noteq> chain \<Longrightarrow> watchers (snd (mgr_SeedPending now chain t mgr)) c = watchers mgr c"
  by (auto simp: mgr_SeedPending_def split: option.splits prod.splits)

lemma seed_orders_keeps:
  "iface (seed_orders now chain as mgr) = iface mgr"
  "dom (watchers (seed_orders now chain as mgr)) = dom (watchers mgr)"
  "c \<noteq> chain \<Longrightarrow> watchers (seed_orders now chain as mgr) c = watchers mgr c"
  by (induction as arbitrary: mgr) (auto simp: Let_def mgr_SeedPending_other split: option.splits)

context chain_watcher
begin

lemma tracks_SeedPending:
  assumes "manager.iface mgr = iface" "chain \<in> dom (watchers mgr)"
  shows "tracks tracked (snd (mgr_SeedPending now chain t mgr)) chain tx =
    (case tracks tracked mgr chain tx of
       Some x \<Rightarrow> Some x
     | None \<Rightarrow> if tx = pt_tx t then Some (pt_amount t, pt_height t) else None)"
proof -
  obtain w where w: "watchers mgr chain = Some w" using assms(2) by blast
  then have "tracks tracked (snd (mgr_SeedPending now chain t mgr)) chain tx =
      tracked (snd (w_seed iface now t w)) tx"
    by (simp add: tracks_def mgr_SeedPending_def assms(1) split_beta)
  with w show ?thesis by (auto simp: tracks_def seed_tracked split: option.splits)
qed

lemma tracks_seed_orders:
  assumes "manager.iface mgr = iface" "chain \<in> dom (watchers mgr)"
  shows "tracks tracked (seed_orders now chain as mgr) chain tx =
    (case tracks tracked mgr chain tx of Some x \<Rightarrow> Some x | None \<Rightarrow> seeds as tx)"
  using assms
proof (induction as arbitrary: mgr)
  case Nil
  then show ?case by (simp add: seeds_def split: option.split)
next
  case (Cons a as)
  show ?case
  proof (cases "o_tx a = None \<or> o_received a = None")
    case True
    then have "seed_orders now chain (a # as) mgr = seed_orders now chain as mgr"
      by (auto split: option.splits)
    moreover have "seeds (a # as) tx = seeds as tx" using True by (auto simp: seeds_def)
    ultimately show ?thesis by (simp only: Cons.IH [OF Cons.prems])
  next
    case False
    then obtain t r where a: "o_tx a = Some t" "o_received a = Some r" by auto
    define tr where "tr = \<lparr>pt_tx = t, pt_amount = r, pt_height = (case o_height a of None \<Rightarrow> 0 | Some h \<Rightarrow> h)\<rparr>"
    let ?m = "snd (mgr_SeedPending now chain tr mgr)"
    have m: "manager.iface ?m = iface" "chain \<in> dom (watchers ?m)" using Cons.prems by simp_all
    have "seed_orders now chain (a # as) mgr = seed_orders now chain as ?m" by (simp add: a tr_def Let_def)
    moreover have "seeds (a # as) tx = (if tx = t then Some (r, pt_height tr) else seeds as tx)"
      by (auto simp: seeds_def a tr_def)
    ultimately show ?thesis
      using Cons.IH [OF m] tracks_SeedPending [OF Cons.prems, of now tr tx]
      by (auto simp: tr_def split: option.splits)
  qed
qed

lemma tracks_LoadPendingTransfers:
  assumes "LoadPendingTransfers e now ks mgr d = (Inr u, mgr', d')"
    and "manager.iface mgr = iface" "distinct ks" "set ks \<subseteq> dom (watchers mgr)"
  shows "d' = d \<and> dom (watchers mgr') = dom (watchers mgr) \<and>
    (\<forall>c tx. tracks tracked mgr' c tx =
       (if c \<in> set ks then
          case tracks tracked mgr c tx of
            Some x \<Rightarrow> Some x
          | None \<Rightarrow> seeds (filter (\<lambda>a. o_chain a = c \<and> o_status a = Confirming) (orders d)) tx
        else tracks tracked mgr c tx))"
  using assms
proof (induction ks arbitrary: mgr)
  case (Cons k ks)
  let ?rows = "filter (\<lambda>a. o_chain a = k \<and> o_status a = Confirming) (orders d)"
  let ?m = "seed_orders now k ?rows mgr"
  have l: "ListConfirming e k d = (Inr ?rows, d)"
    using Cons.prems(1) by (auto simp: ListConfirming_def exec_def split: outcome.splits sum.splits prod.splits)
  have m: "manager.iface ?m = iface" "set ks \<subseteq> dom (watchers ?m)" "distinct ks" "k \<notin> set ks" "k \<in> dom (watchers mgr)"
    using Cons.prems by (auto simp: seed_orders_keeps)
  have "LoadPendingTransfers e now ks ?m d = (Inr u, mgr', d')" using Cons.prems(1) by (simp add: l)
  note IH = Cons.IH [OF this m(1,3,2)]
  have t: "tracks tracked ?m c tx = (if c = k then
      case tracks tracked mgr c tx of Some x \<Rightarrow> Some x | None \<Rightarrow> seeds ?rows tx else tracks tracked mgr c tx)" for c tx
    using tracks_seed_orders [OF Cons.prems(2) m(5), of now ?rows tx] seed_orders_keeps(3) [of c k now ?rows mgr]
    by (simp add: tracks_def)
  from IH show ?case unfolding t using m(4) by (auto simp: seed_orders_keeps(2))
qed simp

end

end
