(* ===== verification/RateLimit.thy ===== *)
theory RateLimit
  imports Strconv "HOL-Library.Signed_Division"
begin

text \<open>
  \<open>internal/ratelimit/redis.go\<close>: a fixed-window limiter over Redis. Redis is a parameter:
  a record of the two commands, on a state of any type; the locale \<open>counter_store\<close> states
  what their documentation says of them.
\<close>

record 'r redis_ops =
  r_incr :: "string \<Rightarrow> 'r \<Rightarrow> int option \<times> 'r"
  r_expire :: "string \<Rightarrow> duration \<Rightarrow> 'r \<Rightarrow> 'r"

record limiter =
  lim_limit :: int
  lim_window :: duration

definition NewLimiter :: "int \<Rightarrow> duration \<Rightarrow> limiter" where
  "NewLimiter limit window = \<lparr>lim_limit = limit, lim_window = window\<rparr>"

definition window_key :: "limiter \<Rightarrow> time \<Rightarrow> string \<Rightarrow> string res" where
  "window_key l now key =
     (let secs = lim_window l sdiv 1000000000 in
      if secs = 0 then Inl (Panic ''integer divide by zero'')
      else let windowID = i64 (now div 1000000000) sdiv secs in
        Inr (''ratelimit:'' @ key @ '':'' @ FormatInt windowID))"

definition Allow :: "'r redis_ops \<Rightarrow> limiter \<Rightarrow> time \<Rightarrow> string \<Rightarrow> 'r \<Rightarrow> bool res \<times> 'r" where
  "Allow ops l now key r =
     (case window_key l now key of
        Inl err \<Rightarrow> (Inl err, r)
      | Inr redisKey \<Rightarrow>
          (case r_incr ops redisKey r of
             (None, r1) \<Rightarrow> (Inr True, r1)
           | (Some count, r1) \<Rightarrow>
               let r2 = (if count = 1 then r_expire ops redisKey (lim_window l) r1 else r1)
               in (Inr (count \<le> lim_limit l), r2)))"

text \<open>The answers to a sequence of calls by one caller.\<close>

fun answers :: "'r redis_ops \<Rightarrow> limiter \<Rightarrow> string \<Rightarrow> time list \<Rightarrow> 'r \<Rightarrow> bool res list" where
  "answers ops l key [] r = []"
| "answers ops l key (t # ts) r =
     (case Allow ops l t key r of (b, r1) \<Rightarrow> b # answers ops l key ts r1)"

subsection \<open>Redis as it is documented\<close>

text \<open>
  \<open>count r k\<close> is the counter of a key: INCR adds one and returns the result, no command
  touches another key, and EXPIRE does not change the value (it removes the key later).
\<close>

locale counter_store =
  fixes ops :: "'r redis_ops" and count :: "'r \<Rightarrow> string \<Rightarrow> int"
  assumes incr_result: "r_incr ops k r = (Some n, r') \<Longrightarrow> n = count r k + 1 \<and> count r' = (count r)(k := n)"
    and incr_fails: "r_incr ops k r = (None, r') \<Longrightarrow> count r' = count r \<or> count r' = (count r)(k := count r k + 1)"
    and expire_keeps: "count (r_expire ops k d r) = count r"
begin

lemma Allow_up:
  assumes "window_key l now key = Inr k" "fst (r_incr ops k r) \<noteq> None"
  shows "fst (Allow ops l now key r) = Inr (count r k + 1 \<le> lim_limit l)"
    and "count (snd (Allow ops l now key r)) = (count r)(k := count r k + 1)"
proof -
  obtain n r1 where i: "r_incr ops k r = (Some n, r1)" using assms(2) by (metis option.exhaust prod.collapse)
  show "fst (Allow ops l now key r) = Inr (count r k + 1 \<le> lim_limit l)"
    "count (snd (Allow ops l now key r)) = (count r)(k := count r k + 1)"
    using incr_result [OF i] by (simp_all add: Allow_def assms(1) i Let_def expire_keeps)
qed

lemma Allow_other:
  assumes "window_key l now key = Inr k" "k' \<noteq> k"
  shows "count (snd (Allow ops l now key r)) k' = count r k'"
proof -
  obtain x r1 where i: "r_incr ops k r = (x, r1)" by (metis surj_pair)
  then show ?thesis using assms incr_result [of k r _ r1] incr_fails [of k r r1]
    by (cases x) (auto simp: Allow_def Let_def expire_keeps)
qed

lemma answers_window:
  assumes "\<And>t. t \<in> set ts \<Longrightarrow> window_key l t key = Inr k" "\<And>r. fst (r_incr ops k r) \<noteq> None"
  shows "answers ops l key ts r = map (\<lambda>i. Inr (count r k + 1 + int i \<le> lim_limit l)) [0..<length ts]"
  using assms(1)
proof (induction ts arbitrary: r)
  case (Cons t ts)
  have w: "window_key l t key = Inr k" using Cons.prems by simp
  obtain b r1 where a: "Allow ops l t key r = (b, r1)" by (metis surj_pair)
  have b: "b = Inr (count r k + 1 \<le> lim_limit l)" "count r1 = (count r)(k := count r k + 1)"
    using Allow_up [OF w assms(2)] a by (metis fst_conv, metis snd_conv)
  have up: "[0..<Suc (length ts)] = 0 # map Suc [0..<length ts]"
    by (simp add: upt_conv_Cons map_Suc_upt del: upt_Suc)
  have "answers ops l key ts r1 = map (\<lambda>i. Inr (count r1 k + 1 + int i \<le> lim_limit l)) [0..<length ts]"
    using Cons.prems by (intro Cons.IH) simp
  then show ?case by (simp add: a b up comp_def algebra_simps del: upt_Suc)
qed simp

end

text \<open>A map of counters behaves that way.\<close>

definition map_redis :: "(string \<Rightarrow> int) redis_ops" where
  "map_redis = \<lparr>r_incr = (\<lambda>k r. (Some (r k + 1), r(k := r k + 1))), r_expire = (\<lambda>_ _ r. r)\<rparr>"

interpretation map_redis: counter_store map_redis "\<lambda>r. r"
  by unfold_locales (auto simp: map_redis_def)

end
