(* ===== verification/Api.thy ===== *)
theory Api
  imports Creation RateLimit
begin

text \<open>
  \<open>internal/api\<close>: the middlewares, the handlers, the responses and the router. What is not
  code of the repository is a parameter: the JSON decoder, the UUID parser and printer,
  \<open>time.Format\<close>. A handler that panics ends in \<open>Inl\<close>; chi's \<open>Recoverer\<close> turns that into
  status 500. The texts of \<open>err.Error()\<close> are kept as the errors themselves.
\<close>

subsection \<open>Requests and responses\<close>

text \<open>\<open>rq_headers r n\<close> is \<open>Header.Get\<close>: empty for a header that is not sent.\<close>

record http_req =
  rq_method :: string
  rq_path :: string
  rq_headers :: "string \<Rightarrow> string"
  rq_remote :: string
  rq_body :: string

record create_request =
  cr_user_id :: string
  cr_base_amount_usd :: string
  cr_chain :: string

text \<open>A field with \<open>omitempty\<close> that is the empty string does not appear in the JSON.\<close>

record order_response =
  or_order_id :: string
  or_user_id :: string
  or_chain :: string
  or_token :: string
  or_address :: string
  or_qr_string :: string
  or_base_amount_usd :: string
  or_expected_amount :: string
  or_received_amount :: string
  or_status :: status
  or_tx_hash :: string
  or_confirmations :: int
  or_required_confs :: int
  or_created_at :: string
  or_expires_at :: string
  or_confirmed_at :: string

record chain_info =
  ci_chain :: string
  ci_address :: string
  ci_token :: string
  ci_decimals :: int
  ci_required :: int

datatype error_text = Literal string | ErrorOf goerr

datatype payload =
    HealthJson
  | ChainsJson "chain_info list"
  | OrderJson order_response
  | ErrorJson error_text
  | RouterText

record http_resp =
  rs_status :: int
  rs_cors :: bool
  rs_payload :: payload

definition writeJSON :: "int \<Rightarrow> payload \<Rightarrow> http_resp" where
  "writeJSON st p = \<lparr>rs_status = st, rs_cors = False, rs_payload = p\<rparr>"

definition writeError :: "int \<Rightarrow> error_text \<Rightarrow> http_resp" where
  "writeError st msg = writeJSON st (ErrorJson msg)"

definition maxBodyBytes :: nat where "maxBodyBytes = 2 ^ 20"

definition decodeJSON :: "(string \<Rightarrow> 'a option) \<Rightarrow> http_req \<Rightarrow> 'a option" where
  "decodeJSON decode r = decode (take maxBodyBytes (rq_body r))"

subsection \<open>Middlewares\<close>

type_synonym 's handler = "http_req \<Rightarrow> 's \<Rightarrow> http_resp res \<times> 's"

definition apiKeyMiddleware :: "string \<Rightarrow> 's handler \<Rightarrow> 's handler" where
  "apiKeyMiddleware expectedKey next r s =
     (if rq_headers r ''X-API-Key'' = [] \<or> rq_headers r ''X-API-Key'' \<noteq> expectedKey
      then (Inr (writeError 401 (Literal ''invalid or missing X-API-Key'')), s)
      else next r s)"

text \<open>
  The header is set before the handler runs, so it would also be on the 500 of a handler that
  panics; with the limiters \<open>main\<close> builds no handler of a public route does, and this is left out.
\<close>

definition corsPublicGET :: "'s handler \<Rightarrow> 's handler" where
  "corsPublicGET next r s =
     (case next r s of
        (Inl err, s') \<Rightarrow> (Inl err, s')
      | (Inr resp, s') \<Rightarrow> (Inr (resp\<lparr>rs_cors := True\<rparr>), s'))"

text \<open>What a request can change: Redis, the database, and the request log (method, path,
  status), which is all that \<open>slogRequestLogger\<close> writes besides the time taken.\<close>

record 'r site =
  st_redis :: 'r
  st_db :: db
  st_log :: "(string \<times> string \<times> int) list"

definition rateLimitMiddleware ::
    "'r redis_ops \<Rightarrow> limiter \<Rightarrow> time \<Rightarrow> 'r site handler \<Rightarrow> 'r site handler" where
  "rateLimitMiddleware ops l now next r s =
     (case Allow ops l now (rq_remote r) (st_redis s) of
        (Inl err, rd) \<Rightarrow> (Inl err, s\<lparr>st_redis := rd\<rparr>)
      | (Inr allowed, rd) \<Rightarrow>
          if \<not> allowed
          then (Inr (writeError 429 (Literal ''rate limit exceeded'')), s\<lparr>st_redis := rd\<rparr>)
          else next r (s\<lparr>st_redis := rd\<rparr>))"

subsection \<open>Handlers\<close>

record codec =
  decode_create :: "string \<Rightarrow> create_request option"
  parse_uuid :: "string \<Rightarrow> uuid option"
  uuid_string :: "uuid \<Rightarrow> string"
  format_time :: "time \<Rightarrow> string"

record 'w handlers =
  h_orders :: service
  h_chainMgr :: "'w manager"
  h_addresses :: "string \<rightharpoonup> string"

definition NewHandlers :: "service \<Rightarrow> 'w manager \<Rightarrow> (string \<rightharpoonup> string) \<Rightarrow> 'w handlers" where
  "NewHandlers ordersSvc chainMgr addresses =
     \<lparr>h_orders = ordersSvc, h_chainMgr = chainMgr, h_addresses = addresses\<rparr>"

definition Health :: "'s handler" where
  "Health r s = (Inr (writeJSON 200 HealthJson), s)"

definition address_of :: "'w handlers \<Rightarrow> string \<Rightarrow> string" where
  "address_of h c = (case h_addresses h c of None \<Rightarrow> [] | Some a \<Rightarrow> a)"

definition chain_info_of :: "'w handlers \<Rightarrow> string \<Rightarrow> chain_info" where
  "chain_info_of h c =
     \<lparr>ci_chain = c, ci_address = address_of h c, ci_token = ''USDT'', ci_decimals = 6,
      ci_required = fst (mgr_RequiredConfirmations (h_chainMgr h) c)\<rparr>"

text \<open>\<open>ks\<close> is the order in which \<open>Chains()\<close> lists the watchers.\<close>

definition ListChains :: "'w handlers \<Rightarrow> string list \<Rightarrow> 's handler" where
  "ListChains h ks r s = (Inr (writeJSON 200 (ChainsJson (map (chain_info_of h) ks))), s)"

definition toOrderResponse :: "decimal_lib \<Rightarrow> codec \<Rightarrow> 'w handlers \<Rightarrow> order \<Rightarrow> order_response" where
  "toOrderResponse lib cd h a =
     \<lparr>or_order_id = uuid_string cd (o_id a), or_user_id = o_user_id a, or_chain = o_chain a,
      or_token = o_token a, or_address = address_of h (o_chain a), or_qr_string = address_of h (o_chain a),
      or_base_amount_usd = dec_string lib (o_base a),
      or_expected_amount = dec_string lib (o_expected a),
      or_received_amount = (case o_received a of None \<Rightarrow> [] | Some x \<Rightarrow> dec_string lib x),
      or_status = o_status a,
      or_tx_hash = (case o_tx a of None \<Rightarrow> [] | Some t \<Rightarrow> t),
      or_confirmations = o_confs a, or_required_confs = o_required a,
      or_created_at = format_time cd (o_created a), or_expires_at = format_time cd (o_expires a),
      or_confirmed_at = (case o_confirmed_at a of None \<Rightarrow> [] | Some t \<Rightarrow> format_time cd t)\<rparr>"

definition api_CreateOrder ::
    "decimal_lib \<Rightarrow> codec \<Rightarrow> env \<Rightarrow> entropy \<Rightarrow> 'w handlers \<Rightarrow> 'r site handler" where
  "api_CreateOrder lib cd e g h r s =
     (case decodeJSON (decode_create cd) r of
        None \<Rightarrow> (Inr (writeError 400 (Literal ''invalid request body'')), s)
      | Some req \<Rightarrow>
          (case dec_parse lib (cr_base_amount_usd req) of
             None \<Rightarrow> (Inr (writeError 400 (Literal ''base_amount_usd must be a valid decimal string'')), s)
           | Some amt \<Rightarrow>
               (case CreateOrder lib e g (h_orders h) (h_chainMgr h) (cr_user_id req) amt (cr_chain req) (st_db s) of
                  (Inl err, d) \<Rightarrow>
                    if is_panic err then (Inl err, s\<lparr>st_db := d\<rparr>)
                    else (Inr (writeError 400 (ErrorOf err)), s\<lparr>st_db := d\<rparr>)
                | (Inr a, d) \<Rightarrow>
                    (Inr (writeJSON 201 (OrderJson (toOrderResponse lib cd h a))), s\<lparr>st_db := d\<rparr>))))"

definition api_GetOrder ::
    "decimal_lib \<Rightarrow> codec \<Rightarrow> env \<Rightarrow> 'w handlers \<Rightarrow> string \<Rightarrow> 'r site handler" where
  "api_GetOrder lib cd e h idStr r s =
     (case parse_uuid cd idStr of
        None \<Rightarrow> (Inr (writeError 400 (Literal ''invalid order_id'')), s)
      | Some i \<Rightarrow>
          (case service_GetOrder e i (st_db s) of
             (Inl err, d) \<Rightarrow>
               if errors_is err ErrNotFound
               then (Inr (writeError 404 (Literal ''order not found'')), s\<lparr>st_db := d\<rparr>)
               else (Inr (writeError 500 (Literal ''internal error'')), s\<lparr>st_db := d\<rparr>)
           | (Inr a, d) \<Rightarrow>
               (Inr (writeJSON 200 (OrderJson (toOrderResponse lib cd h a))), s\<lparr>st_db := d\<rparr>)))"

subsection \<open>The router\<close>

datatype route = Healthz | V1Chains | V1Orders | V1Order string | NoRoute

definition route_of :: "string \<Rightarrow> route" where
  "route_of path =
     (case split_on (CHR ''/'') path of
        [[], a] \<Rightarrow> if a = ''healthz'' then Healthz else NoRoute
      | [[], a, b] \<Rightarrow>
          if a = ''v1'' \<and> b = ''chains'' then V1Chains
          else if a = ''v1'' \<and> b = ''orders'' then V1Orders else NoRoute
      | [[], a, b, c] \<Rightarrow> if a = ''v1'' \<and> b = ''orders'' \<and> c \<noteq> [] then V1Order c else NoRoute
      | _ \<Rightarrow> NoRoute)"

text \<open>
  \<open>ap_realIP\<close> is chi's \<open>RealIP\<close>, the remote address it gives the request; \<open>RequestID\<close> and
  \<open>Timeout\<close> change nothing a handler looks at here.
\<close>

record ('r, 'w) api =
  ap_realIP :: "http_req \<Rightarrow> string"
  ap_lib :: decimal_lib
  ap_codec :: codec
  ap_handlers :: "'w handlers"
  ap_key :: string
  ap_redis :: "'r redis_ops"
  ap_ordersLimiter :: limiter
  ap_publicLimiter :: limiter

text \<open>What one request meets: the environment of its statements, randomness, the time of the
  limiter, the order of \<open>Chains()\<close>.\<close>

record visit =
  v_env :: env
  v_entropy :: entropy
  v_now :: time
  v_chains :: "string list"

definition router_error :: "int \<Rightarrow> 's handler" where
  "router_error st r s = (Inr (writeJSON st RouterText), s)"

text \<open>The methods chi knows; it answers 405 to any other before it looks at the path.\<close>

definition chi_methods :: "string list" where
  "chi_methods = [''CONNECT'', ''DELETE'', ''GET'', ''HEAD'', ''OPTIONS'', ''PATCH'', ''POST'', ''PUT'', ''TRACE'']"

lemma chi_methods_known [simp]: "''GET'' \<in> set chi_methods" "''POST'' \<in> set chi_methods"
  by (simp_all add: chi_methods_def)

definition dispatch :: "('r, 'w) api \<Rightarrow> visit \<Rightarrow> 'r site handler" where
  "dispatch a v r =
     (let h = ap_handlers a; m = rq_method r;
          public = (\<lambda>hd. corsPublicGET (rateLimitMiddleware (ap_redis a) (ap_publicLimiter a) (v_now v) hd))
      in if m \<notin> set chi_methods then router_error 405 r
      else case route_of (rq_path r) of
        Healthz \<Rightarrow> if m = ''GET'' then Health r else router_error 405 r
      | V1Chains \<Rightarrow> if m = ''GET'' then public (ListChains h (v_chains v)) r else router_error 405 r
      | V1Order i \<Rightarrow>
          if m = ''GET'' then public (api_GetOrder (ap_lib a) (ap_codec a) (v_env v) h i) r
          else router_error 405 r
      | V1Orders \<Rightarrow>
          if m = ''POST'' then
            apiKeyMiddleware (ap_key a)
              (rateLimitMiddleware (ap_redis a) (ap_ordersLimiter a) (v_now v)
                (api_CreateOrder (ap_lib a) (ap_codec a) (v_env v) (v_entropy v) h)) r
          else router_error 405 r
      | NoRoute \<Rightarrow> router_error 404 r)"

definition slogRequestLogger :: "'r site handler \<Rightarrow> 'r site handler" where
  "slogRequestLogger next r s =
     (case next r s of
        (Inl err, s') \<Rightarrow> (Inl err, s')
      | (Inr resp, s') \<Rightarrow>
          (Inr resp, s'\<lparr>st_log := st_log s' @ [(rq_method r, rq_path r, rs_status resp)]\<rparr>))"

text \<open>\<open>Recoverer\<close> stands outside the logger: a request that panics is not logged.\<close>

definition recovered :: "'s handler \<Rightarrow> http_req \<Rightarrow> 's \<Rightarrow> http_resp \<times> 's" where
  "recovered next r s =
     (case next r s of
        (Inl _, s') \<Rightarrow> (writeJSON 500 RouterText, s')
      | (Inr resp, s') \<Rightarrow> (resp, s'))"

definition NewRouter :: "('r, 'w) api \<Rightarrow> visit \<Rightarrow> http_req \<Rightarrow> 'r site \<Rightarrow> http_resp \<times> 'r site" where
  "NewRouter a v r = recovered (slogRequestLogger (dispatch a v)) (r\<lparr>rq_remote := ap_realIP a r\<rparr>)"

subsection \<open>Facts\<close>

lemma st_db_rateLimit:
  "(\<And>rd. P (st_db s) (st_db (snd (next r (s\<lparr>st_redis := rd\<rparr>))))) \<Longrightarrow> P (st_db s) (st_db s) \<Longrightarrow>
   P (st_db s) (st_db (snd (rateLimitMiddleware ops l now next r s)))"
  by (auto simp: rateLimitMiddleware_def split: prod.splits sum.splits)

lemma st_db_cors [simp]: "snd (corsPublicGET next r s) = snd (next r s)"
  by (auto simp: corsPublicGET_def split: prod.splits sum.splits)

lemma GetOrder_same: "snd (GetOrder e i d) = d"
  by (auto simp: GetOrder_def exec_def split: outcome.splits sum.splits)

lemma st_db_GetOrder [simp]: "st_db (snd (api_GetOrder lib cd e h i r s)) = st_db s"
  using GetOrder_same [of e _ "st_db s"]
  by (auto simp: api_GetOrder_def split: option.splits prod.splits sum.splits) (metis snd_conv)+

lemma st_db_simple [simp]:
  "snd (Health r s) = s" "snd (ListChains h ks r s) = s" "snd (router_error n r s) = s"
  by (simp_all add: Health_def ListChains_def router_error_def)

lemma st_db_CreateOrder:
  "\<exists>u amt ch. st_db (snd (api_CreateOrder lib cd e g h r s)) \<in>
     {st_db s, snd (CreateOrder lib e g (h_orders h) (h_chainMgr h) u amt ch (st_db s))}"
  by (auto simp: api_CreateOrder_def split: option.splits prod.splits sum.splits) (metis snd_conv)+

lemma NewRouter_state [simp]:
  "st_db (snd (NewRouter a v r s)) = st_db (snd (dispatch a v (r\<lparr>rq_remote := ap_realIP a r\<rparr>) s))"
  "st_redis (snd (NewRouter a v r s)) = st_redis (snd (dispatch a v (r\<lparr>rq_remote := ap_realIP a r\<rparr>) s))"
  by (auto simp: NewRouter_def recovered_def slogRequestLogger_def split: prod.splits sum.splits)

lemma NewRouter_Inr:
  assumes "dispatch a v (r\<lparr>rq_remote := ap_realIP a r\<rparr>) s = (Inr resp, s')"
  shows "NewRouter a v r s = (resp, s'\<lparr>st_log := st_log s' @ [(rq_method r, rq_path r, rs_status resp)]\<rparr>)"
  by (simp add: NewRouter_def recovered_def slogRequestLogger_def assms)

lemma dispatch_GET_db:
  assumes "rq_method r \<noteq> ''POST''"
  shows "st_db (snd (dispatch a v r s)) = st_db s"
  using assms
  by (auto simp: dispatch_def Let_def split: route.split intro!: st_db_rateLimit [of "\<lambda>x y. y = x"])

lemma dispatch_steps: "db_steps tol (st_db s) (st_db (snd (dispatch a v r s)))"
proof (cases "rq_method r = ''POST'' \<and> route_of (rq_path r) = V1Orders \<and> rq_headers r ''X-API-Key'' \<noteq> [] \<and> rq_headers r ''X-API-Key'' = ap_key a")
  case True
  have "db_steps tol (st_db s) (st_db (snd (api_CreateOrder lib cd e g h r (s\<lparr>st_redis := rd\<rparr>))))"
    for lib cd e g and h :: "'b handlers" and rd
    using st_db_CreateOrder [of lib cd e g h r "s\<lparr>st_redis := rd\<rparr>"] CreateOrder_steps by fastforce
  then show ?thesis using True
    by (auto simp: dispatch_def Let_def apiKeyMiddleware_def intro!: st_db_rateLimit [of "db_steps tol"])
next
  case False
  then show ?thesis using dispatch_GET_db [of r a v s]
    by (cases "rq_method r = ''POST''") (auto simp: dispatch_def Let_def apiKeyMiddleware_def split: route.split)
qed

end
