(* ===== verification/Boot.thy ===== *)
theory Boot
  imports Wiring World Api Config
begin

text \<open>
  \<open>internal/db/postgres.go\<close>, \<open>internal/db/redis.go\<close> and the whole of \<open>main\<close> up to the
  moment its goroutines start: read the configuration, migrate, connect, build the watchers,
  the service and the router, reseed. The migration tool, the driver and Redis are
  parameters; a step that fails ends the process with its error.
\<close>

subsection \<open>Connections\<close>

text \<open>\<open>err_no_change\<close> is the tool's \<open>ErrNoChange\<close>: nothing to migrate.\<close>

record backends =
  err_no_change :: goerr
  migrate_new :: "string \<Rightarrow> string \<Rightarrow> goerr option"
  migrate_up :: "db \<Rightarrow> goerr option \<times> db"
  sql_connect :: "string \<Rightarrow> goerr option"
  redis_ping :: "string \<Rightarrow> int \<Rightarrow> goerr option"

definition Migrate :: "backends \<Rightarrow> string \<Rightarrow> string \<Rightarrow> db \<Rightarrow> unit res \<times> db" where
  "Migrate b dsn migrationsDir d =
     (case migrate_new b (''file://'' @ migrationsDir) dsn of
        Some err \<Rightarrow> (Inl (Wrap ''init migrator'' err), d)
      | None \<Rightarrow>
          (case migrate_up b d of
             (Some err, d1) \<Rightarrow>
               if \<not> errors_is err (err_no_change b) then (Inl (Wrap ''apply migrations'' err), d1)
               else (Inr (), d1)
           | (None, d1) \<Rightarrow> (Inr (), d1)))"

record pool =
  pl_dsn :: string
  pl_max_open :: nat
  pl_max_idle :: nat

definition Connect :: "backends \<Rightarrow> string \<Rightarrow> pool res" where
  "Connect b dsn =
     (case sql_connect b dsn of
        Some err \<Rightarrow> Inl (Wrap ''connect postgres'' err)
      | None \<Rightarrow> Inr \<lparr>pl_dsn = dsn, pl_max_open = 20, pl_max_idle = 5\<rparr>)"

definition ConnectRedis :: "backends \<Rightarrow> string \<Rightarrow> int \<Rightarrow> unit res" where
  "ConnectRedis b addr dbIndex =
     (case redis_ping b addr dbIndex of
        Some err \<Rightarrow> Inl (Wrap ''connect redis'' err)
      | None \<Rightarrow> Inr ())"

subsection \<open>The process\<close>

record http_server =
  hs_addr :: string
  hs_read_timeout :: duration
  hs_write_timeout :: duration
  hs_idle_timeout :: duration

definition main_server :: "Config \<Rightarrow> http_server" where
  "main_server cfg =
     \<lparr>hs_addr = HTTPAddr cfg, hs_read_timeout = 15 * second, hs_write_timeout = 15 * second,
      hs_idle_timeout = 60 * second\<rparr>"

text \<open>What the program runs on: the packages and programs that are not its own.\<close>

record 'r outside =
  ou_lib :: decimal_lib
  ou_duration :: "string \<Rightarrow> duration option"
  ou_env :: getenv
  ou_backends :: backends
  ou_b58 :: "string \<Rightarrow> byte list"
  ou_sha256 :: "byte list \<Rightarrow> byte list"
  ou_codec :: codec
  ou_realIP :: "http_req \<Rightarrow> string"
  ou_redis :: "'r redis_ops"

record 'r process =
  pr_pool :: pool
  pr_api :: "('r, world any_watcher) api"
  pr_server :: http_server

datatype 'p outcome_of_main = Exit1 goerr | Running 'p

definition main_router ::
    "'r outside \<Rightarrow> Config \<Rightarrow> service \<Rightarrow> 'w manager \<Rightarrow> (string \<rightharpoonup> string) \<Rightarrow> ('r, 'w) api" where
  "main_router ou cfg ordersSvc chainMgr addresses =
     \<lparr>ap_realIP = ou_realIP ou, ap_lib = ou_lib ou, ap_codec = ou_codec ou,
      ap_handlers = NewHandlers ordersSvc chainMgr addresses, ap_key = APIKey cfg,
      ap_redis = ou_redis ou,
      ap_ordersLimiter = NewLimiter (OrdersRateLimitPerMinute cfg) minute,
      ap_publicLimiter = NewLimiter (PublicRateLimitPerMinute cfg) minute\<rparr>"

text \<open>
  The sink proxy has its service by the time anything is reported, so the watchers are given
  the service's sink at once.
\<close>

definition main :: "'r outside \<Rightarrow> env \<Rightarrow> time \<Rightarrow> string list \<Rightarrow> db \<Rightarrow> 'r process outcome_of_main \<times> db" where
  "main ou e now ks d =
     (case Load (ou_lib ou) (ou_duration ou) (ou_env ou) of
        Inl err \<Rightarrow> (Exit1 err, d)
      | Inr cfg \<Rightarrow>
     (case Migrate (ou_backends ou) (PostgresDSN cfg) (MigrationsDir cfg) d of
        (Inl err, d1) \<Rightarrow> (Exit1 err, d1)
      | (Inr _, d1) \<Rightarrow>
     (case Connect (ou_backends ou) (PostgresDSN cfg) of
        Inl err \<Rightarrow> (Exit1 err, d1)
      | Inr sqlDB \<Rightarrow>
     (case ConnectRedis (ou_backends ou) (RedisAddr cfg) (RedisDB cfg) of
        Inl err \<Rightarrow> (Exit1 err, d1)
      | Inr _ \<Rightarrow>
          let ordersSvc = main_service cfg;
              sinkProxy = service_sink (ou_lib ou) ordersSvc
          in (case startup (ou_b58 ou) (ou_sha256 ou) cfg sinkProxy world_cursors e now ks d1 of
                (Inl err, d2) \<Rightarrow> (Exit1 err, d2)
              | (Inr chainMgr, d2) \<Rightarrow>
                  (Running
                     \<lparr>pr_pool = sqlDB,
                      pr_api = main_router ou cfg ordersSvc chainMgr (main_addresses (cfg_Chains cfg)),
                      pr_server = main_server cfg\<rparr>, d2))))))"

subsection \<open>Facts\<close>

lemma main_Running:
  assumes "main ou e now ks d = (Running p, d')"
  obtains cfg d1 mgr where "Load (ou_lib ou) (ou_duration ou) (ou_env ou) = Inr cfg"
    "Migrate (ou_backends ou) (PostgresDSN cfg) (MigrationsDir cfg) d = (Inr (), d1)"
    "Connect (ou_backends ou) (PostgresDSN cfg) = Inr (pr_pool p)"
    "startup (ou_b58 ou) (ou_sha256 ou) cfg (service_sink (ou_lib ou) (main_service cfg)) world_cursors e now ks d1 =
       (Inr mgr, d')"
    "pr_api p = main_router ou cfg (main_service cfg) mgr (main_addresses (cfg_Chains cfg))"
    "pr_server p = main_server cfg"
  using assms by (auto simp: main_def Let_def split: sum.splits prod.splits)

lemma main_router_handlers [simp]:
  "ap_handlers (main_router ou cfg ordersSvc chainMgr addresses) = NewHandlers ordersSvc chainMgr addresses"
  "h_chainMgr (NewHandlers ordersSvc chainMgr addresses) = chainMgr"
  "h_addresses (NewHandlers ordersSvc chainMgr addresses) = addresses"
  by (simp_all add: main_router_def NewHandlers_def)

text \<open>Seeding changes neither the chains a manager serves nor what they require.\<close>

context chain_watcher
begin

lemma required_SeedPending:
  assumes "manager.iface mgr = iface"
  shows "mgr_RequiredConfirmations (snd (mgr_SeedPending now chain t mgr)) c = mgr_RequiredConfirmations mgr c"
  using assms seed_required [of now t]
  by (auto simp: mgr_RequiredConfirmations_def mgr_SeedPending_def split_beta split: option.splits)

lemma required_seed_orders:
  "manager.iface mgr = iface \<Longrightarrow>
   mgr_RequiredConfirmations (seed_orders now chain as mgr) c = mgr_RequiredConfirmations mgr c"
  by (induction as arbitrary: mgr) (auto simp: Let_def required_SeedPending split: option.splits)

lemma required_LoadPendingTransfers:
  "manager.iface mgr = iface \<Longrightarrow> LoadPendingTransfers e now ks mgr d = (r, mgr', d') \<Longrightarrow>
   mgr_RequiredConfirmations mgr' c = mgr_RequiredConfirmations mgr c"
proof (induction ks arbitrary: mgr d)
  case (Cons k ks)
  obtain x d1 where l: "ListConfirming e k d = (x, d1)" by (metis surj_pair)
  show ?case
  proof (cases x)
    case (Inr as)
    then have "LoadPendingTransfers e now ks (seed_orders now k as mgr) d1 = (r, mgr', d')"
      using Cons.prems(2) l by simp
    from Cons.IH [OF _ this] Cons.prems(1) show ?thesis by (simp add: required_seed_orders seed_orders_keeps)
  qed (use Cons.prems l in auto)
qed simp

end

lemma ListConfirming_same: "snd (ListConfirming e c d) = d"
  by (auto simp: ListConfirming_def exec_def split: outcome.splits sum.splits)

lemma LoadPendingTransfers_same: "LoadPendingTransfers e now ks mgr d = (r, mgr', d') \<Longrightarrow> d' = d"
proof (induction ks arbitrary: mgr)
  case (Cons k ks)
  obtain x d1 where l: "ListConfirming e k d = (x, d1)" by (metis surj_pair)
  then have "d1 = d" using ListConfirming_same [of e k d] by simp
  with Cons l show ?case by (auto split: sum.splits)
qed simp

lemma startup_same: "snd (startup b58 sha256 cfg sink store e now ks d) = d"
  by (auto simp: startup_def dest: LoadPendingTransfers_same split: sum.splits prod.splits)

lemma main_database:
  "snd (main ou e now ks d) =
     (case Load (ou_lib ou) (ou_duration ou) (ou_env ou) of
        Inl _ \<Rightarrow> d
      | Inr cfg \<Rightarrow> snd (Migrate (ou_backends ou) (PostgresDSN cfg) (MigrationsDir cfg) d))"
proof (cases "Load (ou_lib ou) (ou_duration ou) (ou_env ou)")
  case (Inr cfg)
  obtain x d1 where m: "Migrate (ou_backends ou) (PostgresDSN cfg) (MigrationsDir cfg) d = (x, d1)"
    by (metis surj_pair)
  have s: "d2 = d1" if "startup b58 sha256 cfg sink store e now ks d1 = (r, d2)"
    for b58 sha256 r d2 and sink :: "world sink" and store
    using startup_same [of b58 sha256 cfg sink store e now ks d1] that by simp
  have "snd (main ou e now ks d) = d1"
    by (auto simp: main_def Inr m Let_def split: sum.splits prod.splits dest: s)
  then show ?thesis by (simp add: Inr m)
qed (simp add: main_def)

end
