(* ===== verification/SystemProperties.thy ===== *)
theory SystemProperties
  imports InFlightProperties Boot
begin

text \<open>
  The properties of the process around the components: which chains are served, what a
  restart puts back in flight and what it does not, the configuration, the rate limiter and
  the HTTP API.
\<close>

subsection \<open>Starting\<close>

lemma startup_Inr:
  assumes "startup b58 sha256 cfg sink store e now ks d = (Inr mgr, d')"
  obtains ws where "main_watchers b58 sha256 (cfg_Chains cfg) sink store = Inr ws"
    "LoadPendingTransfers e now ks (NewManager any_iface ws) d = (Inr (), mgr, d')"
  using assms by (auto simp: startup_def split: sum.splits prod.splits)

lemma iface_NewManager [simp]: "manager.iface (NewManager ops ws) = ops"
  by (simp add: NewManager_def)

lemma fresh_tracks:
  assumes "main_watchers b58 sha256 cs sink store = Inr ws"
  shows "tracks in_flight (NewManager any_iface ws) c tx = None"
  using watchers_main(1) [OF assms, of c] main_watchers_Inr(3) [OF assms]
  by (auto simp: tracks_def split: option.split)

lemma startup_tracks:
  assumes "startup b58 sha256 cfg sink store e now ks d = (Inr mgr, d')"
    and "distinct ks" "set ks = {c. chain_enabled (cfg_Chains cfg) c}"
  shows "d' = d \<and> dom (watchers mgr) = {c. chain_enabled (cfg_Chains cfg) c} \<and>
    tracks in_flight mgr c tx =
      (if chain_enabled (cfg_Chains cfg) c
       then seeds (filter (\<lambda>a. o_chain a = c \<and> o_status a = Confirming) (orders d)) tx else None)"
proof -
  obtain ws where ws: "main_watchers b58 sha256 (cfg_Chains cfg) sink store = Inr ws"
    and l: "LoadPendingTransfers e now ks (NewManager any_iface ws) d = (Inr (), mgr, d')"
    using assms(1) by (rule startup_Inr)
  have "manager.iface (NewManager any_iface ws) = any_iface" by simp
  from any_w.tracks_LoadPendingTransfers [OF l this assms(2)] assms(3) watchers_main(2) [OF ws]
  show ?thesis by (simp add: fresh_tracks [OF ws])
qed

lemma seeds_iff:
  assumes "unique_ok rows" "\<forall>a\<in>set rows. order_ok a"
  shows "seeds (filter (\<lambda>a. o_chain a = c \<and> o_status a = Confirming) rows) tx = Some (r, h) \<longleftrightarrow>
    (\<exists>a\<in>set rows. o_chain a = c \<and> o_status a = Confirming \<and> o_tx a = Some tx \<and> o_received a = Some r \<and>
       o_height a = Some h)"
proof -
  let ?P = "\<lambda>a. o_tx a = Some tx \<and> o_received a \<noteq> None"
  let ?as = "filter (\<lambda>a. o_chain a = c \<and> o_status a = Confirming) rows"
  have one: "a = b" if "a \<in> set ?as" "b \<in> set ?as" "?P a" "?P b" for a b
    using that unique_ok_txD [OF assms(1), of a b tx] by auto
  have cl: "o_received a \<noteq> None \<and> o_height a \<noteq> None" if "a \<in> set ?as" for a
    using that assms(2) by (auto simp: order_ok_def claimed_def)
  have f: "find ?P ?as = Some a \<longleftrightarrow> a \<in> set ?as \<and> ?P a" for a
    using one by (intro find_unique) blast
  show ?thesis
  proof
    assume "seeds ?as tx = Some (r, h)"
    then obtain a where a: "find ?P ?as = Some a" and v: "the (o_received a) = r"
      "(case o_height a of None \<Rightarrow> 0 | Some h \<Rightarrow> h) = h"
      by (auto simp: seeds_def split: option.splits)
    from a have "a \<in> set ?as" "?P a" using f by blast+
    with cl [of a] v show "\<exists>a\<in>set rows. o_chain a = c \<and> o_status a = Confirming \<and> o_tx a = Some tx \<and>
        o_received a = Some r \<and> o_height a = Some h" by auto
  next
    assume "\<exists>a\<in>set rows. o_chain a = c \<and> o_status a = Confirming \<and> o_tx a = Some tx \<and>
        o_received a = Some r \<and> o_height a = Some h"
    then obtain a where a: "a \<in> set ?as" "?P a" "o_received a = Some r" "o_height a = Some h" by auto
    then have "find ?P ?as = Some a" using f by blast
    with a show "seeds ?as tx = Some (r, h)" by (simp add: seeds_def)
  qed
qed

text \<open>
  C15. After a start the manager serves exactly the enabled chains, and what is in flight on
  them is exactly what the database has as confirming, with the amount received and the
  block: a restart loses no confirming order and invents none.
\<close>

theorem restart_reseeds_exactly:
  assumes "startup b58 sha256 cfg sink store e now ks d = (Inr mgr, d')" "db_ok d"
    and "distinct ks" "set ks = {c. chain_enabled (cfg_Chains cfg) c}"
  shows "d' = d \<and> dom (watchers mgr) = {c. chain_enabled (cfg_Chains cfg) c} \<and>
    (tracks in_flight mgr c tx = Some (r, h) \<longleftrightarrow> chain_enabled (cfg_Chains cfg) c \<and>
       (\<exists>a\<in>set (orders d). o_chain a = c \<and> o_status a = Confirming \<and> o_tx a = Some tx \<and>
          o_received a = Some r \<and> o_height a = Some h))"
  using startup_tracks [OF assms(1,3,4), of c tx] seeds_iff [of "orders d" c tx r h] db_okD(1,2) [OF assms(2)]
  by (simp add: db_okD)

definition polygon_config :: Config where
  "polygon_config =
     \<lparr>HTTPAddr = [], MigrationsDir = [], PostgresDSN = ''p'', RedisAddr = [], RedisDB = 0, APIKey = ''k'',
      OrdersRateLimitPerMinute = 60, PublicRateLimitPerMinute = 60, OrderExpiry = 20 * minute,
      AmountTolerance = 2 / 100, UnderpaymentMaxGapPercent = 50, OffsetMinTenThousandths = 1,
      OffsetMaxTenThousandths = 99, MaxCollisionRetries = 20,
      cfg_Chains = \<lparr>cfg_Tron = sample_tron_cfg\<lparr>tc_Enabled := False\<rparr>, cfg_TON = sample_ton_cfg\<lparr>nc_Enabled := False\<rparr>,
        cfg_Polygon = sample_cfg, cfg_BSC = sample_cfg\<lparr>ec_Enabled := False\<rparr>\<rparr>\<rparr>"

lemma polygon_enabled [simp]: "chain_enabled (cfg_Chains polygon_config) c \<longleftrightarrow> c = Polygon"
  by (auto simp: chain_enabled_def polygon_config_def sample_tron_cfg_def sample_ton_cfg_def sample_cfg_def)

lemma polygon_startup:
  "\<exists>mgr. startup (\<lambda>_. []) (\<lambda>_. []) polygon_config sink store (calm 5) 7 [Polygon] d = (Inr mgr, d)"
  by (simp add: startup_def main_watchers_def Let_def polygon_config_def sample_tron_cfg_def sample_ton_cfg_def
      sample_cfg_def ListConfirming_def)

abbreviation sample_sink :: "world sink" where
  "sample_sink \<equiv> service_sink reference_decimal default_service"

theorem restart_reseeds_exactly_witness:
  "\<exists>mgr. startup (\<lambda>_. []) (\<lambda>_. []) polygon_config sample_sink world_cursors (calm 5) 7 [Polygon] one_confirming =
       (Inr mgr, one_confirming) \<and>
     tracks in_flight mgr Polygon ''t'' = Some (100001 / 10000, 95)"
proof -
  obtain mgr where m: "startup (\<lambda>_. []) (\<lambda>_. []) polygon_config sample_sink world_cursors (calm 5) 7 [Polygon] one_confirming =
      (Inr mgr, one_confirming)" using polygon_startup by blast
  from restart_reseeds_exactly [OF m db_ok_one_confirming, of Polygon "''t''" "100001 / 10000" 95] m
  show ?thesis by auto
qed

subsection \<open>The configuration\<close>

lemma Load_Inr:
  assumes "Load lib pd env = Inr cfg"
  shows "PostgresDSN cfg \<noteq> []" "APIKey cfg \<noteq> []" "cfg_Chains cfg = loadChains pd env"
    "tc_Enabled (cfg_Tron (cfg_Chains cfg)) \<longrightarrow> tc_Address (cfg_Tron (cfg_Chains cfg)) \<noteq> []"
    "nc_Enabled (cfg_TON (cfg_Chains cfg)) \<longrightarrow> nc_Address (cfg_TON (cfg_Chains cfg)) \<noteq> []"
    "ec_Enabled (cfg_Polygon (cfg_Chains cfg)) \<longrightarrow> ec_Address (cfg_Polygon (cfg_Chains cfg)) \<noteq> []"
    "ec_Enabled (cfg_BSC (cfg_Chains cfg)) \<longrightarrow> ec_Address (cfg_BSC (cfg_Chains cfg)) \<noteq> []"
  using assms by (auto simp: Load_def Let_def split: if_splits option.splits)

lemma main_addresses_eq:
  "main_addresses cs c =
     (if c = BSC \<and> ec_Enabled (cfg_BSC cs) then Some (ec_Address (cfg_BSC cs))
      else if c = Polygon \<and> ec_Enabled (cfg_Polygon cs) then Some (ec_Address (cfg_Polygon cs))
      else if c = TON \<and> nc_Enabled (cfg_TON cs) then Some (nc_Address (cfg_TON cs))
      else if c = Chains.Tron \<and> tc_Enabled (cfg_Tron cs) then Some (tc_Address (cfg_Tron cs)) else None)"
  by (simp add: main_addresses_def Let_def)

lemma main_addresses_enabled:
  "Load lib pd env = Inr cfg \<Longrightarrow> chain_enabled (cfg_Chains cfg) c \<longleftrightarrow> main_addresses (cfg_Chains cfg) c \<noteq> None"
  "Load lib pd env = Inr cfg \<Longrightarrow> main_addresses (cfg_Chains cfg) c \<noteq> Some []"
  using Load_Inr [of lib pd env cfg]
  by (auto simp: main_addresses_eq chain_enabled_def split: if_splits)

lemma startup_required:
  assumes "startup b58 sha256 cfg sink store e now ks d = (Inr mgr, d')"
    and "chain_enabled (cfg_Chains cfg) c"
  shows "mgr_RequiredConfirmations mgr c = (chain_confirms (cfg_Chains cfg) c, True)"
proof -
  obtain ws where ws: "main_watchers b58 sha256 (cfg_Chains cfg) sink store = Inr ws"
    and l: "LoadPendingTransfers e now ks (NewManager any_iface ws) d = (Inr (), mgr, d')"
    using assms(1) by (rule startup_Inr)
  have r: "mgr_RequiredConfirmations mgr c = mgr_RequiredConfirmations (NewManager any_iface ws) c"
    by (rule any_w.required_LoadPendingTransfers [OF _ l]) simp
  obtain w where w: "watchers (NewManager any_iface ws) c = Some w"
    using watchers_main(2) [OF ws] assms(2) by (auto simp: dom_def)
  then have "w \<in> set ws" "any_chain w = c" using watchers_main(1) [OF ws] by auto
  then have "any_required w = chain_confirms (cfg_Chains cfg) c" using main_watchers_Inr(3) [OF ws] by auto
  then show ?thesis unfolding r by (simp add: mgr_RequiredConfirmations_def w)
qed

text \<open>What GET /v1/chains should show of a chain.\<close>

definition shown_chain :: "ChainsConfig \<Rightarrow> string \<Rightarrow> chain_info" where
  "shown_chain cs c =
     \<lparr>ci_chain = c, ci_address = the (main_addresses cs c), ci_token = ''USDT'', ci_decimals = 6,
      ci_required = chain_confirms cs c\<rparr>"

text \<open>
  C33. A process that runs serves its configuration: GET /v1/chains, when the limiter allows
  it, lists exactly the enabled chains, each with its configured address, which is not
  empty, and the confirmations it requires; starting changed the database only by migrating.
\<close>

theorem running_process_serves_its_configuration:
  assumes "main ou e now ks d = (Running p, d')" "Load (ou_lib ou) (ou_duration ou) (ou_env ou) = Inr cfg"
    and "distinct ks" "set ks = {c. chain_enabled (cfg_Chains cfg) c}"
    and "rq_method r = ''GET''" "route_of (rq_path r) = V1Chains"
    and "set (v_chains v) = dom (watchers (h_chainMgr (ap_handlers (pr_api p))))"
    and "fst (Allow (ou_redis ou) (NewLimiter (PublicRateLimitPerMinute cfg) minute) (v_now v) (ou_realIP ou r) (st_redis s)) =
      Inr True"
  shows "\<exists>infos. rs_status (fst (NewRouter (pr_api p) v r s)) = 200 \<and>
    rs_payload (fst (NewRouter (pr_api p) v r s)) = ChainsJson infos \<and>
    set infos = shown_chain (cfg_Chains cfg) ` {c. chain_enabled (cfg_Chains cfg) c} \<and>
    (\<forall>i\<in>set infos. ci_address i \<noteq> []) \<and>
    d' = snd (Migrate (ou_backends ou) (PostgresDSN cfg) (MigrationsDir cfg) d)"
proof -
  obtain d1 mgr where up: "startup (ou_b58 ou) (ou_sha256 ou) cfg (service_sink (ou_lib ou) (main_service cfg))
      world_cursors e now ks d1 = (Inr mgr, d')"
    and api: "pr_api p = main_router ou cfg (main_service cfg) mgr (main_addresses (cfg_Chains cfg))"
    using main_Running [OF assms(1)] assms(2) by (metis Inr_inject)
  let ?h = "ap_handlers (pr_api p)"
  have dom: "set (v_chains v) = {c. chain_enabled (cfg_Chains cfg) c}"
    using assms(7) startup_tracks [OF up assms(3,4)] by (simp add: api main_router_def NewHandlers_def)
  have info: "chain_info_of ?h c = shown_chain (cfg_Chains cfg) c" if "chain_enabled (cfg_Chains cfg) c" for c
    using startup_required [OF up that] main_addresses_enabled [OF assms(2), of c] that
    by (auto simp: shown_chain_def chain_info_of_def address_of_def api main_router_def NewHandlers_def)
  have address: "ci_address (shown_chain (cfg_Chains cfg) c) \<noteq> []" if "chain_enabled (cfg_Chains cfg) c" for c
    using main_addresses_enabled [OF assms(2), of c] that by (auto simp: shown_chain_def)
  obtain rd where al: "Allow (ou_redis ou) (NewLimiter (PublicRateLimitPerMinute cfg) minute) (v_now v) (ou_realIP ou r)
      (st_redis s) = (Inr True, rd)" using assms(8) by (metis prod.collapse)
  have "dispatch (pr_api p) v (r\<lparr>rq_remote := ap_realIP (pr_api p) r\<rparr>) s =
      (Inr (writeJSON 200 (ChainsJson (map (chain_info_of ?h) (v_chains v)))\<lparr>rs_cors := True\<rparr>), s\<lparr>st_redis := rd\<rparr>)"
    using al assms(5,6)
    by (simp add: dispatch_def Let_def corsPublicGET_def rateLimitMiddleware_def ListChains_def api main_router_def)
  note resp = NewRouter_Inr [OF this]
  have infos: "set (map (chain_info_of ?h) (v_chains v)) = shown_chain (cfg_Chains cfg) ` {c. chain_enabled (cfg_Chains cfg) c}"
    unfolding list.set_map dom by (rule image_cong) (simp_all add: info)
  have "d' = snd (Migrate (ou_backends ou) (PostgresDSN cfg) (MigrationsDir cfg) d)"
    using main_database [of ou e now ks d] assms(1,2) by simp
  with infos address show ?thesis unfolding resp
    by (intro exI [of _ "map (chain_info_of ?h) (v_chains v)"] conjI) (simp_all add: writeJSON_def)
qed

definition small_env :: getenv where
  "small_env key =
     (if key = ''POSTGRES_DSN'' then ''p'' else if key = ''API_KEY'' then ''k''
      else if key = ''TRON_ENABLED'' then ''false'' else if key = ''POLYGON_ENABLED'' then ''true''
      else if key = ''POLYGON_ADDRESS'' then ''0xab'' else [])"

definition sample_outside :: "(string \<Rightarrow> int) outside" where
  "sample_outside =
     \<lparr>ou_lib = reference_decimal, ou_duration = (\<lambda>_. None), ou_env = small_env,
      ou_backends = \<lparr>err_no_change = ConnError ''no change'', migrate_new = (\<lambda>_ _. None),
        migrate_up = (\<lambda>d. (Some (ConnError ''no change''), d)),
        sql_connect = (\<lambda>_. None), redis_ping = (\<lambda>_ _. None)\<rparr>,
      ou_b58 = (\<lambda>_. []), ou_sha256 = (\<lambda>_. []),
      ou_codec = \<lparr>decode_create = (\<lambda>_. None), parse_uuid = (\<lambda>_. None), uuid_string = (\<lambda>_. []), format_time = FormatInt\<rparr>,
      ou_realIP = rq_remote, ou_redis = map_redis\<rparr>"

lemma Load_small:
  assumes "cs = loadChains (\<lambda>_. None) small_env"
    and "\<not> tc_Enabled (cfg_Tron cs)" "\<not> nc_Enabled (cfg_TON cs)" "\<not> ec_Enabled (cfg_BSC cs)"
    "ec_Address (cfg_Polygon cs) = ''0xab''"
  shows "\<exists>cfg. Load reference_decimal (\<lambda>_. None) small_env = Inr cfg \<and> PublicRateLimitPerMinute cfg = 60 \<and>
    cfg_Chains cfg = cs"
proof -
  have e: "small_env ''POSTGRES_DSN'' = ''p''" "small_env ''API_KEY'' = ''k''" "small_env ''AMOUNT_TOLERANCE_USD'' = []"
    "small_env ''UNDERPAYMENT_MAX_GAP_PERCENT'' = []" "small_env ''PUBLIC_RATE_LIMIT_PER_MINUTE'' = []"
    by (simp_all add: small_env_def)
  show ?thesis
    using assms(2-) unfolding Load_def Let_def getEnvDecimalDefault_def assms(1) [symmetric] e
    by (simp add: getEnvIntDefault_def e)
qed

lemma small_config:
  obtains cfg where "Load (ou_lib sample_outside) (ou_duration sample_outside) (ou_env sample_outside) = Inr cfg"
    "PublicRateLimitPerMinute cfg = 60" "chain_enabled (cfg_Chains cfg) = (\<lambda>c. c = Polygon)"
    "main_addresses (cfg_Chains cfg) Polygon = Some ''0xab''"
proof -
  define cs where "cs = loadChains (\<lambda>_. None) small_env"
  have cs: "\<not> tc_Enabled (cfg_Tron cs)" "\<not> nc_Enabled (cfg_TON cs)" "ec_Enabled (cfg_Polygon cs)" "\<not> ec_Enabled (cfg_BSC cs)"
    "ec_Address (cfg_Polygon cs) = ''0xab''"
    by (simp_all add: cs_def loadChains_def loadTronConfig_def loadTONConfig_def loadEVMConfig_def small_env_def
        getEnvBoolDefault_def ParseBool_def)
  have e: "chain_enabled cs = (\<lambda>c. c = Polygon)" by (auto simp: chain_enabled_def fun_eq_iff cs)
  have a: "main_addresses cs Polygon = Some ''0xab''" by (simp add: main_addresses_eq cs)
  obtain cfg where "Load reference_decimal (\<lambda>_. None) small_env = Inr cfg" "PublicRateLimitPerMinute cfg = 60"
    "cfg_Chains cfg = cs"
    using Load_small [OF cs_def] cs by blast
  with e a show ?thesis by (intro that [of cfg]) (simp_all add: sample_outside_def)
qed

lemma small_Running:
  assumes "Load (ou_lib sample_outside) (ou_duration sample_outside) (ou_env sample_outside) = Inr cfg"
    and "\<not> tc_Enabled (cfg_Tron (cfg_Chains cfg))"
  shows "\<exists>p. main sample_outside (calm 5) 7 [Polygon] two_pending = (Running p, two_pending)"
proof -
  have "\<exists>mgr. startup (ou_b58 sample_outside) (ou_sha256 sample_outside) cfg sink store (calm 5) 7 [Polygon] two_pending =
      (Inr mgr, two_pending)" for sink :: "world sink" and store
    using assms(2) by (simp add: startup_def main_watchers_def Let_def ListConfirming_def)
  then obtain mgr where "startup (ou_b58 sample_outside) (ou_sha256 sample_outside) cfg
      (service_sink (ou_lib sample_outside) (main_service cfg)) world_cursors (calm 5) 7 [Polygon] two_pending =
      (Inr mgr, two_pending)" by blast
  moreover have "Migrate (ou_backends sample_outside) dsn dir d = (Inr (), d)" for dsn dir d
    by (simp add: Migrate_def sample_outside_def)
  moreover have "Connect (ou_backends sample_outside) dsn = Inr \<lparr>pl_dsn = dsn, pl_max_open = 20, pl_max_idle = 5\<rparr>"
    "ConnectRedis (ou_backends sample_outside) addr n = Inr ()" for dsn addr n
    by (simp_all add: Connect_def ConnectRedis_def sample_outside_def)
  ultimately show ?thesis by (simp add: main_def assms(1))
qed

theorem running_process_serves_its_configuration_witness:
  "\<exists>p infos. main sample_outside (calm 5) 7 [Polygon] two_pending = (Running p, two_pending) \<and>
     rs_payload (fst (NewRouter (pr_api p) \<lparr>v_env = calm 5, v_entropy = counting_entropy, v_now = 0, v_chains = [Polygon]\<rparr>
        \<lparr>rq_method = ''GET'', rq_path = ''/v1/chains'', rq_headers = (\<lambda>_. []), rq_remote = ''r'', rq_body = []\<rparr>
        \<lparr>st_redis = (\<lambda>_. 0), st_db = two_pending, st_log = []\<rparr>)) = ChainsJson infos \<and>
     ci_address ` set infos = {''0xab''}"
proof -
  obtain cfg where l: "Load (ou_lib sample_outside) (ou_duration sample_outside) (ou_env sample_outside) = Inr cfg"
    and c: "PublicRateLimitPerMinute cfg = 60" "chain_enabled (cfg_Chains cfg) = (\<lambda>c. c = Polygon)"
    "main_addresses (cfg_Chains cfg) Polygon = Some ''0xab''" by (rule small_config)
  from c(2) have t: "\<not> tc_Enabled (cfg_Tron (cfg_Chains cfg))"
    by (simp add: chain_enabled_def fun_eq_iff) (metis chains_distinct(3))
  obtain p where p: "main sample_outside (calm 5) 7 [Polygon] two_pending = (Running p, two_pending)"
    using small_Running [OF l t] by blast
  let ?r = "\<lparr>rq_method = ''GET'', rq_path = ''/v1/chains'', rq_headers = (\<lambda>_. []), rq_remote = ''r'', rq_body = []\<rparr>"
  let ?v = "\<lparr>v_env = calm 5, v_entropy = counting_entropy, v_now = 0, v_chains = [Polygon]\<rparr>"
  let ?s = "\<lparr>st_redis = (\<lambda>_. 0), st_db = two_pending, st_log = []\<rparr>"
  obtain mgr where up: "startup (ou_b58 sample_outside) (ou_sha256 sample_outside) cfg
      (service_sink (ou_lib sample_outside) (main_service cfg)) world_cursors (calm 5) 7 [Polygon] two_pending = (Inr mgr, two_pending)"
    and api: "h_chainMgr (ap_handlers (pr_api p)) = mgr"
    using main_Running [OF p] l main_database
    by (metis Inr_inject main_router_handlers startup_same snd_conv)
  have w: "set (v_chains ?v) = dom (watchers (h_chainMgr (ap_handlers (pr_api p))))"
    using startup_tracks [OF up] c(2) by (simp add: api)
  have al: "fst (Allow (ou_redis sample_outside) (NewLimiter (PublicRateLimitPerMinute cfg) minute) (v_now ?v)
      (ou_realIP sample_outside ?r) (st_redis ?s)) = Inr True"
    by (simp add: sample_outside_def Allow_def window_key_def NewLimiter_def minute_def second_def Let_def map_redis_def c(1)
        signed_divide_int_def)
  have rt: "route_of (rq_path ?r) = V1Chains" by (simp add: route_of_def)
  obtain infos where "rs_payload (fst (NewRouter (pr_api p) ?v ?r ?s)) = ChainsJson infos"
    "set infos = shown_chain (cfg_Chains cfg) ` {c. chain_enabled (cfg_Chains cfg) c}"
    using running_process_serves_its_configuration [OF p l _ _ _ rt w al] c(2) by auto
  with p c(2,3) show ?thesis
    by (intro exI [of _ p] exI [of _ infos]) (simp add: shown_chain_def)
qed

text \<open>
  A comma-separated list of clean names is read back as the names; no name of any list is
  empty.
\<close>

lemma fallback_urls_roundtrip:
  assumes "\<forall>s\<in>set ss. clean_name s"
  shows "splitCSV (join_with '','' ss) = ss \<and> list_all (\<lambda>p. p \<noteq> []) (splitCSV v)"
  using splitCSV_join [OF assms] splitCSV_nonempty [of _ v] by (auto simp: list_all_iff)

end
