(* ===== verification/Process.thy ===== *)
theory Process
  imports SystemProperties SettlementProperties
begin

text \<open>
  The running process: the second half of \<open>main\<close>, where the manager's watchers, the expiry
  loop and the HTTP server run side by side. One step is one request, one poll of one
  watcher, or one expiry pass; during a poll the others may run any statements of the
  program (\<open>world_ok\<close>), so the steps overlap in every way the goroutines can.
\<close>

subsection \<open>Steps\<close>

record 'r running =
  ru_api :: "('r, world any_watcher) api"
  ru_site :: "'r site"

definition ru_mgr :: "'r running \<Rightarrow> world any_watcher manager" where
  "ru_mgr R = h_chainMgr (ap_handlers (ru_api R))"

text \<open>After a poll of the watcher of a chain: its new state, and the database.\<close>

definition polled :: "string \<Rightarrow> world any_watcher \<Rightarrow> db \<Rightarrow> 'r running \<Rightarrow> 'r running" where
  "polled c w d R =
     R\<lparr>ru_api := (ru_api R)\<lparr>ap_handlers := (ap_handlers (ru_api R))
         \<lparr>h_chainMgr := (ru_mgr R)\<lparr>watchers := (watchers (ru_mgr R))(c \<mapsto> w)\<rparr>\<rparr>\<rparr>,
       ru_site := (ru_site R)\<lparr>st_db := d\<rparr>\<rparr>"

text \<open>
  The goroutines that work, one for each watcher, the expiry loop and the HTTP server, and
  what each of them does in one step.
\<close>

datatype goroutine = WatcherRun string | ExpiryLoop | ListenAndServe

inductive goroutine_step :: "decimal_lib \<Rightarrow> amount \<Rightarrow> goroutine \<Rightarrow> 'r running \<Rightarrow> 'r running \<Rightarrow> bool" for lib tol where
  request:
    "goroutine_step lib tol ListenAndServe R (R\<lparr>ru_site := snd (NewRouter (ru_api R) v r (ru_site R))\<rparr>)"
| evm_poll:
    "watchers (ru_mgr R) c = Some (EvmW w) \<Longrightarrow> world_ok tol W \<Longrightarrow> w_db W = st_db (ru_site R) \<Longrightarrow>
     evm_pollOnce p w W = Some (res, w', W') \<Longrightarrow>
     goroutine_step lib tol (WatcherRun c) R (polled c (EvmW w') (w_db W') R)"
| tron_poll:
    "watchers (ru_mgr R) c = Some (TronW w2) \<Longrightarrow> world_ok tol W \<Longrightarrow> w_db W = st_db (ru_site R) \<Longrightarrow>
     tron_pollOnce lib q w2 W = (res, w2', W') \<Longrightarrow>
     goroutine_step lib tol (WatcherRun c) R (polled c (TronW w2') (w_db W') R)"
| ton_poll:
    "watchers (ru_mgr R) c = Some (TonW w3) \<Longrightarrow> world_ok tol W \<Longrightarrow> w_db W = st_db (ru_site R) \<Longrightarrow>
     ton_pollOnce lib z w3 W = (res, w3', W') \<Longrightarrow>
     goroutine_step lib tol (WatcherRun c) R (polled c (TonW w3') (w_db W') R)"
| expiry:
    "goroutine_step lib tol ExpiryLoop R (R\<lparr>ru_site := (ru_site R)\<lparr>st_db := expireOnce e (st_db (ru_site R))\<rparr>\<rparr>)"

definition process_step :: "decimal_lib \<Rightarrow> amount \<Rightarrow> 'r running \<Rightarrow> 'r running \<Rightarrow> bool" where
  "process_step lib tol R R' \<longleftrightarrow> (\<exists>g. goroutine_step lib tol g R R')"

lemma process_stepI: "goroutine_step lib tol g R R' \<Longrightarrow> process_step lib tol R R'"
  by (auto simp: process_step_def)

abbreviation process_steps :: "decimal_lib \<Rightarrow> amount \<Rightarrow> 'r running \<Rightarrow> 'r running \<Rightarrow> bool" where
  "process_steps lib tol \<equiv> (process_step lib tol)\<^sup>*\<^sup>*"

definition started :: "'r process \<Rightarrow> 'r \<Rightarrow> db \<Rightarrow> 'r running" where
  "started p rd d = \<lparr>ru_api = pr_api p, ru_site = \<lparr>st_redis = rd, st_db = d, st_log = []\<rparr>\<rparr>"

subsection \<open>What a poll keeps\<close>

text \<open>A watcher that reports to the service and keeps its cursor in the database.\<close>

fun wired :: "decimal_lib \<Rightarrow> service \<Rightarrow> world any_watcher \<Rightarrow> bool" where
  "wired lib s (TronW w) \<longleftrightarrow> tw_sink w = service_sink lib s \<and> tw_cursors w = world_cursors"
| "wired lib s (TonW w) \<longleftrightarrow> nw_sink w = service_sink lib s \<and> nw_cursors w = world_cursors"
| "wired lib s (EvmW w) \<longleftrightarrow> em_sink w = service_sink lib s \<and> em_cursors w = world_cursors"

lemma reported_steps:
  assumes "report_items mk fin (service_sink lib s) items pend W1 = (pend', W')"
    and "cursors_only W W1" "world_ok (s_tolerance s) W"
  shows "db_steps (s_tolerance s) (w_db W) (w_db W')"
proof -
  have "world_ok (s_tolerance s) W1" by (rule cursors_only_world_ok [OF assms(2,3)])
  from service_transfers.report_items_evolves [OF this, of mk fin lib items pend]
  have "db_steps (s_tolerance s) (w_db W1) (w_db W')" unfolding assms(1) world_evolves_def by simp
  moreover have "db_steps (s_tolerance s) (w_db W) (w_db W1)" using assms(2) by (simp add: cursors_only_def)
  ultimately show ?thesis by (meson rtranclp_trans)
qed

lemma evm_poll_keeps:
  assumes "wired lib s (EvmW w)" "world_ok (s_tolerance s) W" "evm_pollOnce p w W = Some (res, w', W')"
  shows "db_steps (s_tolerance s) (w_db W) (w_db W') \<and> (\<exists>pend. w' = w\<lparr>em_pending := pend\<rparr>)"
proof (cases "blockNumber p w")
  case (Inl err)
  with assms(3) show ?thesis by (auto simp: evm_pollOnce_def intro: exI [of _ "em_pending w"])
next
  case (Inr latest)
  with assms(3) obtain x w1 W1 where sc: "scanNewLogs p latest w W = Some (x, w1, W1)"
    and ref: "evm_refreshConfirmations p latest w1 W1 = (w', W')"
    by (auto simp: evm_pollOnce_def split: option.splits prod.splits)
  obtain pend where co: "cursors_only W W1" and w1: "w1 = w\<lparr>em_pending := pend\<rparr>"
    using evm_scan_world [OF _ sc] assms(1) by auto
  show ?thesis
    using ref assms(1) w1 by (auto simp: evm_refreshConfirmations_def split: prod.splits dest: reported_steps [OF _ co assms(2)])
qed

lemma tron_poll_keeps:
  assumes "wired lib s (TronW w)" "world_ok (s_tolerance s) W" "tron_pollOnce lib' p w W = (res, w', W')"
  shows "db_steps (s_tolerance s) (w_db W) (w_db W') \<and> (\<exists>pend. w' = w\<lparr>tw_pending := pend\<rparr>)"
proof (cases "getLatestBlock p w")
  case (Inl err)
  with assms(3) show ?thesis by (auto simp: tron_pollOnce_def intro: exI [of _ "tw_pending w"])
next
  case (Inr latest)
  with assms(3) obtain x w1 W1 where sc: "scanNewEvents lib' p latest w W = (x, w1, W1)"
    and ref: "tron_refreshConfirmations p latest w1 W1 = (w', W')"
    by (auto simp: tron_pollOnce_def split: prod.splits)
  obtain pend where co: "cursors_only W W1" and w1: "w1 = w\<lparr>tw_pending := pend\<rparr>"
    using tron_scan_world [OF _ sc] assms(1) by auto
  show ?thesis
    using ref assms(1) w1 by (auto simp: tron_refreshConfirmations_def split: prod.splits dest: reported_steps [OF _ co assms(2)])
qed

lemma ton_poll_keeps:
  assumes "wired lib s (TonW w)" "world_ok (s_tolerance s) W" "ton_pollOnce lib' p w W = (res, w', W')"
  shows "db_steps (s_tolerance s) (w_db W) (w_db W') \<and> (\<exists>pend. w' = w\<lparr>nw_pending := pend\<rparr>)"
proof -
  from assms(3) obtain x w1 W1 where sc: "scanNewTransfers lib' p w W = (x, w1, W1)"
    and ref: "ton_refreshConfirmations p (Unix (np_start p)) w1 W1 = (w', W')"
    by (auto simp: ton_pollOnce_def Let_def split: prod.splits)
  obtain pend where co: "cursors_only W W1" and w1: "w1 = w\<lparr>nw_pending := pend\<rparr>"
    using ton_scan_world [OF _ sc] assms(1) by auto
  show ?thesis
    using ref assms(1) w1 by (auto simp: ton_refreshConfirmations_def split: prod.splits dest: reported_steps [OF _ co assms(2)])
qed

subsection \<open>The invariant of the process\<close>

text \<open>
  \<open>still_serves a0 R\<close>: everything of the API but the in-flight sets is what it was, and the
  manager has the same chains, with the same requirements, wired to the same service.
\<close>

definition still_serves :: "decimal_lib \<Rightarrow> service \<Rightarrow> ('r, world any_watcher) api \<Rightarrow> 'r running \<Rightarrow> bool" where
  "still_serves lib s a0 R \<longleftrightarrow>
     ap_key (ru_api R) = ap_key a0 \<and> ap_lib (ru_api R) = ap_lib a0 \<and>
     h_orders (ap_handlers (ru_api R)) = h_orders (ap_handlers a0) \<and>
     h_addresses (ap_handlers (ru_api R)) = h_addresses (ap_handlers a0) \<and>
     manager.iface (ru_mgr R) = any_iface \<and>
     (\<forall>c w. watchers (ru_mgr R) c = Some w \<longrightarrow> wired lib s w) \<and>
     (\<forall>c. mgr_RequiredConfirmations (ru_mgr R) c = mgr_RequiredConfirmations (h_chainMgr (ap_handlers a0)) c)"

lemma polled_sel [simp]:
  "ap_key (ru_api (polled c w d R)) = ap_key (ru_api R)" "ap_lib (ru_api (polled c w d R)) = ap_lib (ru_api R)"
  "h_orders (ap_handlers (ru_api (polled c w d R))) = h_orders (ap_handlers (ru_api R))"
  "h_addresses (ap_handlers (ru_api (polled c w d R))) = h_addresses (ap_handlers (ru_api R))"
  "manager.iface (ru_mgr (polled c w d R)) = manager.iface (ru_mgr R)"
  "watchers (ru_mgr (polled c w d R)) = (watchers (ru_mgr R))(c \<mapsto> w)"
  "st_db (ru_site (polled c w d R)) = d"
  by (simp_all add: polled_def ru_mgr_def)

lemma polled_serves:
  assumes "still_serves lib s a0 R" "watchers (ru_mgr R) c = Some w" "wired lib s w'" "any_required w' = any_required w"
  shows "still_serves lib s a0 (polled c w' d R)"
proof -
  have i: "manager.iface (ru_mgr R) = any_iface" using assms(1) by (simp add: still_serves_def)
  have "mgr_RequiredConfirmations (ru_mgr (polled c w' d R)) c' = mgr_RequiredConfirmations (ru_mgr R) c'" for c'
    unfolding mgr_RequiredConfirmations_def polled_sel i using assms(2,4) by simp
  with assms show ?thesis by (auto simp: still_serves_def)
qed

lemma still_serves_wired: "still_serves lib s a0 R \<Longrightarrow> watchers (ru_mgr R) c = Some w \<Longrightarrow> wired lib s w"
  by (simp add: still_serves_def)

lemma any_required_pending:
  "any_required (EvmW (w\<lparr>em_pending := pend\<rparr>)) = any_required (EvmW w)"
  "any_required (TronW (w2\<lparr>tw_pending := pend2\<rparr>)) = any_required (TronW w2)"
  "any_required (TonW (w3\<lparr>nw_pending := pend3\<rparr>)) = any_required (TonW w3)"
  by (simp_all add: any_required.simps evm_iface_def tron_iface_def ton_iface_def)

lemma goroutine_step_keeps:
  assumes "goroutine_step lib (s_tolerance s) g R R'" "still_serves lib s a0 R"
  shows "still_serves lib s a0 R' \<and> db_steps (s_tolerance s) (st_db (ru_site R)) (st_db (ru_site R'))"
  using assms
proof (induction rule: goroutine_step.induct)
  case (request R v r)
  then show ?case by (simp add: still_serves_def ru_mgr_def dispatch_steps)
next
  case (evm_poll R c w W p res w' W')
  then have wd: "wired lib s (EvmW w)" by (blast intro: still_serves_wired)
  from evm_poll_keeps [OF wd evm_poll(2,4)] obtain pend where "db_steps (s_tolerance s) (w_db W) (w_db W')"
    "w' = w\<lparr>em_pending := pend\<rparr>" by blast
  with evm_poll wd show ?case
    by (auto intro: polled_serves [of lib s a0 R c "EvmW w"] simp: any_required_pending)
next
  case (tron_poll R c w W q res w' W')
  then have wd: "wired lib s (TronW w)" by (blast intro: still_serves_wired)
  from tron_poll_keeps [OF wd tron_poll(2,4)] obtain pend where "db_steps (s_tolerance s) (w_db W) (w_db W')"
    "w' = w\<lparr>tw_pending := pend\<rparr>" by blast
  with tron_poll wd show ?case
    by (auto intro: polled_serves [of lib s a0 R c "TronW w"] simp: any_required_pending)
next
  case (ton_poll R c w W z res w' W')
  then have wd: "wired lib s (TonW w)" by (blast intro: still_serves_wired)
  from ton_poll_keeps [OF wd ton_poll(2,4)] obtain pend where "db_steps (s_tolerance s) (w_db W) (w_db W')"
    "w' = w\<lparr>nw_pending := pend\<rparr>" by blast
  with ton_poll wd show ?case
    by (auto intro: polled_serves [of lib s a0 R c "TonW w"] simp: any_required_pending)
next
  case (expiry R e)
  then show ?case using expireOnce_steps [of "s_tolerance s" "st_db (ru_site R)" e] by (simp add: still_serves_def ru_mgr_def)
qed

lemma process_step_keeps:
  assumes "process_step lib (s_tolerance s) R R'" "still_serves lib s a0 R"
  shows "still_serves lib s a0 R' \<and> db_steps (s_tolerance s) (st_db (ru_site R)) (st_db (ru_site R'))"
  using assms unfolding process_step_def by (blast dest: goroutine_step_keeps)

lemma process_steps_keep:
  assumes "process_steps lib (s_tolerance s) R R'" "still_serves lib s a0 R"
  shows "still_serves lib s a0 R' \<and> db_steps (s_tolerance s) (st_db (ru_site R)) (st_db (ru_site R'))"
  using assms by (induction rule: rtranclp_induct) (auto dest: process_step_keeps intro: rtranclp_trans)

subsection \<open>From the start\<close>

text \<open>What seeding keeps of every watcher, the manager keeps.\<close>

definition every_watcher :: "(string \<Rightarrow> 'w \<Rightarrow> bool) \<Rightarrow> 'w manager \<Rightarrow> bool" where
  "every_watcher P mgr \<longleftrightarrow> (\<forall>c w. watchers mgr c = Some w \<longrightarrow> P c w)"

lemma every_watcher_SeedPending:
  assumes "\<And>c w. P c w \<Longrightarrow> P c (snd (w_seed (manager.iface mgr) now t w))" "every_watcher P mgr"
  shows "every_watcher P (snd (mgr_SeedPending now chain t mgr))"
  using assms by (auto simp: every_watcher_def mgr_SeedPending_def split_beta split: option.splits)

lemma every_watcher_seed_orders:
  assumes "\<And>t c w. P c w \<Longrightarrow> P c (snd (w_seed ops now t w))" "manager.iface mgr = ops" "every_watcher P mgr"
  shows "every_watcher P (seed_orders now chain as mgr) \<and> manager.iface (seed_orders now chain as mgr) = ops"
  using assms(2,3)
proof (induction as arbitrary: mgr)
  case (Cons a as)
  have "every_watcher P (snd (mgr_SeedPending now chain t mgr))" for t
    by (rule every_watcher_SeedPending) (use Cons.prems assms(1) in auto)
  with Cons show ?case by (auto simp: Let_def split: option.splits)
qed simp

lemma every_watcher_LoadPendingTransfers:
  assumes "\<And>t c w. P c w \<Longrightarrow> P c (snd (w_seed ops now t w))" "manager.iface mgr = ops" "every_watcher P mgr"
    and "LoadPendingTransfers e now ks mgr d = (r, mgr', d')"
  shows "every_watcher P mgr' \<and> manager.iface mgr' = ops"
  using assms(2-4)
proof (induction ks arbitrary: mgr d)
  case (Cons k ks)
  obtain x d1 where l: "ListConfirming e k d = (x, d1)" by (metis surj_pair)
  show ?case
  proof (cases x)
    case (Inr as)
    have "every_watcher P (seed_orders now k as mgr)" "manager.iface (seed_orders now k as mgr) = ops"
      using every_watcher_seed_orders [OF assms(1) Cons.prems(1,2)] by blast+
    with Cons.IH Cons.prems(3) l Inr show ?thesis by auto
  qed (use Cons.prems l in auto)
qed auto

lemma wired_seed: "wired lib s w \<Longrightarrow> wired lib s (snd (any_seed now t w))"
  by (cases w) (simp_all add: tron_iface_def ton_iface_def evm_iface_def tron_SeedPending_def ton_SeedPending_def
      evm_SeedPending_def)

lemma wired_main_watchers:
  "main_watchers b58 sha256 cs (service_sink lib s) world_cursors = Inr ws \<Longrightarrow> w \<in> set ws \<Longrightarrow> wired lib s w"
  by (auto simp: main_watchers_def Let_def tron_NewWatcher_def ton_NewWatcher_def evm_NewWatcher_def
      split: sum.splits if_splits)

lemma startup_wired:
  assumes "startup b58 sha256 cfg (service_sink lib s) world_cursors e now ks d = (Inr mgr, d')"
  shows "every_watcher (\<lambda>_. wired lib s) mgr \<and> manager.iface mgr = any_iface"
proof -
  obtain ws where ws: "main_watchers b58 sha256 (cfg_Chains cfg) (service_sink lib s) world_cursors = Inr ws"
    and l: "LoadPendingTransfers e now ks (NewManager any_iface ws) d = (Inr (), mgr, d')"
    using assms by (rule startup_Inr)
  have "every_watcher (\<lambda>_. wired lib s) (NewManager any_iface ws)"
    using watchers_main(1) [OF ws] wired_main_watchers [OF ws] by (auto simp: every_watcher_def)
  from every_watcher_LoadPendingTransfers [OF _ _ this l] show ?thesis by (simp add: wired_seed)
qed

lemma startup_not_required:
  assumes "startup b58 sha256 cfg sink store e now ks d = (Inr mgr, d')" "distinct ks"
    and "set ks = {c. chain_enabled (cfg_Chains cfg) c}" "\<not> chain_enabled (cfg_Chains cfg) c"
  shows "mgr_RequiredConfirmations mgr c = (0, False)"
proof -
  have "dom (watchers mgr) = {c. chain_enabled (cfg_Chains cfg) c}" using startup_tracks [OF assms(1-3)] by blast
  then have "watchers mgr c = None" using assms(4) by blast
  then show ?thesis by (simp add: mgr_RequiredConfirmations_def)
qed

lemma started_serves:
  assumes "main ou e now ks d = (Running p, d')" "Load (ou_lib ou) (ou_duration ou) (ou_env ou) = Inr cfg"
  shows "still_serves (ou_lib ou) (main_service cfg) (pr_api p) (started p rd d')"
proof -
  obtain d1 mgr where up: "startup (ou_b58 ou) (ou_sha256 ou) cfg (service_sink (ou_lib ou) (main_service cfg))
      world_cursors e now ks d1 = (Inr mgr, d')"
    and api: "pr_api p = main_router ou cfg (main_service cfg) mgr (main_addresses (cfg_Chains cfg))"
    using main_Running [OF assms(1)] assms(2) by (metis Inr_inject)
  show ?thesis using startup_wired [OF up]
    by (auto simp: still_serves_def started_def ru_mgr_def api every_watcher_def)
qed

lemma running_process_keeps:
  assumes "main ou e now ks d = (Running p, d')" "Load (ou_lib ou) (ou_duration ou) (ou_env ou) = Inr cfg"
    and "distinct ks" "set ks = {c. chain_enabled (cfg_Chains cfg) c}"
    and "reachable (AmountTolerance cfg) d'"
    and "process_steps (ou_lib ou) (AmountTolerance cfg) (started p rd d') R"
  shows "reachable (AmountTolerance cfg) (st_db (ru_site R))"
    and "mgr_RequiredConfirmations (ru_mgr R) c =
      (if chain_enabled (cfg_Chains cfg) c then (chain_confirms (cfg_Chains cfg) c, True) else (0, False))"
    and "db_evolves d' (st_db (ru_site R))" "ap_key (ru_api R) = APIKey cfg"
    and "h_addresses (ap_handlers (ru_api R)) = main_addresses (cfg_Chains cfg)"
proof -
  obtain d1 mgr where up: "startup (ou_b58 ou) (ou_sha256 ou) cfg (service_sink (ou_lib ou) (main_service cfg))
      world_cursors e now ks d1 = (Inr mgr, d')"
    and api: "pr_api p = main_router ou cfg (main_service cfg) mgr (main_addresses (cfg_Chains cfg))"
    using main_Running [OF assms(1)] assms(2) by (metis Inr_inject)
  have tol: "AmountTolerance cfg = s_tolerance (main_service cfg)" by (simp add: main_service_def)
  from process_steps_keep [OF assms(6) [unfolded tol] started_serves [OF assms(1,2)]]
  have keep: "still_serves (ou_lib ou) (main_service cfg) (pr_api p) R"
    and steps: "db_steps (AmountTolerance cfg) d' (st_db (ru_site R))"
    by (simp_all add: tol started_def)
  have "mgr_RequiredConfirmations (ru_mgr R) c = mgr_RequiredConfirmations mgr c"
    using keep by (simp add: still_serves_def api)
  then have "mgr_RequiredConfirmations (ru_mgr R) c =
      (if chain_enabled (cfg_Chains cfg) c then (chain_confirms (cfg_Chains cfg) c, True) else (0, False))"
    using startup_required [OF up] startup_not_required [OF up assms(3,4)] by simp
  moreover have "ap_key (ru_api R) = APIKey cfg" "h_addresses (ap_handlers (ru_api R)) = main_addresses (cfg_Chains cfg)"
    using keep by (simp_all add: still_serves_def api) (simp add: main_router_def)
  ultimately show "reachable (AmountTolerance cfg) (st_db (ru_site R))"
    and "mgr_RequiredConfirmations (ru_mgr R) c =
      (if chain_enabled (cfg_Chains cfg) c then (chain_confirms (cfg_Chains cfg) c, True) else (0, False))"
    and "db_evolves d' (st_db (ru_site R))" "ap_key (ru_api R) = APIKey cfg"
    and "h_addresses (ap_handlers (ru_api R)) = main_addresses (cfg_Chains cfg)"
    using reachable_db_steps [OF steps assms(5)] db_steps_evolves [OF steps reachable_db_ok [OF assms(5)]] by blast+
qed

text \<open>
  C5. However the requests, polls and expiry passes of a started process are interleaved and
  whatever fails in them, the database stays reachable and only evolves, and the process
  keeps serving what it was configured to: the same chains with the same requirements, the
  same addresses, the same key.
\<close>

theorem running_process_invariant:
  assumes "main ou e now ks d = (Running p, d')" "Load (ou_lib ou) (ou_duration ou) (ou_env ou) = Inr cfg"
    and "distinct ks" "set ks = {c. chain_enabled (cfg_Chains cfg) c}"
    and "reachable (AmountTolerance cfg) d'"
    and "process_steps (ou_lib ou) (AmountTolerance cfg) (started p rd d') R"
  shows "reachable (AmountTolerance cfg) (st_db (ru_site R)) \<and> db_evolves d' (st_db (ru_site R)) \<and>
    ap_key (ru_api R) = APIKey cfg \<and> h_addresses (ap_handlers (ru_api R)) = main_addresses (cfg_Chains cfg) \<and>
    mgr_RequiredConfirmations (ru_mgr R) c =
      (if chain_enabled (cfg_Chains cfg) c then (chain_confirms (cfg_Chains cfg) c, True) else (0, False))"
  using running_process_keeps [OF assms] by blast

text \<open>A small process, and what an expiry pass makes of it.\<close>

definition after_expiry :: "env \<Rightarrow> 'r running \<Rightarrow> 'r running" where
  "after_expiry e R = R\<lparr>ru_site := (ru_site R)\<lparr>st_db := expireOnce e (st_db (ru_site R))\<rparr>\<rparr>"

lemma small_process:
  obtains p cfg where "main sample_outside (calm 5) 7 [Polygon] two_pending = (Running p, two_pending)"
    "Load (ou_lib sample_outside) (ou_duration sample_outside) (ou_env sample_outside) = Inr cfg"
    "AmountTolerance cfg = 2 / 100" "APIKey cfg = ''k''" "chain_enabled (cfg_Chains cfg) = (\<lambda>c. c = Polygon)"
proof -
  obtain cfg where l: "Load (ou_lib sample_outside) (ou_duration sample_outside) (ou_env sample_outside) = Inr cfg"
    and c: "PublicRateLimitPerMinute cfg = 60" "chain_enabled (cfg_Chains cfg) = (\<lambda>c. c = Polygon)"
    "main_addresses (cfg_Chains cfg) Polygon = Some ''0xab''" by (rule small_config)
  from c(2) have t: "\<not> tc_Enabled (cfg_Tron (cfg_Chains cfg))"
    by (simp add: chain_enabled_def fun_eq_iff) (metis chains_distinct(3))
  have "APIKey cfg = ''k''" "AmountTolerance cfg = 2 / 100"
    using l by (auto simp: Load_def sample_outside_def small_env_def getEnvDecimalDefault_def Let_def split: if_splits)
  moreover obtain p where "main sample_outside (calm 5) 7 [Polygon] two_pending = (Running p, two_pending)"
    using small_Running [OF l t] by blast
  ultimately show thesis using that l c(2) by blast
qed

theorem running_process_invariant_witness:
  "\<exists>p (R :: (string \<Rightarrow> int) running). main sample_outside (calm 5) 7 [Polygon] two_pending = (Running p, two_pending) \<and>
     st_db (ru_site R) = expireOnce (calm 1150) two_pending \<and> ap_key (ru_api R) = ''k'' \<and>
     reachable (2 / 100) (st_db (ru_site R))"
proof -
  obtain p cfg where p: "main sample_outside (calm 5) 7 [Polygon] two_pending = (Running p, two_pending)"
    and l: "Load (ou_lib sample_outside) (ou_duration sample_outside) (ou_env sample_outside) = Inr cfg"
    and k: "AmountTolerance cfg = 2 / 100" "APIKey cfg = ''k''"
    and c: "chain_enabled (cfg_Chains cfg) = (\<lambda>c. c = Polygon)" by (rule small_process)
  let ?S = "started p (\<lambda>_. 0 :: int) two_pending"
  let ?R = "after_expiry (calm 1150) ?S"
  have "process_steps (ou_lib sample_outside) (AmountTolerance cfg) ?S ?R"
    unfolding after_expiry_def by (rule r_into_rtranclp) (rule process_stepI [OF goroutine_step.expiry])
  from running_process_invariant [OF p l _ _ reachable_two_pending this] c
  have "reachable (AmountTolerance cfg) (st_db (ru_site ?R))" "ap_key (ru_api ?R) = APIKey cfg" by auto
  then have "reachable (2 / 100) (st_db (ru_site ?R))" "ap_key (ru_api ?R) = ''k''" by (simp_all only: k)
  moreover have "st_db (ru_site ?R) = expireOnce (calm 1150) two_pending" by (simp add: after_expiry_def started_def)
  ultimately show ?thesis using p by blast
qed

end
