(* ===== verification/RestartProperties.thy ===== *)
theory RestartProperties
  imports RunProperties Process
begin

text \<open>
  A restart between a scan and its reports: the transfers the scan found are gone, because the
  stored cursor is already past their blocks and only confirming orders are reseeded.
\<close>

subsection \<open>What a report does not mention\<close>

text \<open>A report about one transaction gives an order or a review item to no other.\<close>

lemma accounted_update_orders:
  assumes "\<And>a. a \<in> set (orders d) \<Longrightarrow> P a \<Longrightarrow> o_tx (f a) = Some tx \<Longrightarrow> o_tx a = Some tx \<and> o_chain (f a) = o_chain a"
    and "accounted (snd (update_orders P f d)) c tx"
  shows "accounted d c tx"
  using assms by (cases rule: update_orders_cases [of P f d]) (auto simp: accounted_def set_update_rows split: if_splits)

lemma accounted_exec:
  "accounted (snd (exec e k f d)) c tx \<Longrightarrow> (accounted (snd (f d)) c tx \<Longrightarrow> accounted d c tx) \<Longrightarrow> accounted d c tx"
  using snd_exec [of e k f d] by auto

lemma accounted_Log [simp]: "accounted (snd (Log e k i ch tx' v det d)) c tx = accounted d c tx"
  by (simp add: accounted_def)

lemma accounted_logProgress [simp]: "accounted (logProgress lib e a ev d) c tx = accounted d c tx"
  by (simp add: logProgress_def Let_def)

lemma accounted_other:
  assumes "tx \<noteq> tx'"
  shows "accounted (snd (UpdateConfirmations e ch tx' h n d)) c tx \<Longrightarrow> accounted d c tx"
    and "accounted (snd (ClaimExactMatch e ch tx' amt h n tol d)) c tx \<Longrightarrow> accounted d c tx"
    and "accounted (snd (ClaimUnderpaid lib e ch tx' amt h mx d)) c tx \<Longrightarrow> accounted d c tx"
    and "accounted (snd (LogReviewItem e ch tx' amt reason i d)) c tx \<Longrightarrow> accounted d c tx"
proof -
  show "accounted (snd (UpdateConfirmations e ch tx' h n d)) c tx \<Longrightarrow> accounted d c tx"
    by (auto simp: UpdateConfirmations_def update_confirmations_stmt_def progress_row_def
        elim!: accounted_exec dest!: accounted_update_orders [rotated] split: if_splits)
  show "accounted (snd (ClaimExactMatch e ch tx' amt h n tol d)) c tx \<Longrightarrow> accounted d c tx"
    using assms by (auto simp: ClaimExactMatch_def Let_def claim_stmt_def claim_row_def
        elim!: accounted_exec dest!: accounted_update_orders [rotated] split: if_splits list.splits option.splits)
  show "accounted (snd (ClaimUnderpaid lib e ch tx' amt h mx d)) c tx \<Longrightarrow> accounted d c tx"
    using assms snd_ClaimUnderpaid [of lib e ch tx' amt h mx d]
    by (auto simp: mark_underpaid_stmt_def underpaid_row_def
        dest!: accounted_update_orders [rotated] split: option.splits)
  show "accounted (snd (LogReviewItem e ch tx' amt reason i d)) c tx \<Longrightarrow> accounted d c tx"
    using assms by (auto simp: snd_LogReviewItem insert_review_stmt_def accounted_def
        elim!: accounted_exec [unfolded accounted_def] split: option.splits if_splits)
qed

lemma accounted_other_pair [dest]:
  assumes "tx \<noteq> tx'"
  shows "UpdateConfirmations e ch tx' h n d = (r, d') \<Longrightarrow> accounted d' c tx \<Longrightarrow> accounted d c tx"
    and "TxAlreadyClaimed e ch tx' d = (r', d') \<Longrightarrow> accounted d' c tx \<Longrightarrow> accounted d c tx"
    and "ClaimExactMatch e ch tx' amt h n tol d = (r, d') \<Longrightarrow> accounted d' c tx \<Longrightarrow> accounted d c tx"
    and "ClaimUnderpaid lib e ch tx' amt h mx d = (r, d') \<Longrightarrow> accounted d' c tx \<Longrightarrow> accounted d c tx"
  using accounted_other [OF assms] TxAlreadyClaimed_same by (metis snd_conv)+

lemma OnTransfer_other:
  assumes "tx \<noteq> ev_tx ev" "accounted (snd (OnTransfer lib e s ev d)) c tx"
  shows "accounted d c tx"
  using assms(2)
  by (auto simp: OnTransfer_def Let_def dest!: accounted_other_pair [OF assms(1)] accounted_other(4) [OF assms(1)]
      split: sum.splits option.splits prod.splits bool.splits)

text \<open>The other goroutines do not attribute the transaction either.\<close>

definition quiet :: "string \<Rightarrow> string \<Rightarrow> world \<Rightarrow> bool" where
  "quiet c tx W \<longleftrightarrow> (\<forall>k d. accounted (w_other W k d) c tx \<longrightarrow> accounted d c tx)"

lemma service_sink_other:
  assumes "quiet c tx W" "tx \<noteq> ev_tx ev" "\<not> accounted (w_db W) c tx"
  shows "quiet c tx (snd (service_sink lib s ev W))" "\<not> accounted (w_db (snd (service_sink lib s ev W))) c tx"
proof -
  show "quiet c tx (snd (service_sink lib s ev W))"
    using assms(1) by (simp add: quiet_def service_sink_def next_call_def split: prod.split)
  show "\<not> accounted (w_db (snd (service_sink lib s ev W))) c tx"
    using OnTransfer_other [OF assms(2), of lib "w_env W 0" s "w_other W 0 (w_db W)" c] assms(1,3)
    unfolding service_sink_db quiet_def by blast
qed

lemma deliver_other:
  "quiet c tx W \<Longrightarrow> \<forall>ev\<in>set evs. ev_tx ev \<noteq> tx \<Longrightarrow> \<not> accounted (w_db W) c tx \<Longrightarrow>
   quiet c tx (deliver (service_sink lib s) evs W) \<and> \<not> accounted (w_db (deliver (service_sink lib s) evs W)) c tx"
proof (induction evs arbitrary: W)
  case (Cons ev evs)
  then have "tx \<noteq> ev_tx ev" by auto
  from service_sink_other [OF Cons.prems(1) this Cons.prems(3)] Cons.IH Cons.prems(2) show ?case by simp
qed simp

subsection \<open>A watcher that has missed a transfer\<close>

text \<open>
  The transfer of the log l is behind the cursor n, is not in flight, and is neither
  attributed nor queued; nothing but this watcher would report it.
\<close>

definition missed :: "rpc_log \<Rightarrow> world evm_watcher \<Rightarrow> int \<Rightarrow> world evm_watcher \<times> world \<Rightarrow> bool" where
  "missed l w n x \<longleftrightarrow> log_block l \<le> n \<and> em_pending (fst x) (l_txHash l) = None \<and>
     quiet (em_chain w) (l_txHash l) (snd x) \<and> \<not> accounted (w_db (snd x)) (em_chain w) (l_txHash l)"

lemma track_None:
  "\<forall>x\<in>set xs. key x = k \<longrightarrow> val x = None \<Longrightarrow> pend k = None \<Longrightarrow> track key val xs pend k = None"
  by (induction xs arbitrary: pend) (auto split: option.splits)

lemma missed_poll:
  assumes at: "evm_at lib s hist w n x" and honest: "evm_honest hist w p"
    and l: "l \<in> set hist" "log_value l \<noteq> None" and miss: "missed l w n x"
  shows "\<exists>x'. evm_poll_step p x = Some x' \<and> evm_at lib s hist w (evm_advance w p n) x' \<and> missed l w (evm_advance w p n) x'"
proof (cases "evm_reports w p")
  case False
  with evm_silent_poll [OF False at] at miss show ?thesis by auto
next
  case True
  then obtain latest where bn: "blockNumber p w = Inr latest" by (auto simp: evm_reports_def split: sum.splits)
  obtain pend W where x: "x = (w\<lparr>em_pending := pend\<rparr>, W)" "finite (dom pend)"
    using at by (cases x) (auto simp: evm_at_def)
  obtain logs pend1 W1 W2 where logs: "set logs \<subseteq> {l \<in> set hist. n < log_block l}"
    and pend1: "pend1 = track l_txHash log_value logs pend" and rng: "range_order (ep_range p pend1) pend1"
    and co: "cursors_only W W1"
    and W2: "W2 = deliver (service_sink lib s)
      (map (\<lambda>tx. evm_event p latest (w\<lparr>em_pending := pend1\<rparr>) tx (the (pend1 tx))) (ep_range p pend1)) W1"
    and step: "evm_poll_step p (w\<lparr>em_pending := pend\<rparr>, W) =
       Some (w\<lparr>em_pending := unfinished (evm_final latest (w\<lparr>em_pending := pend1\<rparr>)) pend1\<rparr>, W2)"
      "evm_at lib s hist w (evm_advance w p n) (w\<lparr>em_pending := unfinished (evm_final latest (w\<lparr>em_pending := pend1\<rparr>)) pend1\<rparr>, W2)"
    by (rule evm_poll_shape [OF at [unfolded x(1)] honest bn x(2)])
  have m: "log_block l \<le> n" "pend (l_txHash l) = None" "quiet (em_chain w) (l_txHash l) W1"
    "\<not> accounted (w_db W1) (em_chain w) (l_txHash l)"
    using miss co by (simp_all add: missed_def x(1) quiet_def accounted_def cursors_only_def)
  have inj: "inj_on l_txHash {l \<in> set hist. log_value l \<noteq> None}" using at by (simp add: evm_at_def)
  have "log_value k = None" if "k \<in> set logs" "l_txHash k = l_txHash l" for k
  proof (rule ccontr)
    assume "log_value k \<noteq> None"
    with inj_onD [OF inj that(2)] that(1) logs l have "k = l" by blast
    with that(1) logs m(1) show False by auto
  qed
  then have none: "pend1 (l_txHash l) = None" unfolding pend1 by (intro track_None) (use m(2) in auto)
  then have "\<forall>tx\<in>set (ep_range p pend1). tx \<noteq> l_txHash l" using rng by (auto simp: range_order_def)
  then have "quiet (em_chain w) (l_txHash l) W2 \<and> \<not> accounted (w_db W2) (em_chain w) (l_txHash l)"
    unfolding W2 by (intro deliver_other m) (auto simp: evm_event_def)
  moreover have "log_block l \<le> evm_advance w p n" using m(1) by (auto simp: evm_advance_def)
  ultimately show ?thesis using step none by (auto simp: x(1) missed_def unfinished_def)
qed

lemma missed_polls:
  assumes "evm_at lib s hist w n x" "\<forall>p\<in>set ps. evm_honest hist w p" "l \<in> set hist" "log_value l \<noteq> None" "missed l w n x"
  shows "\<exists>n' x'. run_polls evm_poll_step ps x = Some x' \<and> missed l w n' x'"
  using assms
proof (induction ps arbitrary: n x)
  case (Cons p ps)
  obtain x1 where "evm_poll_step p x = Some x1" "evm_at lib s hist w (evm_advance w p n) x1" "missed l w (evm_advance w p n) x1"
    using missed_poll [OF Cons.prems(1) _ Cons.prems(3-5)] Cons.prems(2) by (metis list.set_intros(1))
  with Cons show ?case by auto
qed auto

subsection \<open>The EVM watchers after a start\<close>

definition evm_config :: "ChainsConfig \<Rightarrow> string \<Rightarrow> EVMConfig" where
  "evm_config cs c = (if c = Polygon then cfg_Polygon cs else cfg_BSC cs)"

text \<open>The EVM watcher of a chain is the one \<open>main\<close> made for it, but for the seeded transfers.\<close>

definition evm_made :: "ChainsConfig \<Rightarrow> 's sink \<Rightarrow> 's cursor_ops \<Rightarrow> string \<Rightarrow> 's any_watcher \<Rightarrow> bool" where
  "evm_made cs sink store c w \<longleftrightarrow> (\<forall>v. w = EvmW v \<longrightarrow>
     (\<exists>pend. finite (dom pend) \<and> v = (evm_NewWatcher c (evm_config cs c) sink store)\<lparr>em_pending := pend\<rparr>))"

lemma snd_any_seed:
  "snd (any_seed now t (TronW w1)) = TronW (snd (tron_SeedPending t w1))"
  "snd (any_seed now t (TonW w2)) = TonW (snd (ton_SeedPending now t w2))"
  "snd (any_seed now t (EvmW w3)) = EvmW (snd (evm_SeedPending t w3))"
  by (simp_all add: tron_iface_def ton_iface_def evm_iface_def split_beta)

lemma evm_made_seed:
  assumes "evm_made cs sink store c w"
  shows "evm_made cs sink store c (snd (any_seed now t w))"
proof (cases w)
  case (EvmW v)
  obtain pend where pend: "finite (dom pend)" "v = (evm_NewWatcher c (evm_config cs c) sink store)\<lparr>em_pending := pend\<rparr>"
    using assms EvmW unfolding evm_made_def by blast
  let ?pend = "seed (pt_tx t) \<lparr>tr_amount = pt_amount t, tr_height = pt_height t\<rparr> pend"
  have "finite (dom ?pend)" using pend(1) by (auto simp: seed_def split: option.splits)
  moreover have eq: "snd (any_seed now t w) = EvmW ((evm_NewWatcher c (evm_config cs c) sink store)\<lparr>em_pending := ?pend\<rparr>)"
    unfolding EvmW snd_any_seed by (simp add: pend(2) evm_SeedPending_def)
  ultimately show ?thesis unfolding evm_made_def eq by (intro allI impI exI [of _ ?pend]) simp
qed (simp_all only: evm_made_def snd_any_seed any_watcher.distinct simp_thms)

lemma startup_evm_made:
  assumes "startup b58 sha256 cfg sink store e now ks d = (Inr mgr, d')" "watchers mgr c = Some (EvmW w)"
  shows "\<exists>pend. finite (dom pend) \<and> w = (evm_NewWatcher c (evm_config (cfg_Chains cfg) c) sink store)\<lparr>em_pending := pend\<rparr>"
proof -
  let ?P = "evm_made (cfg_Chains cfg) sink store"
  obtain ws where ws: "main_watchers b58 sha256 (cfg_Chains cfg) sink store = Inr ws"
    and l: "LoadPendingTransfers e now ks (NewManager any_iface ws) d = (Inr (), mgr, d')"
    using assms(1) by (rule startup_Inr)
  have "?P c w" if w: "w \<in> set ws" "any_chain w = c" for c w
    unfolding evm_made_def
  proof (intro allI impI)
    fix v assume v: "w = EvmW v"
    then have "v = evm_NewWatcher Polygon (cfg_Polygon (cfg_Chains cfg)) sink store \<or>
        v = evm_NewWatcher BSC (cfg_BSC (cfg_Chains cfg)) sink store"
      using w(1) by (rule_tac main_watchers_cases [OF ws]) (auto split: if_splits)
    then have "v = evm_NewWatcher c (evm_config (cfg_Chains cfg) c) sink store"
      using w(2) v by (auto simp: evm_config_def evm_iface_def evm_NewWatcher_def any_chain.simps)
    then show "\<exists>pend. finite (dom pend) \<and> v = (evm_NewWatcher c (evm_config (cfg_Chains cfg) c) sink store)\<lparr>em_pending := pend\<rparr>"
      by (intro exI [of _ Map.empty]) (simp add: evm_NewWatcher_def)
  qed
  then have "every_watcher ?P (NewManager any_iface ws)"
    using watchers_main(1) [OF ws] by (auto simp: every_watcher_def)
  from every_watcher_LoadPendingTransfers [OF _ _ this l] have "every_watcher ?P mgr" by (simp add: evm_made_seed)
  with assms(2) show ?thesis by (simp add: every_watcher_def evm_made_def)
qed

subsection \<open>Stopped between the scan and the reports\<close>

text \<open>
  C39. A transfer that a scan has found is lost when the process stops before it reports it.
  The scan of an EVM poll, all of whose requests are answered, has put the transfer of the log l
  in flight and stored a cursor that is past its block; no order and no review item has
  the transaction. A process started on this database does not have the transfer in flight,
  and after any number of its polls of an honest network, whatever they find, the
  transaction is still not in flight, no order has it and it is not in the review queue (the other
  goroutines do not report this chain's transfers). Without the restart the same poll
  would have reported it (property C6).
\<close>

theorem unreported_transfer_lost_on_restart:
  assumes first: "evm_at lib s hist w n (w, W)" "evm_honest hist w p" "blockNumber p w = Inr latest"
      "scanNewLogs p latest w W = Some (r, w1, W1)"
    and l: "l \<in> set hist" "log_value l = Some t" "n < log_block l" "log_block l \<le> evm_advance w p n"
      "\<not> accounted (w_db W) (em_chain w) (l_txHash l)"
    and restart: "startup b58 sha256 cfg (service_sink lib s) world_cursors e now ks (w_db W1) = (Inr mgr, d')"
      "distinct ks" "set ks = {c. chain_enabled (cfg_Chains cfg) c}"
      "watchers mgr (em_chain w) = Some (EvmW w2)" "batch_blocks (evm_config (cfg_Chains cfg) (em_chain w)) < 2 ^ 62"
    and second: "w_db W2 = d'" "steady (s_tolerance s) (em_chain w) W2" "quiet (em_chain w) (l_txHash l) W2"
      "set hist \<subseteq> set hist'" "sorted (map log_block hist')" "inj_on l_txHash {k \<in> set hist'. log_value k \<noteq> None}"
      "\<forall>q\<in>set ps. evm_honest hist' w2 q"
  shows "em_pending w1 (l_txHash l) = Some t \<and> log_block l \<le> fst (world_view W1 (em_chain w)) \<and>
    em_pending w2 (l_txHash l) = None \<and>
    (\<exists>w3 W3. evm_polls ps w2 W2 = Some (w3, W3) \<and> em_pending w3 (l_txHash l) = None \<and>
       \<not> accounted (w_db W3) (em_chain w) (l_txHash l))"
proof -
  let ?c = "em_chain w" and ?tx = "l_txHash l"
  have w: "w = w\<lparr>em_pending := em_pending w\<rparr>" by simp
  obtain logs where w1: "w1 = w\<lparr>em_pending := track l_txHash log_value logs (em_pending w)\<rparr>"
    and co: "cursors_only W W1" and cur: "fst (world_view W1 ?c) = evm_advance w p n"
    and logs: "set logs \<subseteq> {l \<in> set hist. n < log_block l}" "l \<in> set logs"
    using evm_scan_from [OF first(1,2) w first(3)] first(4) l by auto
  have lib: "decimal_library lib" and inj: "inj_on l_txHash {l \<in> set hist. log_value l \<noteq> None}"
    and n: "0 < n" "n < 2 ^ 31" and ok: "db_ok (w_db W)"
    using first(1) by (auto simp: evm_at_def steady_def world_ok_def)
  have seen: "em_pending w1 ?tx = Some t"
    unfolding w1 by (simp, rule track_keeps) (use inj l(1,2) logs in \<open>auto simp: inj_on_def\<close>)
  have un: "\<not> accounted (w_db W1) ?c ?tx" using l(5) co by (simp add: accounted_def cursors_only_def)
  note tr = startup_tracks [OF restart(1-3), of ?c ?tx]
  have d': "d' = w_db W1" using tr by blast
  have "find (\<lambda>a. o_tx a = Some ?tx \<and> o_received a \<noteq> None)
      (filter (\<lambda>a. o_chain a = ?c \<and> o_status a = Confirming) (orders (w_db W1))) = None"
    using un by (auto simp: find_None_iff accounted_def)
  with tr restart(4) have gone: "em_pending w2 ?tx = None"
    by (auto simp: tracks_def seeds_def heights_def in_flight.simps split: if_splits)
  have w2: "em_sink w2 = service_sink lib s" "em_cursors w2 = world_cursors" "em_chain w2 = ?c"
    "finite (dom (em_pending w2))" "batch_blocks (em_cfg w2) < 2 ^ 62"
    using startup_evm_made [OF restart(1,4)] restart(5) by (auto simp: evm_NewWatcher_def)
  have adv: "0 < evm_advance w p n" "evm_advance w p n < 2 ^ 31"
    using n first(2,3) by (auto simp: evm_advance_def evm_honest_def top_block_def)
  have id: "\<exists>pend. w2 = w2\<lparr>em_pending := pend\<rparr> \<and> finite (dom pend)"
    by (rule exI [of _ "em_pending w2"]) (simp add: w2)
  have "evm_at lib s hist' w2 (evm_advance w p n) (w2, W2)"
    using lib w2 second d' cur adv id by (simp add: evm_at_def world_view_def)
  moreover have "missed l w2 (evm_advance w p n) (w2, W2)"
    using l(4) gone second(1,3) un by (simp add: missed_def w2 d')
  ultimately obtain n' x' where "run_polls evm_poll_step ps (w2, W2) = Some x'" "missed l w2 n' x'"
    using missed_polls [of lib s hist' w2 _ "(w2, W2)" ps l] second(4,7) l(1,2) by blast
  then show ?thesis using seen cur l(4) gone
    by (cases x') (auto simp: evm_polls_run missed_def w2)
qed

text \<open>
  The sample transfer: found by the scan at block 100, lost by the restart, and not found by
  a poll at block 120.
\<close>

lemma polygon_restart:
  assumes "\<forall>a\<in>set (orders d). o_status a \<noteq> Confirming"
  shows "\<exists>mgr. startup (\<lambda>_. []) (\<lambda>_. []) polygon_config sample_sink world_cursors (calm 5) 7 [Polygon] d = (Inr mgr, d) \<and>
    watchers mgr Polygon = Some (EvmW sample_watcher)"
proof -
  have "filter (\<lambda>a. o_chain a = Polygon \<and> o_status a = Confirming) (orders d) = []" using assms by simp
  then show ?thesis
    by (simp add: startup_def main_watchers_def Let_def polygon_config_def sample_tron_cfg_def sample_ton_cfg_def
        ListConfirming_def NewManager_def sample_watcher_def evm_iface_def evm_NewWatcher_def any_chain.simps)
      (simp add: sample_cfg_def)
qed

abbreviation sample_node :: "int \<Rightarrow> evm_poll" where
  "sample_node n \<equiv> node_poll [sample_log] n 7 sorted_range"

lemma sample_node_honest: "95 \<le> n \<Longrightarrow> n < 2 ^ 31 - 1 \<Longrightarrow> evm_honest [sample_log] sample_watcher (sample_node n)"
  using log_value_block [OF sample_log_value]
  by (simp add: evm_honest_def node_block in_i64_def sorted_range_orders node_get_logs) (simp add: node_poll_def sorted_range_orders)

theorem unreported_transfer_lost_on_restart_witness:
  "\<exists>w1 W1 mgr w3 W3. scanNewLogs (sample_node 100) 100 sample_watcher (still one_waiting) = Some (Inr (), w1, W1) \<and>
     em_pending w1 ''t'' \<noteq> None \<and>
     startup (\<lambda>_. []) (\<lambda>_. []) polygon_config sample_sink world_cursors (calm 5) 7 [Polygon] (w_db W1) = (Inr mgr, w_db W1) \<and>
     watchers mgr Polygon = Some (EvmW sample_watcher) \<and>
     evm_polls [sample_node 120] sample_watcher (still (w_db W1)) = Some (w3, W3) \<and>
     \<not> accounted (w_db W3) Polygon ''t''"
proof -
  have tx: "l_txHash sample_log = ''t''" by (simp add: sample_log_def)
  have blk: "log_block sample_log = 95" using log_value_block [OF sample_log_value] by simp
  have honest: "evm_honest [sample_log] sample_watcher (sample_node 100)" "evm_honest [sample_log] sample_watcher (sample_node 120)"
    by (simp_all add: sample_node_honest)
  have bn: "blockNumber (sample_node 100) sample_watcher = Inr 100" by (simp add: node_block in_i64_def)
  have adv: "evm_advance sample_watcher (sample_node 100) 90 = 100"
    by (simp add: evm_advance_def evm_reports_def top_block_def bn node_get_logs)
  have h: "world_view (still one_waiting) Polygon = (90, None)" "first_block 90 100 = 91"
    by (simp_all add: first_block_def in_i64_def)
  obtain W1 where scan: "scanNewLogs (sample_node 100) 100 sample_watcher (still one_waiting) =
      Some (Inr (), sample_watcher\<lparr>em_pending := handle_logs (logs_between [sample_log] 91 100) (em_pending sample_watcher)\<rparr>, W1)"
    and same: "orders (w_db W1) = [order_P]"
    using scan_history [of sample_watcher 100 "still one_waiting" 90 None "sample_node 100" "[sample_log]"] h
    by (auto simp: sample_bounds node_get_logs)
  have ok: "db_ok (w_db W1)"
    using evm_scan_world [OF _ scan] db_ok_one_waiting by (auto simp: cursors_only_def)
  obtain mgr where mgr: "startup (\<lambda>_. []) (\<lambda>_. []) polygon_config sample_sink world_cursors (calm 5) 7 [Polygon] (w_db W1) = (Inr mgr, w_db W1)"
    "watchers mgr Polygon = Some (EvmW sample_watcher)"
    using polygon_restart [of "w_db W1"] same by (auto simp: order_P_def new_order_def)
  have un: "\<not> accounted (w_db (still one_waiting)) Polygon ''t''" by (simp add: accounted_def order_P_def new_order_def)
  have "evm_config (cfg_Chains polygon_config) Polygon = sample_cfg" "batch_blocks sample_cfg < 2 ^ 62"
    by (simp_all add: evm_config_def polygon_config_def batch_blocks_def sample_cfg_def)
  then obtain w3 W3 where "em_pending (sample_watcher\<lparr>em_pending := handle_logs (logs_between [sample_log] 91 100) (em_pending sample_watcher)\<rparr>) ''t'' =
       Some \<lparr>tr_amount = 10000100 / 10 ^ 6, tr_height = 95\<rparr>"
    "evm_polls [sample_node 120] sample_watcher (still (w_db W1)) = Some (w3, W3)" "\<not> accounted (w_db W3) Polygon ''t''"
    using unreported_transfer_lost_on_restart [OF sample_at honest(1) bn scan _ sample_log_value, of
        "\<lambda>_. []" "\<lambda>_. []" polygon_config "calm 5" 7 "[Polygon]" mgr "w_db W1" sample_watcher "still (w_db W1)" "[sample_log]" "[sample_node 120]"]
      mgr un tx blk adv honest(2) ok
    by (auto simp: steady_still quiet_def inj_on_def)
  with scan mgr show ?thesis by fastforce
qed

end
