(* ===== verification/Simulation.thy ===== *)
theory Simulation
  imports Main
begin

text \<open>
  Machines with an invariant, and forward simulation: a machine refines an abstract one
  when each of its steps, seen through an abstraction function, is a run of the abstract
  machine. What the abstract machine keeps, the concrete one keeps.
\<close>

locale machine =
  fixes step :: "'c \<Rightarrow> 'c \<Rightarrow> bool" and inv :: "'c \<Rightarrow> bool"
  assumes step_inv: "inv c \<Longrightarrow> step c c' \<Longrightarrow> inv c'"
begin

lemma run_inv: "step\<^sup>*\<^sup>* c c' \<Longrightarrow> inv c \<Longrightarrow> inv c'"
  by (induction rule: rtranclp_induct) (auto intro: step_inv)

end

locale simulation = machine step inv
  for step :: "'c \<Rightarrow> 'c \<Rightarrow> bool" and inv :: "'c \<Rightarrow> bool" +
  fixes abs :: "'c \<Rightarrow> 'a" and astep :: "'a \<Rightarrow> 'a \<Rightarrow> bool"
  assumes simulates: "inv c \<Longrightarrow> step c c' \<Longrightarrow> astep\<^sup>*\<^sup>* (abs c) (abs c')"
begin

lemma run_simulates: "step\<^sup>*\<^sup>* c c' \<Longrightarrow> inv c \<Longrightarrow> astep\<^sup>*\<^sup>* (abs c) (abs c')"
proof (induction rule: rtranclp_induct)
  case (step c1 c2)
  then show ?case using simulates [of c1 c2] run_inv [of c c1] by (meson rtranclp_trans)
qed simp

end

text \<open>An invariant of the abstract machine, carried over.\<close>

locale simulation_invariant = simulation step inv abs astep
  for step :: "'c \<Rightarrow> 'c \<Rightarrow> bool" and inv and abs :: "'c \<Rightarrow> 'a" and astep +
  fixes good :: "'a \<Rightarrow> bool"
  assumes good_step: "good A \<Longrightarrow> astep A A' \<Longrightarrow> good A'"

sublocale simulation_invariant \<subseteq> abstract: machine astep good
  by unfold_locales (rule good_step)

context simulation_invariant
begin

lemma run_good: "step\<^sup>*\<^sup>* c c' \<Longrightarrow> inv c \<Longrightarrow> good (abs c) \<Longrightarrow> good (abs c')"
  using run_simulates abstract.run_inv by blast

end

end
