(* ===== verification/Shutdown.thy ===== *)
theory Shutdown
  imports Process Simulation
begin

text \<open>
  The goroutines of \<open>main\<close> as threads with program counters: the \<open>select\<close> loops of the
  watchers' \<open>Run\<close> and of \<open>RunExpiryLoop\<close>, \<open>Manager.Run\<close> with its wait group, the listener,
  and \<open>main\<close> itself from the launch of the goroutines to its return. What \<open>main\<close> waits for are
  the counters of \<open>sync.WaitGroup\<close>; that a counter of zero means that every goroutine has
  returned is proved. Of \<open>net/http\<close> the documented behaviour of \<open>Shutdown\<close> is used: it
  closes the listener at once and returns when no request is in flight or its context expires. The
  intervals of the tickers are positive (\<open>time.NewTicker\<close> panics otherwise).
\<close>

subsection \<open>The loops\<close>

text \<open>
  Where a loop is: in \<open><-ctx.Done()\<close> (a disabled watcher), at its \<open>select\<close>, in the body of the tick
  case, or returned. A ticker holds at most one tick.
\<close>

datatype loop_pc = AwaitDone | AtSelect | InBody | LoopEnded

record ticker_loop =
  lp_pc :: loop_pc
  lp_tick :: bool

datatype comm = CtxDone | TickerC

text \<open>The cases of the \<open>select\<close> that can proceed; Go picks any of them.\<close>

definition select_ready :: "bool \<Rightarrow> bool \<Rightarrow> comm list" where
  "select_ready cancelled tick = (if cancelled then [CtxDone] else []) @ (if tick then [TickerC] else [])"

fun any_enabled :: "'s any_watcher \<Rightarrow> bool" where
  "any_enabled (TronW w) \<longleftrightarrow> tc_Enabled (tw_cfg w)"
| "any_enabled (TonW w) \<longleftrightarrow> nc_Enabled (nw_cfg w)"
| "any_enabled (EvmW w) \<longleftrightarrow> ec_Enabled (em_cfg w)"

text \<open>The beginning of a watcher's \<open>Run\<close>.\<close>

definition watcher_loop :: "'s any_watcher \<Rightarrow> ticker_loop" where
  "watcher_loop w = \<lparr>lp_pc = (if \<not> any_enabled w then AwaitDone else AtSelect), lp_tick = False\<rparr>"

subsection \<open>The state\<close>

text \<open>Where \<open>main\<close> is: waiting for the context, in \<open>Shutdown\<close>, in \<open>wg.Wait\<close>, or back.\<close>

datatype main_phase = AwaitSignal | ShuttingDown | AwaitGoroutines | Returned

text \<open>Where \<open>Manager.Run\<close> is: about to launch the watchers, in \<open>wg.Wait\<close>, or back.\<close>

datatype manager_pc = MgrStart | MgrWait | MgrEnded

datatype main_error = HttpServerError | ShutdownError

text \<open>
  \<open>sv_loops\<close> are the loops that were launched, \<open>sv_mgr_wg\<close> and \<open>sv_wg\<close> the wait groups of the
  manager and of \<open>main\<close>; \<open>sv_inflight\<close> counts the requests that were accepted and not answered.
  Of the log only the errors are kept.
\<close>

record 'r main_state =
  sv_run :: "'r running"
  sv_loops :: "goroutine \<rightharpoonup> ticker_loop"
  sv_mgr :: manager_pc
  sv_mgr_wg :: nat
  sv_listening :: bool
  sv_wg :: nat
  sv_inflight :: nat
  sv_cancelled :: bool
  sv_phase :: main_phase
  sv_errors :: "main_error list"

text \<open>After the three \<open>go\<close> statements of \<open>main\<close>.\<close>

definition launched :: "'r running \<Rightarrow> 'r main_state" where
  "launched R =
     \<lparr>sv_run = R, sv_loops = [ExpiryLoop \<mapsto> \<lparr>lp_pc = AtSelect, lp_tick = False\<rparr>], sv_mgr = MgrStart, sv_mgr_wg = 0,
      sv_listening = True, sv_wg = 3, sv_inflight = 0, sv_cancelled = False, sv_phase = AwaitSignal, sv_errors = []\<rparr>"

text \<open>The loop of \<open>Manager.Run\<close> over its watchers, in the order \<open>ks\<close>.\<close>

definition mgr_launch :: "string list \<Rightarrow> 'r main_state \<Rightarrow> 'r main_state" where
  "mgr_launch ks M = foldl
     (\<lambda>M c. M\<lparr>sv_mgr_wg := sv_mgr_wg M + 1,
        sv_loops := (sv_loops M)(WatcherRun c \<mapsto> watcher_loop (the (watchers (ru_mgr (sv_run M)) c)))\<rparr>) M ks"

text \<open>The deferred \<open>wg.Done\<close> of the goroutine that ran the loop.\<close>

fun wg_done :: "goroutine \<Rightarrow> 'r main_state \<Rightarrow> 'r main_state" where
  "wg_done (WatcherRun c) M = M\<lparr>sv_mgr_wg := sv_mgr_wg M - 1\<rparr>"
| "wg_done g M = M\<lparr>sv_wg := sv_wg M - 1\<rparr>"

definition at_loop :: "goroutine \<Rightarrow> ticker_loop \<Rightarrow> 'r main_state \<Rightarrow> 'r main_state" where
  "at_loop g l M = M\<lparr>sv_loops := (sv_loops M)(g \<mapsto> l)\<rparr>"

definition loop_returns :: "goroutine \<Rightarrow> 'r main_state \<Rightarrow> 'r main_state" where
  "loop_returns g M = wg_done g (at_loop g \<lparr>lp_pc = LoopEnded, lp_tick = False\<rparr> M)"

text \<open>What the cases of the \<open>select\<close> do: return, or receive the tick and enter the body.\<close>

fun select_case :: "comm \<Rightarrow> goroutine \<Rightarrow> 'r main_state \<Rightarrow> 'r main_state" where
  "select_case CtxDone g M = loop_returns g M"
| "select_case TickerC g M = at_loop g \<lparr>lp_pc = InBody, lp_tick = False\<rparr> M"

subsection \<open>Steps\<close>

text \<open>
  A step belongs to the program, or it is an event from outside: a tick, a signal, a request that
  arrives, a listener that fails.
\<close>

datatype event = Program | Outside

inductive main_move :: "decimal_lib \<Rightarrow> amount \<Rightarrow> event \<Rightarrow> 'r main_state \<Rightarrow> 'r main_state \<Rightarrow> bool" for lib tol where
  signal: "main_move lib tol Outside M (M\<lparr>sv_cancelled := True\<rparr>)"
| tick:
    "sv_loops M g = Some l \<Longrightarrow> lp_pc l \<in> {AtSelect, InBody} \<Longrightarrow>
     main_move lib tol Outside M (at_loop g (l\<lparr>lp_tick := True\<rparr>) M)"
| disabled:
    "sv_loops M g = Some l \<Longrightarrow> lp_pc l = AwaitDone \<Longrightarrow> sv_cancelled M \<Longrightarrow>
     main_move lib tol Program M (loop_returns g M)"
| select:
    "sv_loops M g = Some l \<Longrightarrow> lp_pc l = AtSelect \<Longrightarrow> c \<in> set (select_ready (sv_cancelled M) (lp_tick l)) \<Longrightarrow>
     main_move lib tol Program M (select_case c g M)"
| body:
    "sv_loops M g = Some l \<Longrightarrow> lp_pc l = InBody \<Longrightarrow> goroutine_step lib tol g (sv_run M) R \<Longrightarrow>
     main_move lib tol Program M (at_loop g (l\<lparr>lp_pc := AtSelect\<rparr>) (M\<lparr>sv_run := R\<rparr>))"
| mgr_starts:
    "sv_mgr M = MgrStart \<Longrightarrow> range_order ks (watchers (ru_mgr (sv_run M))) \<Longrightarrow>
     main_move lib tol Program M (mgr_launch ks (M\<lparr>sv_mgr := MgrWait\<rparr>))"
| mgr_ends:
    "sv_mgr M = MgrWait \<Longrightarrow> sv_mgr_wg M = 0 \<Longrightarrow>
     main_move lib tol Program M (M\<lparr>sv_mgr := MgrEnded, sv_wg := sv_wg M - 1\<rparr>)"
| accept:
    "sv_listening M \<Longrightarrow> sv_phase M = AwaitSignal \<Longrightarrow>
     main_move lib tol Outside M (M\<lparr>sv_inflight := Suc (sv_inflight M)\<rparr>)"
| answer:
    "sv_inflight M = Suc n \<Longrightarrow> goroutine_step lib tol ListenAndServe (sv_run M) R \<Longrightarrow>
     main_move lib tol Program M (M\<lparr>sv_run := R, sv_inflight := n\<rparr>)"
| listen_fails:
    "sv_listening M \<Longrightarrow> sv_phase M = AwaitSignal \<Longrightarrow>
     main_move lib tol Outside M
       (M\<lparr>sv_listening := False, sv_wg := sv_wg M - 1, sv_errors := sv_errors M @ [HttpServerError]\<rparr>)"
| server_closed:
    "sv_listening M \<Longrightarrow> sv_phase M \<noteq> AwaitSignal \<Longrightarrow>
     main_move lib tol Program M (M\<lparr>sv_listening := False, sv_wg := sv_wg M - 1\<rparr>)"
| begin_shutdown:
    "sv_phase M = AwaitSignal \<Longrightarrow> sv_cancelled M \<Longrightarrow> main_move lib tol Program M (M\<lparr>sv_phase := ShuttingDown\<rparr>)"
| drained:
    "sv_phase M = ShuttingDown \<Longrightarrow> sv_inflight M = 0 \<Longrightarrow>
     main_move lib tol Program M (M\<lparr>sv_phase := AwaitGoroutines\<rparr>)"
| deadline:
    "sv_phase M = ShuttingDown \<Longrightarrow> sv_inflight M \<noteq> 0 \<Longrightarrow>
     main_move lib tol Program M (M\<lparr>sv_phase := AwaitGoroutines, sv_errors := sv_errors M @ [ShutdownError]\<rparr>)"
| returns:
    "sv_phase M = AwaitGoroutines \<Longrightarrow> sv_wg M = 0 \<Longrightarrow> main_move lib tol Program M (M\<lparr>sv_phase := Returned\<rparr>)"

text \<open>When \<open>main\<close> returns the process ends, whatever its goroutines were doing.\<close>

definition main_step :: "decimal_lib \<Rightarrow> amount \<Rightarrow> event \<Rightarrow> 'r main_state \<Rightarrow> 'r main_state \<Rightarrow> bool" where
  "main_step lib tol k M M' \<longleftrightarrow> sv_phase M \<noteq> Returned \<and> main_move lib tol k M M'"

inductive main_run :: "decimal_lib \<Rightarrow> amount \<Rightarrow> event list \<Rightarrow> 'r main_state \<Rightarrow> 'r main_state \<Rightarrow> bool" for lib tol where
  run_nil: "main_run lib tol [] M M"
| run_cons: "main_step lib tol k M M1 \<Longrightarrow> main_run lib tol ks M1 M' \<Longrightarrow> main_run lib tol (k # ks) M M'"

inductive_simps main_run_simps [simp]: "main_run lib tol [] M M'" "main_run lib tol (k # ks) M M'"

lemma main_run_append: "main_run lib tol (ks @ ls) M M' \<longleftrightarrow> (\<exists>M1. main_run lib tol ks M M1 \<and> main_run lib tol ls M1 M')"
  by (induction ks arbitrary: M) auto

lemma main_run_inv:
  assumes "main_run lib tol ks M M'" "I M" "\<And>k M M'. main_step lib tol k M M' \<Longrightarrow> I M \<Longrightarrow> I M'"
  shows "I M'"
  using assms by (induction rule: main_run.induct) auto

lemma sel_loop_steps [simp]:
  "sv_run (at_loop g l M) = sv_run M" "sv_mgr (at_loop g l M) = sv_mgr M" "sv_mgr_wg (at_loop g l M) = sv_mgr_wg M"
  "sv_listening (at_loop g l M) = sv_listening M" "sv_wg (at_loop g l M) = sv_wg M" "sv_inflight (at_loop g l M) = sv_inflight M"
  "sv_cancelled (at_loop g l M) = sv_cancelled M" "sv_phase (at_loop g l M) = sv_phase M" "sv_errors (at_loop g l M) = sv_errors M"
  "sv_loops (at_loop g l M) = (sv_loops M)(g \<mapsto> l)"
  by (simp_all add: at_loop_def)

lemma sel_wg_done [simp]:
  "sv_run (wg_done g M) = sv_run M" "sv_mgr (wg_done g M) = sv_mgr M" "sv_loops (wg_done g M) = sv_loops M"
  "sv_listening (wg_done g M) = sv_listening M" "sv_inflight (wg_done g M) = sv_inflight M"
  "sv_cancelled (wg_done g M) = sv_cancelled M" "sv_phase (wg_done g M) = sv_phase M" "sv_errors (wg_done g M) = sv_errors M"
  "sv_mgr_wg (wg_done g M) = (case g of WatcherRun c \<Rightarrow> sv_mgr_wg M - 1 | _ \<Rightarrow> sv_mgr_wg M)"
  "sv_wg (wg_done g M) = (case g of WatcherRun c \<Rightarrow> sv_wg M | _ \<Rightarrow> sv_wg M - 1)"
  by (cases g; simp)+

lemma sel_mgr_launch [simp]:
  "sv_run (mgr_launch ks M) = sv_run M" "sv_mgr (mgr_launch ks M) = sv_mgr M" "sv_listening (mgr_launch ks M) = sv_listening M"
  "sv_wg (mgr_launch ks M) = sv_wg M" "sv_inflight (mgr_launch ks M) = sv_inflight M"
  "sv_cancelled (mgr_launch ks M) = sv_cancelled M" "sv_phase (mgr_launch ks M) = sv_phase M"
  "sv_errors (mgr_launch ks M) = sv_errors M" "sv_mgr_wg (mgr_launch ks M) = sv_mgr_wg M + length ks"
  by (induction ks arbitrary: M) (simp_all add: mgr_launch_def)

lemma loops_mgr_launch:
  "sv_loops (mgr_launch ks M) g =
     (case g of WatcherRun c \<Rightarrow> if c \<in> set ks then Some (watcher_loop (the (watchers (ru_mgr (sv_run M)) c))) else sv_loops M g
      | _ \<Rightarrow> sv_loops M g)"
  by (induction ks arbitrary: M) (auto simp: mgr_launch_def split: goroutine.split)

subsection \<open>The wait groups count\<close>

definition running_watchers :: "(goroutine \<rightharpoonup> ticker_loop) \<Rightarrow> string set" where
  "running_watchers m = {c. \<exists>l. m (WatcherRun c) = Some l \<and> lp_pc l \<noteq> LoopEnded}"

definition expiry_running :: "(goroutine \<rightharpoonup> ticker_loop) \<Rightarrow> bool" where
  "expiry_running m \<longleftrightarrow> (\<exists>l. m ExpiryLoop = Some l \<and> lp_pc l \<noteq> LoopEnded)"

text \<open>
  The wait group of the manager counts the watchers that have not returned, the one of \<open>main\<close>
  the manager, the expiry loop and the listener; \<open>Shutdown\<close> is left with a request
  unanswered only at its deadline, which is logged.
\<close>

definition wait_groups_ok :: "'r main_state \<Rightarrow> bool" where
  "wait_groups_ok M \<longleftrightarrow>
     finite (dom (sv_loops M)) \<and> sv_loops M ListenAndServe = None \<and> sv_loops M ExpiryLoop \<noteq> None \<and>
     (\<forall>c. sv_loops M (WatcherRun c) \<noteq> None \<longleftrightarrow> sv_mgr M \<noteq> MgrStart \<and> c \<in> dom (watchers (ru_mgr (sv_run M)))) \<and>
     sv_mgr_wg M = card (running_watchers (sv_loops M)) \<and> (sv_mgr M = MgrEnded \<longrightarrow> sv_mgr_wg M = 0) \<and>
     sv_wg M = of_bool (sv_mgr M \<noteq> MgrEnded) + of_bool (expiry_running (sv_loops M)) + of_bool (sv_listening M) \<and>
     (sv_phase M \<noteq> AwaitSignal \<longrightarrow> sv_cancelled M) \<and> (sv_phase M = Returned \<longrightarrow> sv_wg M = 0) \<and>
     (sv_phase M \<in> {AwaitGoroutines, Returned} \<longrightarrow> sv_inflight M = 0 \<or> ShutdownError \<in> set (sv_errors M))"

lemma ru_mgr_site [simp]: "ru_mgr (R\<lparr>ru_site := x\<rparr>) = ru_mgr R"
  by (simp add: ru_mgr_def)

lemma watchers_goroutine_step:
  "goroutine_step lib tol g R R' \<Longrightarrow> dom (watchers (ru_mgr R')) = dom (watchers (ru_mgr R))"
  by (induction rule: goroutine_step.induct) (auto split: if_splits)

lemma finite_running_watchers: "finite (dom m) \<Longrightarrow> finite (running_watchers m)"
  by (rule finite_imageD [of WatcherRun]) (auto simp: running_watchers_def inj_on_def elim: rev_finite_subset)

lemma running_watchers_upd:
  "running_watchers (m(WatcherRun c \<mapsto> l)) = (if lp_pc l = LoopEnded then running_watchers m - {c} else insert c (running_watchers m))"
  "g = ExpiryLoop \<or> g = ListenAndServe \<Longrightarrow> running_watchers (m(g \<mapsto> l)) = running_watchers m"
  by (auto simp: running_watchers_def)

lemma expiry_running_upd:
  "expiry_running (m(ExpiryLoop \<mapsto> l)) \<longleftrightarrow> lp_pc l \<noteq> LoopEnded"
  "g \<noteq> ExpiryLoop \<Longrightarrow> expiry_running (m(g \<mapsto> l)) \<longleftrightarrow> expiry_running m"
  by (auto simp: expiry_running_def)

text \<open>A loop that goes on leaves the counts as they are, one that returns leaves its wait group.\<close>

lemma at_loop_ok:
  assumes "wait_groups_ok M" "sv_loops M g = Some l" "lp_pc l \<noteq> LoopEnded" "lp_pc l' \<noteq> LoopEnded"
  shows "wait_groups_ok (at_loop g l' M)"
proof (cases g)
  case (WatcherRun c)
  then have "c \<in> running_watchers (sv_loops M)" using assms(2,3) by (auto simp: running_watchers_def)
  with assms WatcherRun show ?thesis
    by (auto simp: wait_groups_ok_def running_watchers_upd expiry_running_upd insert_absorb)
next
  case ExpiryLoop
  then have "expiry_running (sv_loops M)" using assms(2,3) by (auto simp: expiry_running_def)
  with assms ExpiryLoop show ?thesis
    by (auto simp: wait_groups_ok_def running_watchers_upd expiry_running_upd)
qed (use assms in \<open>simp add: wait_groups_ok_def\<close>)

lemma loop_returns_ok:
  assumes "wait_groups_ok M" "sv_loops M g = Some l" "lp_pc l \<noteq> LoopEnded" "sv_phase M \<noteq> Returned"
  shows "wait_groups_ok (loop_returns g M)"
proof (cases g)
  case (WatcherRun c)
  then have c: "c \<in> running_watchers (sv_loops M)" using assms(2,3) by (auto simp: running_watchers_def)
  have "finite (running_watchers (sv_loops M))" using assms(1) by (simp add: wait_groups_ok_def finite_running_watchers)
  with c have "card (running_watchers (sv_loops M) - {c}) = card (running_watchers (sv_loops M)) - 1" by simp
  with assms WatcherRun show ?thesis
    by (auto simp: wait_groups_ok_def loop_returns_def running_watchers_upd expiry_running_upd)
next
  case ExpiryLoop
  then have "expiry_running (sv_loops M)" using assms(2,3) by (auto simp: expiry_running_def)
  with assms ExpiryLoop show ?thesis
    by (auto simp: wait_groups_ok_def loop_returns_def running_watchers_upd expiry_running_upd)
qed (use assms in \<open>simp add: wait_groups_ok_def\<close>)

lemma mgr_launch_ok:
  assumes "wait_groups_ok M" "sv_mgr M = MgrStart" "range_order ks (watchers (ru_mgr (sv_run M)))"
  shows "wait_groups_ok (mgr_launch ks (M\<lparr>sv_mgr := MgrWait\<rparr>))"
proof -
  let ?M = "mgr_launch ks (M\<lparr>sv_mgr := MgrWait\<rparr>)"
  have ks: "distinct ks" "set ks = dom (watchers (ru_mgr (sv_run M)))" using assms(3) by (auto simp: range_order_def)
  have none: "sv_loops M (WatcherRun c) = None" for c using assms(1,2) by (auto simp: wait_groups_ok_def)
  have "running_watchers (sv_loops ?M) = set ks" "running_watchers (sv_loops M) = {}"
    by (auto simp: running_watchers_def loops_mgr_launch watcher_loop_def none)
  moreover have "expiry_running (sv_loops ?M) = expiry_running (sv_loops M)"
    "sv_loops ?M ExpiryLoop = sv_loops M ExpiryLoop" "sv_loops ?M ListenAndServe = sv_loops M ListenAndServe"
    by (simp_all add: expiry_running_def loops_mgr_launch)
  moreover have "dom (sv_loops ?M) = dom (sv_loops M) \<union> WatcherRun ` set ks"
    by (rule set_eqI, rename_tac g, case_tac g) (auto simp: loops_mgr_launch dom_def)
  moreover have "sv_loops ?M (WatcherRun c) \<noteq> None \<longleftrightarrow> c \<in> set ks" for c by (simp add: loops_mgr_launch none)
  moreover have "finite (WatcherRun ` dom (watchers (ru_mgr (sv_run M))))" unfolding ks(2) [symmetric] by simp
  moreover have "length ks = card (dom (watchers (ru_mgr (sv_run M))))" unfolding ks(2) [symmetric] using ks(1) by (simp add: distinct_card)
  ultimately show ?thesis using assms(1,2) ks(2)
    by (auto simp: wait_groups_ok_def)
qed

lemma main_step_ok:
  assumes "main_step lib tol k M M'" "wait_groups_ok M"
  shows "wait_groups_ok M'"
proof -
  have r: "sv_phase M \<noteq> Returned" and "main_move lib tol k M M'" using assms(1) by (simp_all add: main_step_def)
  from this(2,1) assms(2) show ?thesis
  proof (induction rule: main_move.induct)
    case (tick M g l)
    then show ?case by (auto intro: at_loop_ok)
  next
    case (disabled M g l)
    then show ?case by (auto intro: loop_returns_ok)
  next
    case (select M g l c)
    then show ?case by (cases c) (auto intro: loop_returns_ok at_loop_ok)
  next
    case (body M g l R)
    from watchers_goroutine_step [OF body(3)] body(5) have "wait_groups_ok (M\<lparr>sv_run := R\<rparr>)"
      by (auto simp: wait_groups_ok_def)
    with body show ?case by (auto intro!: at_loop_ok)
  next
    case (mgr_starts M ks)
    then show ?case by (auto intro: mgr_launch_ok)
  next
    case (answer M n R)
    from watchers_goroutine_step [OF answer(2)] answer(1,3,4) show ?case by (auto simp: wait_groups_ok_def)
  qed (auto simp: wait_groups_ok_def)
qed

lemma launched_ok [simp]: "wait_groups_ok (launched R)"
  by (simp add: wait_groups_ok_def launched_def running_watchers_def expiry_running_def)

lemmas main_run_ok = main_run_inv [where I = wait_groups_ok, OF _ _ main_step_ok]

lemma main_move_process: "main_move lib tol k M M' \<Longrightarrow> process_steps lib tol (sv_run M) (sv_run M')"
proof (induction rule: main_move.induct)
  case (select M g l c)
  then show ?case by (cases c) (simp_all add: loop_returns_def)
qed (auto simp: loop_returns_def intro: process_stepI)

lemma main_step_process: "main_step lib tol k M M' \<Longrightarrow> process_steps lib tol (sv_run M) (sv_run M')"
  unfolding main_step_def by (blast intro: main_move_process)

lemma main_run_process: "main_run lib tol ks M M' \<Longrightarrow> process_steps lib tol (sv_run M) (sv_run M')"
  by (induction rule: main_run.induct) (auto dest: main_step_process intro: rtranclp_trans)

text \<open>What the counters being zero means: nothing is left running.\<close>

lemma returned_ended:
  assumes "wait_groups_ok M" "sv_phase M = Returned"
  shows "sv_cancelled M" "sv_mgr M = MgrEnded" "\<not> sv_listening M" "sv_loops M g = Some l \<Longrightarrow> lp_pc l = LoopEnded"
    "dom (sv_loops M) = insert ExpiryLoop (WatcherRun ` dom (watchers (ru_mgr (sv_run M))))"
    "sv_inflight M = 0 \<or> ShutdownError \<in> set (sv_errors M)"
proof -
  from assms show m: "sv_mgr M = MgrEnded" "\<not> sv_listening M" and "sv_cancelled M"
    and "sv_inflight M = 0 \<or> ShutdownError \<in> set (sv_errors M)"
    by (auto simp: wait_groups_ok_def)
  have "finite (running_watchers (sv_loops M))" using assms(1) by (simp add: wait_groups_ok_def finite_running_watchers)
  moreover have "card (running_watchers (sv_loops M)) = 0" using assms m by (simp add: wait_groups_ok_def)
  ultimately have w: "running_watchers (sv_loops M) = {}" by simp
  have e: "\<not> expiry_running (sv_loops M)" using assms m by (auto simp: wait_groups_ok_def)
  show "lp_pc l = LoopEnded" if "sv_loops M g = Some l" for g l
    using that w e assms(1) by (cases g) (auto simp: running_watchers_def expiry_running_def wait_groups_ok_def)
  show "dom (sv_loops M) = insert ExpiryLoop (WatcherRun ` dom (watchers (ru_mgr (sv_run M))))"
  proof (rule set_eqI)
    show "g \<in> dom (sv_loops M) \<longleftrightarrow> g \<in> insert ExpiryLoop (WatcherRun ` dom (watchers (ru_mgr (sv_run M))))" for g
      using assms(1) m by (cases g) (simp_all add: wait_groups_ok_def domIff image_iff)
  qed
qed

text \<open>
  A listener that fails is not replaced: the process stays, without a signal \<open>main\<close> never
  returns, and no request is accepted any more.
\<close>

lemma failed_listener_step:
  assumes "main_step lib tol k M M'" "\<not> sv_listening M"
  shows "\<not> sv_listening M' \<and> sv_inflight M' \<le> sv_inflight M"
proof -
  from assms(1) have "main_move lib tol k M M'" by (simp add: main_step_def)
  from this assms(2) show ?thesis
  proof (induction rule: main_move.induct)
    case (select M g l c)
    then show ?case by (cases c) (simp_all add: loop_returns_def)
  qed (auto simp: loop_returns_def)
qed

lemma failed_listener_serves_nobody:
  assumes "main_run lib tol ks M M'" "\<not> sv_listening M" "wait_groups_ok M"
  shows "\<not> sv_listening M' \<and> sv_inflight M' \<le> sv_inflight M \<and> (\<not> sv_cancelled M' \<longrightarrow> sv_phase M' = AwaitSignal)"
proof -
  have "\<not> sv_listening M' \<and> sv_inflight M' \<le> sv_inflight M"
    using assms(1,2)
  proof (induction rule: main_run.induct)
    case (run_cons k M M1 ks M')
    from failed_listener_step [OF run_cons(1,4)] run_cons(3) show ?case by simp
  qed simp
  moreover have "wait_groups_ok M'" by (rule main_run_ok [OF assms(1,3)])
  ultimately show ?thesis by (auto simp: wait_groups_ok_def)
qed

subsection \<open>After the signal the program stops\<close>

text \<open>
  How many steps of the program are left when the context is cancelled and nothing comes from
  outside: a tick that waits may still be taken, then the loop is back at its \<open>select\<close>.
\<close>

definition loop_rank :: "ticker_loop \<Rightarrow> nat" where
  "loop_rank l =
     (case lp_pc l of
        AwaitDone \<Rightarrow> 1
      | AtSelect \<Rightarrow> 1 + 2 * of_bool (lp_tick l)
      | InBody \<Rightarrow> 2 + 2 * of_bool (lp_tick l)
      | LoopEnded \<Rightarrow> 0)"

definition loops_rank :: "(goroutine \<rightharpoonup> ticker_loop) \<Rightarrow> nat" where
  "loops_rank m = (\<Sum>g\<in>dom m. loop_rank (the (m g)))"

fun mgr_rank :: "nat \<Rightarrow> manager_pc \<Rightarrow> nat" where
  "mgr_rank n MgrStart = n + 2"
| "mgr_rank n MgrWait = 1"
| "mgr_rank n MgrEnded = 0"

fun phase_rank :: "main_phase \<Rightarrow> nat" where
  "phase_rank AwaitSignal = 3"
| "phase_rank ShuttingDown = 2"
| "phase_rank AwaitGoroutines = 1"
| "phase_rank Returned = 0"

definition main_rank :: "'r main_state \<Rightarrow> nat" where
  "main_rank M = loops_rank (sv_loops M) +
     mgr_rank (card (dom (watchers (ru_mgr (sv_run M))))) (sv_mgr M) +
     of_bool (sv_listening M) + sv_inflight M + phase_rank (sv_phase M)"

lemma loops_rank_new:
  assumes "finite (dom m)" "m g = None"
  shows "loops_rank (m(g \<mapsto> l)) = loops_rank m + loop_rank l"
proof -
  have "(\<Sum>h\<in>dom m. loop_rank (the ((m(g \<mapsto> l)) h))) = (\<Sum>h\<in>dom m. loop_rank (the (m h)))"
    using assms(2) by (intro sum.cong) auto
  then show ?thesis using assms by (simp add: loops_rank_def domIff)
qed

lemma loops_rank_upd:
  assumes "finite (dom m)" "m g = Some l"
  shows "loops_rank (m(g \<mapsto> l')) + loop_rank l = loops_rank m + loop_rank l'"
proof -
  have "finite (dom (m(g := None)))" using assms(1) by simp
  note new = loops_rank_new [OF this, of g, simplified]
  have "m(g \<mapsto> l) = m" using assms(2) by auto
  then show ?thesis using new [of l] new [of l'] by simp
qed

lemma mgr_launch_Cons:
  "mgr_launch (c # ks) M = mgr_launch ks
     (at_loop (WatcherRun c) (watcher_loop (the (watchers (ru_mgr (sv_run M)) c))) (M\<lparr>sv_mgr_wg := sv_mgr_wg M + 1\<rparr>))"
  by (simp add: mgr_launch_def at_loop_def)

lemma loops_rank_launch:
  assumes "distinct ks" "\<forall>c\<in>set ks. sv_loops M (WatcherRun c) = None" "finite (dom (sv_loops M))"
  shows "loops_rank (sv_loops (mgr_launch ks M)) = loops_rank (sv_loops M) + length ks"
  using assms
proof (induction ks arbitrary: M)
  case (Cons c ks)
  let ?l = "watcher_loop (the (watchers (ru_mgr (sv_run M)) c))"
  let ?M1 = "at_loop (WatcherRun c) ?l (M\<lparr>sv_mgr_wg := sv_mgr_wg M + 1\<rparr>)"
  have "loop_rank ?l = 1" by (simp add: loop_rank_def watcher_loop_def)
  then have "loops_rank (sv_loops ?M1) = loops_rank (sv_loops M) + 1"
    using Cons.prems by (simp add: loops_rank_new del: fun_upd_apply)
  moreover have "loops_rank (sv_loops (mgr_launch ks ?M1)) = loops_rank (sv_loops ?M1) + length ks"
  proof (rule Cons.IH)
    show "finite (dom (sv_loops ?M1))" using Cons.prems by (simp del: fun_upd_apply)
  qed (use Cons.prems in auto)
  ultimately show ?case by (simp add: mgr_launch_Cons)
qed (simp add: mgr_launch_def)

lemma main_rank_step:
  assumes "main_step lib tol k M M'" "sv_cancelled M" "wait_groups_ok M"
  shows "main_rank M' + of_bool (k = Program) \<le> main_rank M + 2 * of_bool (k = Outside)"
proof -
  have "main_move lib tol k M M'" using assms(1) by (simp add: main_step_def)
  moreover have "finite (dom (sv_loops M))" using assms(3) by (simp add: wait_groups_ok_def)
  ultimately show ?thesis using assms(2,3)
  proof (induction rule: main_move.induct)
    case (tick M g l)
    then show ?case using loops_rank_upd [of "sv_loops M" g l "l\<lparr>lp_tick := True\<rparr>"]
      by (auto simp: main_rank_def loop_rank_def)
  next
    case (disabled M g l)
    then show ?case using loops_rank_upd [of "sv_loops M" g l "\<lparr>lp_pc = LoopEnded, lp_tick = False\<rparr>"]
      by (simp add: main_rank_def loop_rank_def loop_returns_def)
  next
    case (select M g l c)
    then show ?case
      using loops_rank_upd [of "sv_loops M" g l "\<lparr>lp_pc = LoopEnded, lp_tick = False\<rparr>"]
        loops_rank_upd [of "sv_loops M" g l "\<lparr>lp_pc = InBody, lp_tick = False\<rparr>"]
      by (cases c) (auto simp: main_rank_def loop_rank_def loop_returns_def select_ready_def split: if_splits)
  next
    case (body M g l R)
    then show ?case
      using loops_rank_upd [of "sv_loops M" g l "l\<lparr>lp_pc := AtSelect\<rparr>"] watchers_goroutine_step [OF body(3)]
      by (simp add: main_rank_def loop_rank_def)
  next
    case (mgr_starts M ks)
    then have "length ks = card (dom (watchers (ru_mgr (sv_run M))))" by (metis distinct_card range_order_def)
    moreover have "loops_rank (sv_loops (mgr_launch ks (M\<lparr>sv_mgr := MgrWait\<rparr>))) = loops_rank (sv_loops M) + length ks"
      using mgr_starts by (subst loops_rank_launch) (auto simp: range_order_def wait_groups_ok_def)
    ultimately show ?case using mgr_starts(1) by (simp add: main_rank_def)
  next
    case (answer M n R)
    then show ?case using watchers_goroutine_step [OF answer(2)] by (simp add: main_rank_def)
  qed (auto simp: main_rank_def)
qed

lemma main_step_cancelled:
  assumes "main_step lib tol k M M'" "sv_cancelled M" shows "sv_cancelled M'"
proof -
  from assms(1) have "main_move lib tol k M M'" by (simp add: main_step_def)
  from this assms(2) show ?thesis
  proof (induction rule: main_move.induct)
    case (select M g l c)
    then show ?case by (cases c) (simp_all add: loop_returns_def)
  qed (auto simp: loop_returns_def)
qed

text \<open>Each event from outside costs at most two more steps.\<close>

lemma main_run_bound:
  "main_run lib tol ks M M' \<Longrightarrow> sv_cancelled M \<Longrightarrow> wait_groups_ok M \<Longrightarrow>
   count_list ks Program + main_rank M' \<le> main_rank M + 2 * count_list ks Outside"
proof (induction rule: main_run.induct)
  case (run_cons k M M1 ks M')
  have "count_list ks Program + main_rank M' \<le> main_rank M1 + 2 * count_list ks Outside"
    using run_cons.IH main_step_cancelled [OF run_cons(1,4)] main_step_ok [OF run_cons(1,5)] by blast
  with main_rank_step [OF run_cons(1,4,5)] show ?case by (cases k) simp_all
qed simp

subsection \<open>It is never stuck\<close>

text \<open>A body can always come to its end: a poll whose first request fails returns its error.\<close>

definition failing_net :: net where
  "failing_net = \<lparr>reply = (\<lambda>_ _. Unreachable ContextDone), ctx_done = (\<lambda>_. True)\<rparr>"

lemma retry_cancelled:
  assumes "\<And>u k. gives_up (body u k)"
  shows "\<exists>err. fst (retry msg body (\<lambda>_. True) urls) = Inl err"
proof -
  have "\<exists>r k l. try_urls body (\<lambda>_. True) urls k0 l0 = (r, k, l) \<and> (r = None \<or> (\<exists>err. r = Some (Inl err)))" for k0 l0
  proof (cases urls)
    case (Cons u us)
    obtain err where "body u k0 = Again err" using assms [of u k0] by (cases "body u k0") auto
    then show ?thesis by (simp add: Cons maxAttemptsPerURL_def numeral_2_eq_2)
  qed simp
  then obtain r k l where "try_urls body (\<lambda>_. True) urls 0 None = (r, k, l)" "r = None \<or> (\<exists>err. r = Some (Inl err))" by blast
  then show ?thesis by (auto simp: retry_def)
qed

lemma evm_poll_can_end: "\<exists>p res w' W'. evm_pollOnce p w W = Some (res, w', W')"
proof -
  let ?p = "(undefined :: evm_poll)\<lparr>ep_block_net := failing_net\<rparr>"
  have "gives_up (rpc_step failing_net dec b unm u k)" for dec b u k and unm :: "string \<Rightarrow> string option"
    by (simp add: rpc_step_def failing_net_def Let_def)
  then have "\<exists>err. fst (retry ''all RPC endpoints failed'' (rpc_step failing_net dec b unm) (\<lambda>_. True) urls) = Inl err"
    for dec b urls and unm :: "string \<Rightarrow> string option" by (rule retry_cancelled)
  moreover have "ctx_done failing_net = (\<lambda>_. True)" by (simp add: failing_net_def)
  ultimately have "\<exists>err. evm_call urls failing_net dec b unm = Inl err"
    for dec b urls and unm :: "string \<Rightarrow> string option" by (simp add: evm_call_def)
  then obtain err where "blockNumber ?p w = Inl err"
    by (metis (no_types, lifting) blockNumber_def evm_poll.select_convs(1) evm_poll.surjective evm_poll.update_convs(1) old.sum.simps(5))
  then have "evm_pollOnce ?p w W = Some (Inl (Wrap ''get latest block'' err), w, W)" by (simp add: evm_pollOnce_def)
  then show ?thesis by blast
qed

lemma body_can_end:
  assumes "db_ok (st_db (ru_site R))" "g = ExpiryLoop \<or> (\<exists>c \<in> dom (watchers (ru_mgr R)). g = WatcherRun c)"
  shows "\<exists>R'. goroutine_step lib tol g R R'"
  using assms(2)
proof
  assume "g = ExpiryLoop"
  then show ?thesis by (blast intro: goroutine_step.expiry)
next
  assume "\<exists>c \<in> dom (watchers (ru_mgr R)). g = WatcherRun c"
  then obtain c w where g: "g = WatcherRun c" "watchers (ru_mgr R) c = Some w" by blast
  let ?W = "\<lparr>w_env = undefined, w_other = (\<lambda>_ d. d), w_db = st_db (ru_site R)\<rparr>"
  have ok: "world_ok tol ?W" "w_db ?W = st_db (ru_site R)" using assms(1) by (simp_all add: world_ok_def)
  show ?thesis
  proof (cases w)
    case (TronW w2)
    obtain r w' W' where "tron_pollOnce lib undefined w2 ?W = (r, w', W')" by (metis surj_pair)
    with goroutine_step.tron_poll [OF g(2) [unfolded TronW] ok] g(1) show ?thesis by blast
  next
    case (TonW w3)
    obtain r w' W' where "ton_pollOnce lib undefined w3 ?W = (r, w', W')" by (metis surj_pair)
    with goroutine_step.ton_poll [OF g(2) [unfolded TonW] ok] g(1) show ?thesis by blast
  next
    case (EvmW w1)
    obtain p r w' W' where "evm_pollOnce p w1 ?W = Some (r, w', W')" using evm_poll_can_end [of w1 ?W] by blast
    with goroutine_step.evm_poll [OF g(2) [unfolded EvmW] ok] g(1) show ?thesis by blast
  qed
qed

lemma loop_can_move:
  assumes "sv_cancelled M" "wait_groups_ok M" "db_ok (st_db (ru_site (sv_run M)))"
    and "sv_loops M g = Some l" "lp_pc l \<noteq> LoopEnded"
  shows "\<exists>M'. main_move lib tol Program M M'"
proof (cases "lp_pc l")
  case AwaitDone
  from main_move.disabled [OF assms(4) this assms(1)] show ?thesis by blast
next
  case AtSelect
  from main_move.select [OF assms(4) this, of CtxDone] assms(1) show ?thesis by (auto simp: select_ready_def)
next
  case InBody
  have "g = ExpiryLoop \<or> (\<exists>c \<in> dom (watchers (ru_mgr (sv_run M))). g = WatcherRun c)"
    using assms(2,4) by (cases g) (auto simp: wait_groups_ok_def)
  from body_can_end [OF assms(3) this] main_move.body [OF assms(4) InBody] show ?thesis by blast
qed (use assms(5) in simp)

lemma main_can_move:
  assumes "sv_cancelled M" "wait_groups_ok M" "sv_phase M \<noteq> Returned"
    and "db_ok (st_db (ru_site (sv_run M)))" "finite (dom (watchers (ru_mgr (sv_run M))))"
  shows "\<exists>M'. main_step lib tol Program M M'"
proof -
  have "\<exists>M'. main_move lib tol Program M M'"
  proof (cases "sv_phase M")
    case AwaitSignal
    from main_move.begin_shutdown [OF this assms(1)] show ?thesis by blast
  next
    case ShuttingDown
    from main_move.drained [OF this] main_move.deadline [OF this] show ?thesis by blast
  next
    case AwaitGoroutines
    show ?thesis
    proof (cases "sv_wg M = 0")
      case True
      from main_move.returns [OF AwaitGoroutines True] show ?thesis by blast
    next
      case False
      then consider (manager) "sv_mgr M \<noteq> MgrEnded" | (expiry) "expiry_running (sv_loops M)" | (listener) "sv_listening M"
        using assms(2) by (auto simp: wait_groups_ok_def split: if_splits)
      then show ?thesis
      proof cases
        case manager
        show ?thesis
        proof (cases "sv_mgr M")
          case MgrStart
          obtain ks where "range_order ks (watchers (ru_mgr (sv_run M)))"
            using finite_distinct_list [OF assms(5)] by (auto simp: range_order_def)
          from main_move.mgr_starts [OF MgrStart this] show ?thesis by blast
        next
          case MgrWait
          show ?thesis
          proof (cases "sv_mgr_wg M = 0")
            case True
            from main_move.mgr_ends [OF MgrWait True] show ?thesis by blast
          next
            case False
            then have "running_watchers (sv_loops M) \<noteq> {}" using assms(2) by (auto simp: wait_groups_ok_def)
            then show ?thesis using loop_can_move [OF assms(1,2,4)] by (auto simp: running_watchers_def)
          qed
        qed (use manager in simp)
      next
        case expiry
        then show ?thesis using loop_can_move [OF assms(1,2,4)] by (auto simp: expiry_running_def)
      next
        case listener
        from main_move.server_closed [OF this, of lib tol] AwaitGoroutines show ?thesis by auto
      qed
    qed
  qed (use assms(3) in simp)
  with assms(3) show ?thesis by (simp add: main_step_def)
qed

text \<open>So, left alone, it returns.\<close>

lemma main_returns_alone:
  assumes "sv_cancelled M" "wait_groups_ok M"
    and "\<And>es M'. main_run lib tol es M M' \<Longrightarrow> db_ok (st_db (ru_site (sv_run M'))) \<and> finite (dom (watchers (ru_mgr (sv_run M'))))"
  shows "\<exists>es M'. main_run lib tol es M M' \<and> set es \<subseteq> {Program} \<and> sv_phase M' = Returned"
  using assms
proof (induction "main_rank M" arbitrary: M rule: less_induct)
  case less
  show ?case
  proof (cases "sv_phase M = Returned")
    case True
    then show ?thesis by (intro exI [of _ "[]"] exI [of _ M]) simp
  next
    case False
    have "main_run lib tol [] M M" by simp
    from less.prems(3) [OF this] obtain M1 where M1: "main_step lib tol Program M M1"
      using main_can_move [OF less.prems(1,2) False] by blast
    have "main_rank M1 < main_rank M" using main_rank_step [OF M1 less.prems(1,2)] by simp
    moreover have "main_run lib tol (Program # es) M M'" if "main_run lib tol es M1 M'" for es M' using M1 that by auto
    ultimately obtain es M' where "main_run lib tol es M1 M'" "set es \<subseteq> {Program}" "sv_phase M' = Returned"
      using less.hyps [of M1] less.prems(3) main_step_cancelled [OF M1 less.prems(1)] main_step_ok [OF M1 less.prems(2)] by blast
    with M1 show ?thesis by (intro exI [of _ "Program # es"] exI [of _ M']) auto
  qed
qed

end
