(* ===== verification/Columns.thy ===== *)
theory Columns
  imports Steps
begin

text \<open>
  The column types of \<open>migrations/000001_init_schema.up.sql\<close> as a predicate on rows:
  amounts are NUMERIC(20,8), counts INTEGER. Every statement stores values of these types,
  whatever Go values it is given.
\<close>

definition numeric_column :: "amount \<Rightarrow> bool" where
  "numeric_column x \<longleftrightarrow> has_places 8 x \<and> \<bar>x\<bar> < 10 ^ 12"

definition order_columns :: "order \<Rightarrow> bool" where
  "order_columns a \<longleftrightarrow>
     numeric_column (o_base a) \<and> numeric_column (o_expected a) \<and>
     (\<forall>x. o_received a = Some x \<longrightarrow> numeric_column x) \<and>
     in_i32 (o_confs a) \<and> in_i32 (o_required a)"

definition columns_ok :: "db \<Rightarrow> bool" where
  "columns_ok d \<longleftrightarrow> (\<forall>a\<in>set (orders d). order_columns a) \<and> (\<forall>r\<in>set (reviews d). numeric_column (r_amount r))"

lemma columns_ok_empty [simp]: "columns_ok empty_db"
  by (simp add: columns_ok_def empty_db_def)

lemma numeric20_8_column: "numeric20_8 x = Some y \<Longrightarrow> numeric_column y"
  unfolding numeric_column_def by (blast dest: numeric20_8_SomeD)

text \<open>A value of the column type is stored unchanged.\<close>

lemma round_half_column: "has_places n x \<Longrightarrow> round_half n x = x"
proof (cases "0 \<le> x")
  case False
  assume "has_places n x"
  then have "has_places n (- x)" by (simp add: has_places_def minus_mult_left [symmetric] del: minus_mult_left)
  then have "round_half n (- x) = - x" using False by (intro round_half_exact) simp_all
  then show ?thesis by simp
qed (simp add: round_half_exact)

lemma numeric20_8_stable: "numeric_column x \<Longrightarrow> numeric20_8 x = Some x"
  by (simp add: numeric_column_def numeric20_8_def round_half_column)

subsection \<open>Statements store values of their types\<close>

named_theorems column_intros

lemma columns_exec [column_intros]: "columns_ok d \<Longrightarrow> columns_ok (snd (f d)) \<Longrightarrow> columns_ok (snd (exec e s f d))"
  by (rule exec_preserves)

lemma columns_update_orders:
  assumes "columns_ok d" "\<And>a. order_columns a \<Longrightarrow> order_columns (f a)"
  shows "columns_ok (snd (update_orders P f d))"
  using assms by (cases rule: update_orders_cases [of P f d]) (auto simp: columns_ok_def set_update_rows)

lemma columns_insert_order [column_intros]: 
  assumes "columns_ok d"
  shows "columns_ok (snd (insert_order (new_order i u chain b off req now ex) d))"
  using assms
  by (auto simp: insert_order_def stored_row_def columns_ok_def order_columns_def new_order_def in_i32_def
      intro: numeric20_8_column split: option.splits)

lemma columns_update_confirmations_stmt [column_intros]:
  "columns_ok d \<Longrightarrow> columns_ok (snd (update_confirmations_stmt now chain tx h c d))"
  by (auto simp: update_confirmations_stmt_def progress_row_def order_columns_def intro!: columns_update_orders)

lemma columns_claim_stmt [column_intros]:
  "columns_ok d \<Longrightarrow> columns_ok (snd (claim_stmt e chain tx amt h c low high d))"
  by (auto simp: claim_stmt_def claim_row_def order_columns_def intro!: columns_update_orders
      dest: numeric20_8_column split: list.splits option.splits)

lemma columns_mark_underpaid_stmt:
  "columns_ok d \<Longrightarrow> columns_ok (snd (mark_underpaid_stmt now i tx h amt d))"
  by (auto simp: mark_underpaid_stmt_def underpaid_row_def order_columns_def intro!: columns_update_orders
      dest: numeric20_8_column split: option.splits)

lemma columns_ClaimUnderpaid [column_intros]:
  "columns_ok d \<Longrightarrow> columns_ok (snd (ClaimUnderpaid lib e chain tx amt h mx d))"
  using snd_ClaimUnderpaid [of lib e chain tx amt h mx d] columns_mark_underpaid_stmt by auto

lemma columns_expire [column_intros]:
  "columns_ok d \<Longrightarrow> columns_ok (snd (update_orders (past_due now) (expire_row now) d))"
  by (auto simp: expire_row_def order_columns_def intro!: columns_update_orders)

lemma columns_insert_review_stmt [column_intros]:
  "columns_ok d \<Longrightarrow> columns_ok (snd (insert_review_stmt now chain tx amt reason i d))"
  by (auto simp: insert_review_stmt_def columns_ok_def dest: numeric20_8_column split: option.splits)

lemma columns_same: "orders d' = orders d \<Longrightarrow> reviews d' = reviews d \<Longrightarrow> columns_ok d' = columns_ok d"
  by (simp add: columns_ok_def)

lemma columns_others [column_intros]:
  "columns_ok d \<Longrightarrow> columns_ok (snd (get_cursor_stmt now c d))"
  "columns_ok d \<Longrightarrow> columns_ok (snd (set_cursor_stmt now c h t d))"
  "columns_ok d \<Longrightarrow> columns_ok (snd (insert_audit_stmt now i c tx ev det d))"
  by (simp_all add: columns_ok_def insert_audit_stmt_def split: option.splits)

lemma db_step_columns: "db_step tol d d' \<Longrightarrow> columns_ok d \<Longrightarrow> columns_ok d'"
proof (induction rule: db_step.induct)
  case (log d e k i chain tx ev det)
  then show ?case unfolding Log_def by (intro column_intros)
next
  case (reorder rows d)
  then show ?case using mset_eq_setD [OF reorder.hyps] by (simp add: columns_ok_def)
qed (intro column_intros; assumption)+

lemma reachable_columns: "reachable tol d \<Longrightarrow> columns_ok d"
  by (induction rule: reachable.induct) (auto intro: db_step_columns)

end
