(* ===== verification/Book.thy ===== *)
theory Book
  imports Matching Columns Simulation
begin

text \<open>
  What the service is for, without tables, statements or rows: a book of deals. A deal has
  a chain, a price and a number of confirmations it needs, and goes through phases; money
  that settles no deal is queued for a person. \<open>book_step\<close> says what may happen to the book.
  Every statement of the program is a run of it on the book its database stands for.
\<close>

subsection \<open>The book\<close>

datatype phase =
    Awaiting
  | Counting string amount int
  | Settled string amount
  | Short string amount
  | Lapsed

record deal =
  b_chain :: string
  b_price :: amount
  b_need :: int
  b_phase :: phase

record book =
  deals :: "uuid \<rightharpoonup> deal"
  queue :: "string \<times> string \<rightharpoonup> amount \<times> uuid option"

fun phase_tx :: "phase \<Rightarrow> string option" where
  "phase_tx (Counting t x c) = Some t"
| "phase_tx (Settled t x) = Some t"
| "phase_tx (Short t x) = Some t"
| "phase_tx _ = None"

fun phase_paid :: "phase \<Rightarrow> amount option" where
  "phase_paid (Counting t x c) = Some x"
| "phase_paid (Settled t x) = Some x"
| "phase_paid _ = None"

text \<open>A payment settles its deal once it has the confirmations the deal needs.\<close>

definition counted :: "int \<Rightarrow> string \<Rightarrow> amount \<Rightarrow> int \<Rightarrow> phase" where
  "counted need t x c = (if need \<le> c then Settled t x else Counting t x c)"

definition taken :: "book \<Rightarrow> string \<Rightarrow> string \<Rightarrow> bool" where
  "taken B chain t \<longleftrightarrow> (\<exists>i D. deals B i = Some D \<and> b_chain D = chain \<and> phase_tx (b_phase D) = Some t)"

definition asked :: "book \<Rightarrow> string \<Rightarrow> amount \<Rightarrow> bool" where
  "asked B chain price \<longleftrightarrow>
     (\<exists>i D. deals B i = Some D \<and> b_chain D = chain \<and> b_price D = price \<and> b_phase D = Awaiting)"

definition to_phase :: "book \<Rightarrow> uuid \<Rightarrow> deal \<Rightarrow> phase \<Rightarrow> book" where
  "to_phase B i D p = B\<lparr>deals := (deals B)(i \<mapsto> D\<lparr>b_phase := p\<rparr>)\<rparr>"

text \<open>Money is queued on its own, or as the money that was too little for a deal.\<close>

definition queueable :: "book \<Rightarrow> string \<Rightarrow> string \<Rightarrow> amount \<Rightarrow> uuid option \<Rightarrow> bool" where
  "queueable B chain t x related \<longleftrightarrow> queue B (chain, t) = None \<and>
     (case related of
        None \<Rightarrow> True
      | Some i \<Rightarrow> \<exists>D. deals B i = Some D \<and> b_chain D = chain \<and> b_phase D = Short t x)"

inductive book_step :: "amount \<Rightarrow> book \<Rightarrow> book \<Rightarrow> bool" for tol where
  place:
    "deals B i = None \<Longrightarrow> 0 < price \<Longrightarrow> \<not> asked B chain price \<Longrightarrow>
     book_step tol B (B\<lparr>deals := (deals B)(i \<mapsto>
       \<lparr>b_chain = chain, b_price = price, b_need = need, b_phase = Awaiting\<rparr>)\<rparr>)"
| pay:
    "deals B i = Some D \<Longrightarrow> b_phase D = Awaiting \<Longrightarrow> \<not> taken B (b_chain D) t \<Longrightarrow>
     \<bar>b_price D - x\<bar> \<le> tol + 1 / (2 * 10 ^ 8) \<Longrightarrow>
     book_step tol B (to_phase B i D (counted (b_need D) t x c))"
| progress:
    "deals B i = Some D \<Longrightarrow> b_phase D = Counting t x c \<Longrightarrow> c \<le> c' \<Longrightarrow>
     book_step tol B (to_phase B i D (counted (b_need D) t x c'))"
| fall_short:
    "deals B i = Some D \<Longrightarrow> b_phase D = Awaiting \<Longrightarrow> \<not> taken B (b_chain D) t \<Longrightarrow> x \<le> b_price D \<Longrightarrow>
     book_step tol B (to_phase B i D (Short t x))"
| lapse:
    "deals B i = Some D \<Longrightarrow> b_phase D = Awaiting \<Longrightarrow> book_step tol B (to_phase B i D Lapsed)"
| enqueue:
    "queueable B chain t x related \<Longrightarrow>
     book_step tol B (B\<lparr>queue := (queue B)((chain, t) \<mapsto> (x, related))\<rparr>)"

abbreviation book_steps :: "amount \<Rightarrow> book \<Rightarrow> book \<Rightarrow> bool" where
  "book_steps tol \<equiv> (book_step tol)\<^sup>*\<^sup>*"

subsection \<open>What the book keeps\<close>

definition book_ok :: "amount \<Rightarrow> book \<Rightarrow> bool" where
  "book_ok tol B \<longleftrightarrow>
     (\<forall>i j D E t. deals B i = Some D \<and> deals B j = Some E \<and> b_chain D = b_chain E \<and>
        phase_tx (b_phase D) = Some t \<and> phase_tx (b_phase E) = Some t \<longrightarrow> i = j) \<and>
     (\<forall>i D x. deals B i = Some D \<and> phase_paid (b_phase D) = Some x \<longrightarrow>
        \<bar>b_price D - x\<bar> \<le> tol + 1 / (2 * 10 ^ 8))"

lemma counted_sel [simp]:
  "phase_tx (counted need t x c) = Some t" "phase_paid (counted need t x c) = Some x"
  by (simp_all add: counted_def)

lemma book_okI:
  assumes "\<And>i j D E t. deals B i = Some D \<Longrightarrow> deals B j = Some E \<Longrightarrow> b_chain D = b_chain E \<Longrightarrow>
      phase_tx (b_phase D) = Some t \<Longrightarrow> phase_tx (b_phase E) = Some t \<Longrightarrow> i = j"
    and "\<And>i D x. deals B i = Some D \<Longrightarrow> phase_paid (b_phase D) = Some x \<Longrightarrow> \<bar>b_price D - x\<bar> \<le> tol + 1 / (2 * 10 ^ 8)"
  shows "book_ok tol B"
  using assms unfolding book_ok_def by blast

lemma book_okD:
  assumes "book_ok tol B"
  shows "deals B i = Some D \<Longrightarrow> deals B j = Some E \<Longrightarrow> b_chain D = b_chain E \<Longrightarrow>
      phase_tx (b_phase D) = Some t \<Longrightarrow> phase_tx (b_phase E) = Some t \<Longrightarrow> i = j"
    and "deals B i = Some D \<Longrightarrow> phase_paid (b_phase D) = Some x \<Longrightarrow> \<bar>b_price D - x\<bar> \<le> tol + 1 / (2 * 10 ^ 8)"
  using assms unfolding book_ok_def by blast+

lemma book_ok_queue [simp]: "book_ok tol (B\<lparr>queue := q\<rparr>) = book_ok tol B"
  by (simp add: book_ok_def)

text \<open>Moving one deal to a phase whose transaction is its own or free, and whose payment fits.\<close>

lemma book_ok_to_phase:
  assumes "book_ok tol B" "deals B i = Some D"
    and "\<And>t. phase_tx p = Some t \<Longrightarrow> phase_tx (b_phase D) = Some t \<or> \<not> taken B (b_chain D) t"
    and "\<And>x. phase_paid p = Some x \<Longrightarrow> \<bar>b_price D - x\<bar> \<le> tol + 1 / (2 * 10 ^ 8)"
  shows "book_ok tol (to_phase B i D p)"
proof (rule book_okI)
  fix j k E F t
  assume E: "deals (to_phase B i D p) j = Some E" and F: "deals (to_phase B i D p) k = Some F"
    and c: "b_chain E = b_chain F" and t: "phase_tx (b_phase E) = Some t" "phase_tx (b_phase F) = Some t"
  have own: "l = i" if "deals B l = Some G" "b_chain G = b_chain D" "phase_tx (b_phase G) = Some t" "phase_tx p = Some t" for l G
    using assms(3) [OF that(4)] that book_okD(1) [OF assms(1) that(1) assms(2)] by (auto simp: taken_def)
  show "j = k"
  proof (cases "j = i"; cases "k = i")
    assume ji: "j = i" and ki: "k \<noteq> i"
    then have "k = i" using own [of k F] E F c t by (auto simp: to_phase_def)
    with ki show "j = k" by blast
  next
    assume ji: "j \<noteq> i" and ki: "k = i"
    then have "j = i" using own [of j E] E F c t by (auto simp: to_phase_def)
    with ji show "j = k" by blast
  next
    assume "j \<noteq> i" "k \<noteq> i"
    then show "j = k" using E F c t book_okD(1) [OF assms(1)] by (auto simp: to_phase_def)
  qed simp
next
  fix j E x
  assume "deals (to_phase B i D p) j = Some E" "phase_paid (b_phase E) = Some x"
  then show "\<bar>b_price E - x\<bar> \<le> tol + 1 / (2 * 10 ^ 8)"
    using assms(4) book_okD(2) [OF assms(1)] by (cases "j = i") (auto simp: to_phase_def)
qed

lemma book_step_ok: "book_step tol B B' \<Longrightarrow> book_ok tol B \<Longrightarrow> book_ok tol B'"
proof (induction rule: book_step.induct)
  case (place B i price chain need)
  from place.prems show ?case
    by (intro book_okI) (auto split: if_splits dest: book_okD(1) [OF place.prems] book_okD(2) [OF place.prems])
next
  case (progress B i D t x c c')
  then have "\<bar>b_price D - x\<bar> \<le> tol + 1 / (2 * 10 ^ 8)" by (intro book_okD(2) [of tol B i D x]) simp_all
  with progress show ?case by (intro book_ok_to_phase) auto
next
  case (enqueue B chain t x related)
  then show ?case by simp
qed (auto intro!: book_ok_to_phase)

interpretation books: machine "book_step tol" "book_ok tol" for tol
  by unfold_locales (rule book_step_ok)

end
