(* ===== verification/BookRefinement.thy ===== *)
theory BookRefinement
  imports Book
begin

text \<open>
  The database as a book: rows become deals and queue entries. Each statement, whatever its
  arguments and whatever happens to its round trip, is a run of the book: the guards of
  \<open>book_step\<close> are discharged by the WHERE clauses, the CHECKs and the unique indexes.
\<close>

subsection \<open>The abstraction\<close>

fun phase_of :: "status \<Rightarrow> order \<Rightarrow> phase" where
  "phase_of Pending a = Awaiting"
| "phase_of Confirming a = Counting (the (o_tx a)) (the (o_received a)) (o_confs a)"
| "phase_of Confirmed a = Settled (the (o_tx a)) (the (o_received a))"
| "phase_of Underpaid a = Short (the (o_tx a)) (the (o_received a))"
| "phase_of Expired a = Lapsed"

definition deal_of :: "order \<Rightarrow> deal" where
  "deal_of a = \<lparr>b_chain = o_chain a, b_price = o_expected a, b_need = o_required a, b_phase = phase_of (o_status a) a\<rparr>"

definition book_of :: "db \<Rightarrow> book" where
  "book_of d = \<lparr>deals = (\<lambda>i. map_option deal_of (by_id (orders d) i)),
     queue = (\<lambda>k. map_option (\<lambda>r. (r_amount r, r_order r)) (by_tx (reviews d) k))\<rparr>"

lemma deal_of_sel [simp]:
  "b_chain (deal_of a) = o_chain a" "b_price (deal_of a) = o_expected a" "b_need (deal_of a) = o_required a"
  "b_phase (deal_of a) = phase_of (o_status a) a"
  by (simp_all add: deal_of_def)

lemma book_of_empty: "book_of empty_db = \<lparr>deals = Map.empty, queue = Map.empty\<rparr>"
  by (simp add: book_of_def empty_db_def by_id_def by_tx_def)

lemma book_of_same: "orders d' = orders d \<Longrightarrow> reviews d' = reviews d \<Longrightarrow> book_of d' = book_of d"
  by (simp add: book_of_def)

lemma book_of_cursor_stmts [simp]:
  "book_of (snd (get_cursor_stmt now c d)) = book_of d" "book_of (snd (set_cursor_stmt now c h t d)) = book_of d"
  by (rule book_of_same; simp)+

lemma deals_book_iff:
  "unique_ok (orders d) \<Longrightarrow>
   deals (book_of d) i = Some D \<longleftrightarrow> (\<exists>a\<in>set (orders d). o_id a = i \<and> D = deal_of a)"
  by (auto simp: book_of_def by_id_iff)

lemma deal_of_row: "unique_ok (orders d) \<Longrightarrow> a \<in> set (orders d) \<Longrightarrow> deals (book_of d) (o_id a) = Some (deal_of a)"
  by (auto simp: deals_book_iff)

lemma phase_of_awaiting [simp]: "phase_of s a = Awaiting \<longleftrightarrow> s = Pending"
  by (cases s) simp_all

lemma phase_tx_row: "order_ok a \<Longrightarrow> phase_tx (phase_of (o_status a) a) = o_tx a"
  by (cases "o_status a") (auto simp: order_ok_def claimed_def untouched_def)

lemma taken_book_iff:
  assumes "db_ok d"
  shows "taken (book_of d) chain t \<longleftrightarrow> (\<exists>a\<in>set (orders d). o_chain a = chain \<and> o_tx a = Some t)"
proof -
  have "phase_tx (b_phase (deal_of a)) = o_tx a" if "a \<in> set (orders d)" for a
    using phase_tx_row [OF db_okD(2) [OF assms that]] by simp
  then show ?thesis using db_okD(1) [OF assms] by (fastforce simp: taken_def deals_book_iff)
qed

lemma asked_book_iff:
  "unique_ok (orders d) \<Longrightarrow> asked (book_of d) chain price \<longleftrightarrow>
     (\<exists>a\<in>set (orders d). o_chain a = chain \<and> o_expected a = price \<and> o_status a = Pending)"
  by (fastforce simp: asked_def deals_book_iff)

subsection \<open>One row changes\<close>

lemma book_of_update:
  assumes "unique_ok (orders d)" "a \<in> set (orders d)" "\<And>b. o_id (f b) = o_id b"
  shows "book_of (d\<lparr>orders := update_rows (\<lambda>b. o_id b = o_id a) f (orders d)\<rparr>) =
    (book_of d)\<lparr>deals := (deals (book_of d))(o_id a \<mapsto> deal_of (f a))\<rparr>"
  by (simp add: book_of_def by_id_update [OF assms] fun_eq_iff)

text \<open>
  An UPDATE of one row that gives it a phase the book allows. Its unique index on
  transactions is what keeps a transaction from settling two deals.
\<close>

lemma update_one_simulates:
  assumes "db_ok d" "a \<in> set (orders d)" and id: "\<And>b. o_id (f b) = o_id b"
    and keeps: "deal_of (f a) = (deal_of a)\<lparr>b_phase := p\<rparr>"
    and step: "unique_ok (update_rows (\<lambda>b. o_id b = o_id a) f (orders d)) \<Longrightarrow>
      book_step tol (book_of d) (to_phase (book_of d) (o_id a) (deal_of a) p)"
  shows "book_steps tol (book_of d) (book_of (snd (update_orders (\<lambda>b. o_id b = o_id a) f d)))"
proof (cases rule: update_orders_cases [of "\<lambda>b. o_id b = o_id a" f d])
  case updated
  have "book_of (snd (update_orders (\<lambda>b. o_id b = o_id a) f d)) = to_phase (book_of d) (o_id a) (deal_of a) p"
    using updated book_of_update [OF db_okD(1) [OF assms(1)] assms(2) id] keeps by (simp add: to_phase_def)
  with step updated show ?thesis by auto
qed simp

lemma free_after_update:
  assumes "db_ok d" "a \<in> set (orders d)" "o_tx a = None"
    and u: "unique_ok (update_rows (\<lambda>b. o_id b = o_id a) f (orders d))"
    and "o_tx (f a) = Some t" "o_chain (f a) = o_chain a" "o_id (f a) = o_id a"
  shows "\<not> taken (book_of d) (o_chain a) t"
proof
  assume "taken (book_of d) (o_chain a) t"
  then obtain b where b: "b \<in> set (orders d)" "o_chain b = o_chain a" "o_tx b = Some t"
    by (auto simp: taken_book_iff [OF assms(1)])
  with assms(3) have "b \<noteq> a" by auto
  with b(1) assms(1,2) have "o_id b \<noteq> o_id a" by (blast dest: unique_ok_idD db_okD(1))
  with b assms(2) have "b \<in> set (update_rows (\<lambda>b. o_id b = o_id a) f (orders d))"
    "f a \<in> set (update_rows (\<lambda>b. o_id b = o_id a) f (orders d))" by (auto simp: set_update_rows)
  with u b assms(5,6) have "b = f a" by (intro unique_ok_txD) auto
  with \<open>o_id b \<noteq> o_id a\<close> assms(7) show False by simp
qed

subsection \<open>Every statement is a run of the book\<close>

lemma exec_simulates:
  "book_steps tol (book_of d) (book_of (snd (f d))) \<Longrightarrow> book_steps tol (book_of d) (book_of (snd (exec e s f d)))"
  by (rule exec_preserves [of "\<lambda>d'. book_steps tol (book_of d) (book_of d')"]) simp_all

lemma by_id_snoc:
  "\<forall>q\<in>set rows. o_id q \<noteq> o_id r \<Longrightarrow> by_id (rows @ [r]) = (by_id rows)(o_id r \<mapsto> r)"
  by (induction rows) (auto simp: by_id_def fun_eq_iff)

lemma insert_order_simulates:
  assumes "db_ok d"
  shows "book_steps tol (book_of d) (book_of (snd (insert_order (new_order i u chain b off req now ex) d)))"
proof (cases "snd (insert_order (new_order i u chain b off req now ex) d) = d")
  case False
  then obtain r where r: "stored_row (new_order i u chain b off req now ex) = Some r" "0 < o_expected r"
      "\<forall>q\<in>set (orders d). \<not> conflicts q r"
    and d': "snd (insert_order (new_order i u chain b off req now ex) d) = d\<lparr>orders := orders d @ [r]\<rparr>"
    by (auto simp: insert_order_def split: option.splits if_splits)
  have rd: "deal_of r = \<lparr>b_chain = o_chain r, b_price = o_expected r, b_need = o_required r, b_phase = Awaiting\<rparr>"
    using new_order_untouched [OF r(1)] by (simp add: deal_of_def)
  have ids: "\<forall>q\<in>set (orders d). o_id q \<noteq> o_id r" using r(3) by (auto simp: conflict_defs)
  from by_id_snoc [OF ids] have "book_of (d\<lparr>orders := orders d @ [r]\<rparr>) =
      (book_of d)\<lparr>deals := (deals (book_of d))(o_id r \<mapsto> deal_of r)\<rparr>"
    by (simp add: book_of_def fun_eq_iff)
  moreover have "deals (book_of d) (o_id r) = None"
    using ids by (cases "by_id (orders d) (o_id r)") (auto simp: book_of_def dest: by_id_SomeD)
  moreover have "\<not> asked (book_of d) (o_chain r) (o_expected r)"
    using r(3) new_order_untouched [OF r(1)] db_okD(1) [OF assms] by (auto simp: asked_book_iff conflict_defs)
  ultimately have "book_step tol (book_of d) (book_of (d\<lparr>orders := orders d @ [r]\<rparr>))"
    using r(2) by (simp add: rd book_step.place)
  then show ?thesis by (simp add: d')
qed simp

lemma phase_of_progress:
  "phase_of (progress_status c a) (progress_row now h c a) =
     counted (o_required a) (the (o_tx a)) (the (o_received a)) c"
  by (simp add: progress_status_def progress_row_def counted_def)

lemma confirm_simulates:
  assumes "db_ok d"
  shows "book_steps tol (book_of d) (book_of (snd (update_confirmations_stmt now chain tx h c d)))"
proof (cases "\<exists>a\<in>set (orders d). progress_target chain tx c a")
  case False
  then have "update_rows (progress_target chain tx c) (progress_row now h c) (orders d) = orders d"
    by (simp add: update_rows_none)
  then show ?thesis by (simp add: update_confirmations_stmt_def update_orders_def Let_def)
next
  case True
  then obtain a where a: "a \<in> set (orders d)" "progress_target chain tx c a" by blast
  let ?f = "progress_row now h c"
  have same: "update_orders (progress_target chain tx c) ?f d = update_orders (\<lambda>b. o_id b = o_id a) ?f d"
    using filter_progress_target [OF db_okD(1) [OF assms] a] filter_id_unique [OF db_okD(1) [OF assms] a(1)]
    by (simp add: update_orders_def Let_def)
  have st: "o_status a = Confirming" "o_tx a = Some tx" "o_confs a \<le> c" using a(2) by (auto simp: progress_target_def)
  have "book_steps tol (book_of d) (book_of (snd (update_orders (\<lambda>b. o_id b = o_id a) ?f d)))"
  proof (rule update_one_simulates [OF assms a(1), where p = "counted (o_required a) tx (the (o_received a)) c"])
    show "deal_of (?f a) = (deal_of a)\<lparr>b_phase := counted (o_required a) tx (the (o_received a)) c\<rparr>"
      using st phase_of_progress [of c a now h] by (simp add: deal_of_def) (simp add: progress_row_def)
    show "book_step tol (book_of d) (to_phase (book_of d) (o_id a) (deal_of a) (counted (o_required a) tx (the (o_received a)) c))"
      using book_step.progress [of "book_of d" "o_id a" "deal_of a" tx "the (o_received a)" "o_confs a" c tol]
        deal_of_row [OF db_okD(1) [OF assms] a(1)] st by simp
  qed (simp add: progress_row_def)
  then show ?thesis by (simp add: update_confirmations_stmt_def same)
qed

text \<open>A claimed row, and a row marked underpaid.\<close>

lemma claim_row_simulates:
  assumes "db_ok d" "a \<in> set (orders d)" "free_pending chain a"
    and "amt - tol \<le> o_expected a" "o_expected a \<le> amt + tol" "numeric20_8 amt = Some x"
  shows "book_steps tol (book_of d)
    (book_of (snd (update_orders (\<lambda>b. o_id b = o_id a) (claim_row now tx h x c) d)))"
proof (rule update_one_simulates [OF assms(1,2), where p = "counted (o_required a) tx x c"])
  show "deal_of (claim_row now tx h x c a) = (deal_of a)\<lparr>b_phase := counted (o_required a) tx x c\<rparr>"
    by (simp add: deal_of_def claim_row_def progress_status_def counted_def)
  assume u: "unique_ok (update_rows (\<lambda>b. o_id b = o_id a) (claim_row now tx h x c) (orders d))"
  have "\<not> taken (book_of d) (o_chain a) tx"
    by (rule free_after_update [OF assms(1,2) _ u]) (use assms(3) in \<open>auto simp: claim_row_def free_pending_def\<close>)
  moreover have "\<bar>o_expected a - x\<bar> \<le> tol + 1 / (2 * 10 ^ 8)"
    using paid_within_claim_row [OF assms(4-6), of now tx h "o_required a"]
    by (auto simp: paid_within_def claim_row_def progress_status_def)
  ultimately show "book_step tol (book_of d) (to_phase (book_of d) (o_id a) (deal_of a) (counted (o_required a) tx x c))"
    using book_step.pay [of "book_of d" "o_id a" "deal_of a" tx x tol c] deal_of_row [OF db_okD(1) [OF assms(1)] assms(2)]
      assms(3) by (simp add: free_pending_def)
qed (simp add: claim_row_def)

lemma claim_simulates:
  assumes "db_ok d"
  shows "book_steps tol (book_of d) (book_of (snd (claim_stmt e chain tx amt h c (amt - tol) (amt + tol) d)))"
proof -
  have "book_steps tol (book_of d)
      (book_of (snd (update_orders (\<lambda>b. o_id b = o_id a) (claim_row now tx h x c) d)))"
    if "a \<in> set (exact_candidates e chain (amt - tol) (amt + tol) (orders d))" "numeric20_8 amt = Some x" for a x now
    using that by (intro claim_row_simulates [OF assms, where chain = chain and amt = amt]) (auto simp: exact_candidates_def)
  then show ?thesis
    by (auto simp: claim_stmt_def split: list.splits option.splits dest!: sort_key_ConsD)
qed

text \<open>Numbers of \<open>n\<close> places that are less than one unit apart do not cross.\<close>

lemma places_le:
  assumes "has_places n x" "has_places n y" "x < y + 1 / 10 ^ n"
  shows "x \<le> y"
proof -
  obtain j k where j: "x * 10 ^ n = of_int j" and k: "y * 10 ^ n = of_int k"
    using assms(1,2) by (auto simp: has_places_def elim!: Ints_cases)
  have "x * 10 ^ n < (y + 1 / 10 ^ n) * 10 ^ n" using assms(3) by simp
  then have "of_int j < (of_int k + 1 :: rat)" unfolding j distrib_right k by simp
  then have "j \<le> k" by linarith
  then have "x * 10 ^ n \<le> y * 10 ^ n" by (simp add: j k)
  then show ?thesis by simp
qed

lemma stored_not_above:
  assumes "amt < p" "numeric20_8 amt = Some x" "numeric_column p"
  shows "x \<le> p"
proof (rule places_le [of 8])
  show "has_places 8 x" "has_places 8 p" using assms(2,3) by (auto simp: numeric_column_def dest: numeric20_8_SomeD)
  have "x = round_half 8 amt" using numeric20_8_SomeD [OF assms(2)] by blast
  with round_half_close [of 8 amt] have "x - amt \<le> 1 / (2 * 10 ^ 8)" by (metis abs_ge_self order_trans)
  moreover have "1 / (2 * 10 ^ 8) < (1 / 10 ^ 8 :: rat)" by simp
  ultimately show "x < p + 1 / 10 ^ 8" using assms(1) by linarith
qed

lemma mark_underpaid_simulates:
  assumes "db_ok d" "a \<in> set (orders d)" "free_pending chain a" "amt < o_expected a" "numeric_column (o_expected a)"
  shows "book_steps tol (book_of d) (book_of (snd (mark_underpaid_stmt now (o_id a) tx h amt d)))"
proof (cases "numeric20_8 amt")
  case (Some x)
  have "book_steps tol (book_of d)
      (book_of (snd (update_orders (\<lambda>b. o_id b = o_id a) (underpaid_row now tx h x) d)))"
  proof (rule update_one_simulates [OF assms(1,2), where p = "Short tx x"])
    assume u: "unique_ok (update_rows (\<lambda>b. o_id b = o_id a) (underpaid_row now tx h x) (orders d))"
    have "\<not> taken (book_of d) (o_chain a) tx"
      by (rule free_after_update [OF assms(1,2) _ u]) (use assms(3) in \<open>auto simp: underpaid_row_def free_pending_def\<close>)
    then show "book_step tol (book_of d) (to_phase (book_of d) (o_id a) (deal_of a) (Short tx x))"
      using assms(3) stored_not_above [OF assms(4) Some assms(5)] deal_of_row [OF db_okD(1) [OF assms(1)] assms(2)]
      by (intro book_step.fall_short) (simp_all add: free_pending_def)
  qed (simp_all add: underpaid_row_def deal_of_def)
  then show ?thesis by (simp add: mark_underpaid_stmt_def Some)
qed (simp add: mark_underpaid_stmt_def)

lemma ClaimUnderpaid_simulates:
  assumes "db_ok d" "columns_ok d"
  shows "book_steps tol (book_of d) (book_of (snd (ClaimUnderpaid lib e chain tx amt h mx d)))"
  using snd_ClaimUnderpaid [of lib e chain tx amt h mx d]
proof (elim disjE exE conjE)
  fix a
  assume a: "a \<in> set (orders d)" "free_pending chain a" "amt < o_expected a"
    and eq: "snd (ClaimUnderpaid lib e chain tx amt h mx d) =
      snd (mark_underpaid_stmt (clock e MarkUnderpaid) (o_id a) tx h amt d)"
  have "numeric_column (o_expected a)" using assms(2) a(1) by (simp add: columns_ok_def order_columns_def)
  from mark_underpaid_simulates [OF assms(1) a this] show ?thesis unfolding eq .
qed simp

subsection \<open>Expiry\<close>

definition lapsing :: "uuid set \<Rightarrow> book \<Rightarrow> book" where
  "lapsing S B = B\<lparr>deals := (\<lambda>i. if i \<in> S then map_option (\<lambda>D. D\<lparr>b_phase := Lapsed\<rparr>) (deals B i) else deals B i)\<rparr>"

lemma lapsing_steps:
  assumes "finite S" "\<And>i. i \<in> S \<Longrightarrow> \<exists>D. deals B i = Some D \<and> b_phase D = Awaiting"
  shows "book_steps tol B (lapsing S B)"
  using assms
proof (induction S rule: finite_induct)
  case empty
  have "lapsing {} B = B" by (simp add: lapsing_def)
  then show ?case by simp
next
  case (insert i S)
  then obtain D where D: "deals B i = Some D" "b_phase D = Awaiting" by blast
  have "deals (lapsing S B) i = Some D" using insert.hyps D by (simp add: lapsing_def)
  moreover have "lapsing (insert i S) B = to_phase (lapsing S B) i D Lapsed"
    using D insert.hyps by (auto simp: lapsing_def to_phase_def fun_eq_iff)
  ultimately have "book_step tol (lapsing S B) (lapsing (insert i S) B)" using D(2) by (simp add: book_step.lapse)
  with insert show ?case by (meson insertI2 rtranclp.rtrancl_into_rtrancl)
qed

lemma by_id_update_rows:
  "(\<And>b. o_id (f b) = o_id b) \<Longrightarrow>
   by_id (update_rows P f rows) i = map_option (\<lambda>a. if P a then f a else a) (by_id rows i)"
  by (induction rows) (auto simp: by_id_def)

lemma expire_simulates:
  assumes "db_ok d"
  shows "book_steps tol (book_of d) (book_of (snd (update_orders (past_due now) (expire_row now) d)))"
proof (cases rule: update_orders_cases [of "past_due now" "expire_row now" d])
  case updated
  let ?S = "o_id ` {a \<in> set (orders d). past_due now a}"
  have u: "unique_ok (orders d)" using assms by (rule db_okD)
  have S: "o_id a \<in> ?S \<longleftrightarrow> past_due now a" if "a \<in> set (orders d)" for a
    using that unique_ok_idD [OF u] by blast
  have "deals (book_of (snd (update_orders (past_due now) (expire_row now) d))) i = deals (lapsing ?S (book_of d)) i" for i
  proof (cases "by_id (orders d) i")
    case (Some a)
    then have "a \<in> set (orders d)" "o_id a = i" by (auto dest: by_id_SomeD)
    with Some S [of a] updated show ?thesis
      by (auto simp: book_of_def lapsing_def by_id_update_rows expire_row_def deal_of_def)
  next
    case None
    with updated show ?thesis by (simp add: book_of_def lapsing_def by_id_update_rows expire_row_def)
  qed
  then have "book_of (snd (update_orders (past_due now) (expire_row now) d)) = lapsing ?S (book_of d)"
    using updated by (intro book.equality) (simp_all add: fun_eq_iff book_of_def lapsing_def)
  moreover have "book_steps tol (book_of d) (lapsing ?S (book_of d))"
    by (rule lapsing_steps) (auto simp: deal_of_row [OF u] past_due_def)
  ultimately show ?thesis by simp
qed simp

subsection \<open>The review queue\<close>

lemma review_simulates:
  assumes "db_ok d" "review_args_ok (orders d) chain tx amt reason related"
  shows "book_steps tol (book_of d) (book_of (snd (insert_review_stmt now chain tx amt reason related d)))"
proof (cases "snd (insert_review_stmt now chain tx amt reason related d) = d")
  case False
  then obtain x where x: "numeric20_8 amt = Some x" "by_tx (reviews d) (chain, tx) = None"
    and d': "snd (insert_review_stmt now chain tx amt reason related d) =
      d\<lparr>reviews := reviews d @ [review_row now chain tx x reason related]\<rparr>"
    by (auto simp: insert_review_stmt_def by_tx_None_iff split: option.splits if_splits)
  have "queueable (book_of d) chain tx x related"
  proof (cases related)
    case None
    with x show ?thesis by (simp add: queueable_def book_of_def)
  next
    case (Some i)
    with assms(2) x obtain a where a: "a \<in> set (orders d)" "o_id a = i" "o_status a = Underpaid" "o_chain a = chain"
      "o_tx a = Some tx" "o_received a = Some x" by (auto simp: review_args_ok_def)
    with deal_of_row [OF db_okD(1) [OF assms(1)] a(1)] Some x show ?thesis
      by (simp add: queueable_def) (simp add: book_of_def)
  qed
  moreover have "by_tx (reviews d @ [review_row now chain tx x reason related]) =
      (by_tx (reviews d))((chain, tx) \<mapsto> review_row now chain tx x reason related)"
    using by_tx_snoc [of "reviews d" "review_row now chain tx x reason related"] x(2) by simp
  then have "book_of (snd (insert_review_stmt now chain tx amt reason related d)) =
      (book_of d)\<lparr>queue := (queue (book_of d))((chain, tx) \<mapsto> (x, related))\<rparr>"
    by (simp add: d' book_of_def fun_eq_iff)
  ultimately show ?thesis using book_step.enqueue by (metis r_into_rtranclp)
qed simp

lemma book_of_reorder:
  assumes "unique_ok (orders d)" "mset rows = mset (orders d)"
  shows "book_of (d\<lparr>orders := rows\<rparr>) = book_of d"
proof -
  have "by_id rows i = by_id (orders d) i" for i
    using by_id_iff [OF assms(1)] by_id_iff [of rows] unique_ok_perm [OF assms(2)] assms(1) mset_eq_setD [OF assms(2)]
    by (metis option.exhaust)
  then show ?thesis by (simp add: book_of_def)
qed

lemma db_step_simulates:
  assumes "db_step tol d d'" "db_ok d" "columns_ok d"
  shows "book_steps tol (book_of d) (book_of d')"
  using assms
proof (induction rule: db_step.induct)
  case (underpaid d lib e chain tx amt h mx)
  then show ?case by (intro ClaimUnderpaid_simulates)
next
  case (log d e k i chain tx ev det)
  have "book_of (snd (Log e k i chain tx ev det d)) = book_of d" by (rule book_of_same) simp_all
  then show ?case by simp
next
  case (reorder rows d)
  then show ?case by (simp add: book_of_reorder db_okD(1))
next
  case (get_cursor d e s now chain)
  show ?case by (rule exec_simulates) simp
next
  case (set_cursor d e s now chain h t)
  show ?case by (rule exec_simulates) simp
next
  case (insert_order d e s i u chain b off req now ex)
  then show ?case by (intro exec_simulates insert_order_simulates)
next
  case (confirm d e s now chain tx h c)
  then show ?case by (intro exec_simulates confirm_simulates)
next
  case (claim d e s e' chain tx amt h c)
  then show ?case by (intro exec_simulates claim_simulates)
next
  case (expire d e s now)
  then show ?case by (intro exec_simulates expire_simulates)
next
  case (review d chain tx amt reason related e s now)
  then show ?case by (intro exec_simulates review_simulates)
qed

text \<open>So the database is a machine that simulates the book, and keeps what the book keeps.\<close>

interpretation payments: simulation_invariant "db_step tol" "\<lambda>d. db_ok d \<and> columns_ok d" book_of "book_step tol" "book_ok tol"
  for tol
proof unfold_locales
  fix d d'
  assume "db_ok d \<and> columns_ok d" "db_step tol d d'"
  then show "db_ok d' \<and> columns_ok d'"
    using db_step_good [of tol d d'] by (auto simp: good_step_def intro: db_step_columns)
qed (auto intro: db_step_simulates book_step_ok)

end
