(* ===== verification/RefinementProperties.thy ===== *)
theory RefinementProperties
  imports Shutdown BookRefinement
begin

text \<open>
  The properties that relate the program to its abstractions: what the tables hold is of
  the columns' types, and every run of the process is a run of the book of deals.
\<close>

subsection \<open>Column types\<close>

lemma stored_row_columns: "order_columns a \<Longrightarrow> stored_row a = Some a"
  by (simp add: stored_row_def order_columns_def numeric20_8_stable)

text \<open>
  C28. Whatever values the statements were given, every amount in a reachable database has at
  most eight decimal places and twelve digits before the point, every count fits 32 bits, and
  a row that is read and stored again is stored unchanged.
\<close>

theorem stored_values_are_typed:
  assumes "reachable tol d"
  shows "columns_ok d \<and> (\<forall>a\<in>set (orders d). stored_row a = Some a)"
  using reachable_columns [OF assms] stored_row_columns by (simp add: columns_ok_def)

theorem stored_values_are_typed_witness: "stored_row order_A = Some order_A"
  using stored_values_are_typed [OF reachable_two_pending [of 0]] by (simp add: two_pending_def)

subsection \<open>The process and the book\<close>

lemma reachable_run: "reachable tol d \<Longrightarrow> db_steps tol empty_db d"
  by (induction rule: reachable.induct) (auto intro: rtranclp.rtrancl_into_rtrancl)

lemma reachable_book_ok: "reachable tol d \<Longrightarrow> book_ok tol (book_of d)"
proof -
  assume r: "reachable tol d"
  have "book_ok tol (book_of empty_db)" by (simp add: book_of_empty book_ok_def)
  with payments.run_good [OF reachable_run [OF r]] show ?thesis by simp
qed

interpretation processes: simulation "process_step lib (s_tolerance s)"
  "\<lambda>R. still_serves lib s a0 R \<and> db_ok (st_db (ru_site R)) \<and> columns_ok (st_db (ru_site R))"
  "\<lambda>R. book_of (st_db (ru_site R))" "book_step (s_tolerance s)" for lib s a0
proof unfold_locales
  fix R R'
  assume R: "still_serves lib s a0 R \<and> db_ok (st_db (ru_site R)) \<and> columns_ok (st_db (ru_site R))"
    and "process_step lib (s_tolerance s) R R'"
  then have keep: "still_serves lib s a0 R'"
    and run: "db_steps (s_tolerance s) (st_db (ru_site R)) (st_db (ru_site R'))"
    using process_step_keeps by blast+
  show "still_serves lib s a0 R' \<and> db_ok (st_db (ru_site R')) \<and> columns_ok (st_db (ru_site R'))"
    using keep payments.run_inv [OF run] R by blast
  show "book_steps (s_tolerance s) (book_of (st_db (ru_site R))) (book_of (st_db (ru_site R')))"
    using payments.run_simulates [OF run] R by blast
qed

subsection \<open>Lifetimes\<close>

text \<open>
  One lifetime of a deployment whose schema is current: the program ends with an error before
  it serves, or it serves and is stopped at any moment. A process that is killed leaves
  behind what the statements it had begun have done; a graceful shutdown leaves nothing.
\<close>

inductive lifetime :: "'r outside \<Rightarrow> Config \<Rightarrow> db \<Rightarrow> db \<Rightarrow> bool" for ou cfg where
  refused:
    "main ou e now ks d = (Exit1 err, d') \<Longrightarrow> snd (migrate_up (ou_backends ou) d) = d \<Longrightarrow> lifetime ou cfg d d'"
| stopped:
    "Load (ou_lib ou) (ou_duration ou) (ou_env ou) = Inr cfg \<Longrightarrow> snd (migrate_up (ou_backends ou) d) = d \<Longrightarrow>
     main ou e now ks d = (Running p, d1) \<Longrightarrow>
     process_steps (ou_lib ou) (AmountTolerance cfg) (started p rd d1) R \<Longrightarrow>
     db_steps (AmountTolerance cfg) (st_db (ru_site R)) d' \<Longrightarrow> lifetime ou cfg d d'"

lemma main_keeps_database:
  "snd (migrate_up (ou_backends ou) d) = d \<Longrightarrow> snd (main ou e now ks d) = d"
  by (auto simp: main_database Migrate_def split: sum.splits option.splits prod.splits)

lemma lifetime_steps:
  assumes "lifetime ou cfg d d'" "db_ok d" "columns_ok d"
  shows "db_steps (AmountTolerance cfg) d d'"
  using assms
proof (induction rule: lifetime.induct)
  case (refused e now ks d err d')
  then show ?case using main_keeps_database [of ou d e now ks] by simp
next
  case (stopped d e now ks p d1 rd R d')
  have d1: "d1 = d" using main_keeps_database [OF stopped(2), of e now ks] stopped(3) by simp
  have tol: "AmountTolerance cfg = s_tolerance (main_service cfg)" by (simp add: main_service_def)
  have inv: "still_serves (ou_lib ou) (main_service cfg) (pr_api p) (started p rd d1)"
    by (rule started_serves [OF stopped(3,1)])
  from process_steps_keep [OF stopped(4) [unfolded tol] inv]
  have "db_steps (AmountTolerance cfg) d (st_db (ru_site R))" by (simp add: started_def d1 tol)
  with stopped(5) show ?case by (rule rtranclp_trans [rotated])
qed

interpretation deployments: simulation_invariant "lifetime ou cfg" "\<lambda>d. db_ok d \<and> columns_ok d" book_of
  "book_step (AmountTolerance cfg)" "book_ok (AmountTolerance cfg)" for ou cfg
proof unfold_locales
  fix d d'
  assume d: "db_ok d \<and> columns_ok d" and "lifetime ou cfg d d'"
  then have run: "db_steps (AmountTolerance cfg) d d'" using lifetime_steps by blast
  show "db_ok d' \<and> columns_ok d'" using payments.run_inv [OF run d] .
  show "book_steps (AmountTolerance cfg) (book_of d) (book_of d')" using payments.run_simulates [OF run d] .
qed (rule book_step_ok)

lemma lifetimes_reach: "(lifetime ou cfg)\<^sup>*\<^sup>* d d' \<Longrightarrow> reachable (AmountTolerance cfg) d \<Longrightarrow> reachable (AmountTolerance cfg) d'"
  by (induction rule: rtranclp_induct) (blast intro: reachable_db_steps lifetime_steps reachable_db_ok reachable_columns)+

text \<open>
  C3. Every history of a deployment, over any number of starts, stops, crashes and failed
  starts, with the requests, polls and expiry passes of each run interleaved in any way and
  failing anywhere, is a run of the book of deals: a deal is paid by a free transaction of
  about its price, settles by confirmations only, or falls short or lapses, and money is
  queued once. So in the book no transaction pays two deals and every payment fits.
\<close>

theorem deployments_refine_book:
  assumes "(lifetime ou cfg)\<^sup>*\<^sup>* d d'" "reachable (AmountTolerance cfg) d"
  shows "book_steps (AmountTolerance cfg) (book_of d) (book_of d') \<and> book_ok (AmountTolerance cfg) (book_of d') \<and>
    reachable (AmountTolerance cfg) d'"
proof -
  have ok: "db_ok d \<and> columns_ok d" using reachable_db_ok [OF assms(2)] reachable_columns [OF assms(2)] by blast
  show ?thesis
    using deployments.run_simulates [OF assms(1) ok] deployments.run_good [OF assms(1) ok reachable_book_ok [OF assms(2)]]
      lifetimes_reach [OF assms] by blast
qed

text \<open>A lifetime of the small process: it expires both orders and is stopped.\<close>

theorem deployments_refine_book_witness:
  "book_steps (2 / 100) (book_of two_pending) (book_of (expireOnce (calm 1150) two_pending)) \<and>
   book_ok (2 / 100) (book_of (expireOnce (calm 1150) two_pending))"
proof -
  let ?d = "expireOnce (calm 1150) two_pending"
  obtain p cfg where p: "main sample_outside (calm 5) 7 [Polygon] two_pending = (Running p, two_pending)"
    and l: "Load (ou_lib sample_outside) (ou_duration sample_outside) (ou_env sample_outside) = Inr cfg"
    and k: "AmountTolerance cfg = 2 / 100" by (rule small_process)
  have m: "snd (migrate_up (ou_backends sample_outside) d) = d" for d by (simp add: sample_outside_def)
  have "process_steps (ou_lib sample_outside) (AmountTolerance cfg) (started p (\<lambda>_. 0) two_pending)
      (after_expiry (calm 1150) (started p (\<lambda>_. 0) two_pending))"
    unfolding after_expiry_def by (rule r_into_rtranclp) (rule process_stepI [OF goroutine_step.expiry])
  from lifetime.stopped [OF l m p this, of ?d] have "lifetime sample_outside cfg two_pending ?d"
    by (simp add: after_expiry_def started_def)
  then have "(lifetime sample_outside cfg)\<^sup>*\<^sup>* two_pending ?d" by blast
  from deployments_refine_book [OF this reachable_two_pending] k show ?thesis by simp
qed

subsection \<open>The end of main\<close>

lemma lifetime_of_main:
  assumes "Load (ou_lib ou) (ou_duration ou) (ou_env ou) = Inr cfg" "snd (migrate_up (ou_backends ou) d) = d"
    and "main ou e now ks d = (Running p, d1)"
    and "main_run (ou_lib ou) (AmountTolerance cfg) es (launched (started p rd d1)) M"
  shows "lifetime ou cfg d (st_db (ru_site (sv_run M)))"
proof -
  have "process_steps (ou_lib ou) (AmountTolerance cfg) (started p rd d1) (sv_run M)"
    using main_run_process [OF assms(4)] by (simp add: launched_def)
  from lifetime.stopped [OF assms(1-3) this] show ?thesis by blast
qed

text \<open>What \<open>main\<close> keeps while it runs: its counters, a good database, its watchers.\<close>

lemma main_run_keeps:
  assumes "main ou e now ks d = (Running p, d1)" "Load (ou_lib ou) (ou_duration ou) (ou_env ou) = Inr cfg"
    and "distinct ks" "set ks = {c. chain_enabled (cfg_Chains cfg) c}" "reachable (AmountTolerance cfg) d1"
    and "main_run (ou_lib ou) (AmountTolerance cfg) es (launched (started p rd d1)) M"
  shows "wait_groups_ok M" "db_ok (st_db (ru_site (sv_run M)))" "dom (watchers (ru_mgr (sv_run M))) = set ks"
proof -
  show "wait_groups_ok M" by (rule main_run_ok [OF assms(6)]) simp
  have "process_steps (ou_lib ou) (AmountTolerance cfg) (started p rd d1) (sv_run M)"
    using main_run_process [OF assms(6)] by (simp add: launched_def)
  note inv = running_process_keeps [OF assms(1-5) this]
  from inv(1) show "db_ok (st_db (ru_site (sv_run M)))" by (rule reachable_db_ok)
  have "c \<in> dom (watchers (ru_mgr (sv_run M))) \<longleftrightarrow> chain_enabled (cfg_Chains cfg) c" for c
    using inv(2) [of c] by (auto simp: mgr_RequiredConfirmations_def split: option.splits if_splits)
  with assms(4) show "dom (watchers (ru_mgr (sv_run M))) = set ks" by blast
qed

text \<open>
  C16. Termination of \<open>main\<close>. Once a signal has cancelled the context, and until \<open>main\<close> has
  returned, some goroutine or \<open>main\<close> itself can always move, and the number of moves that
  are left is bounded, up to two for each event from outside (a tick that still arrives, a
  request that is still accepted): the loops of the watchers and of the expiry job leave their
  \<open>select\<close> through \<open>ctx.Done\<close>, the wait groups reach zero and \<open>main\<close> returns. It has then
  returned after every watcher, the manager, the expiry loop and the listener, and every
  accepted request was answered unless the 15-second deadline was logged. The whole run is
  a lifetime of the deployment.
\<close>

theorem main_returns_in_order:
  assumes "main ou e now ks d = (Running p, d1)" "Load (ou_lib ou) (ou_duration ou) (ou_env ou) = Inr cfg"
    and "distinct ks" "set ks = {c. chain_enabled (cfg_Chains cfg) c}" "reachable (AmountTolerance cfg) d1"
    and "snd (migrate_up (ou_backends ou) d) = d"
    and "main_run (ou_lib ou) (AmountTolerance cfg) es (launched (started p rd d1)) M"
  shows "(sv_cancelled M \<longrightarrow> sv_phase M \<noteq> Returned \<longrightarrow> (\<exists>M'. main_step (ou_lib ou) (AmountTolerance cfg) Program M M')) \<and>
    (sv_cancelled M \<longrightarrow> (\<exists>n. \<forall>es' M'. main_run (ou_lib ou) (AmountTolerance cfg) es' M M' \<longrightarrow>
       count_list es' Program \<le> n + 2 * count_list es' Outside)) \<and>
    (sv_phase M = Returned \<longrightarrow>
       sv_cancelled M \<and> sv_mgr M = MgrEnded \<and> \<not> sv_listening M \<and>
       dom (sv_loops M) = insert ExpiryLoop (WatcherRun ` {c. chain_enabled (cfg_Chains cfg) c}) \<and>
       (\<forall>l\<in>ran (sv_loops M). lp_pc l = LoopEnded) \<and>
       (sv_inflight M = 0 \<or> ShutdownError \<in> set (sv_errors M))) \<and>
    lifetime ou cfg d (st_db (ru_site (sv_run M)))"
proof (intro conjI impI)
  note inv = main_run_keeps [OF assms(1-5,7)]
  show "\<exists>M'. main_step (ou_lib ou) (AmountTolerance cfg) Program M M'" if "sv_cancelled M" "sv_phase M \<noteq> Returned"
    using main_can_move [OF that(1) inv(1) that(2) inv(2)] inv(3) by simp
  show "\<exists>n. \<forall>es' M'. main_run (ou_lib ou) (AmountTolerance cfg) es' M M' \<longrightarrow>
      count_list es' Program \<le> n + 2 * count_list es' Outside" if "sv_cancelled M"
    using main_run_bound [OF _ that inv(1)] by (meson add_leD1)
  assume "sv_phase M = Returned"
  note ended = returned_ended [OF inv(1) this]
  show "sv_cancelled M" "sv_mgr M = MgrEnded" "\<not> sv_listening M" "\<forall>l\<in>ran (sv_loops M). lp_pc l = LoopEnded"
    "sv_inflight M = 0 \<or> ShutdownError \<in> set (sv_errors M)"
    using ended by (auto simp: ran_def)
  show "dom (sv_loops M) = insert ExpiryLoop (WatcherRun ` {c. chain_enabled (cfg_Chains cfg) c})"
    using ended(5) inv(3) assms(4) by simp
qed (rule lifetime_of_main [OF assms(2,6,1,7)])

text \<open>The small process is started, a signal comes, and it returns.\<close>

theorem main_returns_in_order_witness:
  "\<exists>p es (M :: (string \<Rightarrow> int) main_state). main sample_outside (calm 5) 7 [Polygon] two_pending = (Running p, two_pending) \<and>
     main_run (ou_lib sample_outside) (2 / 100) (Outside # es) (launched (started p (\<lambda>_. 0) two_pending)) M \<and>
     set es \<subseteq> {Program} \<and> sv_phase M = Returned \<and> dom (sv_loops M) = {ExpiryLoop, WatcherRun Polygon} \<and>
     (\<forall>l\<in>ran (sv_loops M). lp_pc l = LoopEnded)"
proof -
  obtain p cfg where p: "main sample_outside (calm 5) 7 [Polygon] two_pending = (Running p, two_pending)"
    and l: "Load (ou_lib sample_outside) (ou_duration sample_outside) (ou_env sample_outside) = Inr cfg"
    and k: "AmountTolerance cfg = 2 / 100" and c: "chain_enabled (cfg_Chains cfg) = (\<lambda>c. c = Polygon)"
    by (rule small_process)
  have m: "snd (migrate_up (ou_backends sample_outside) d) = d" for d by (simp add: sample_outside_def)
  have ks: "distinct [Polygon]" "set [Polygon] = {c. chain_enabled (cfg_Chains cfg) c}" by (simp_all add: c)
  let ?run = "main_run (ou_lib sample_outside) (AmountTolerance cfg)"
  define M0 where "M0 = (launched (started p (\<lambda>_. 0) two_pending) :: (string \<Rightarrow> int) main_state)"
  define M1 where "M1 = M0\<lparr>sv_cancelled := True\<rparr>"
  have "main_step (ou_lib sample_outside) (AmountTolerance cfg) Outside M0 M1"
    unfolding main_step_def M1_def using main_move.signal [of _ _ M0] by (simp add: M0_def launched_def)
  then have one: "?run [Outside] M0 M1" by simp
  have two: "?run (Outside # es) M0 M'" if "?run es M1 M'" for es M'
    using main_run_append [of _ _ "[Outside]" es M0 M'] one that by auto
  note keeps = main_run_keeps [OF p l ks reachable_two_pending two [unfolded M0_def]]
  have "sv_cancelled M1" "wait_groups_ok M1" using keeps(1) [of "[]" M1] by (simp_all add: M1_def)
  then obtain es M where M: "?run es M1 M" "set es \<subseteq> {Program}" "sv_phase M = Returned"
    using main_returns_alone [of M1 "ou_lib sample_outside" "AmountTolerance cfg"] keeps(2,3) by auto
  from main_returns_in_order [OF p l ks reachable_two_pending m two [OF M(1), unfolded M0_def]] M(3)
  have "dom (sv_loops M) = {ExpiryLoop, WatcherRun Polygon}" "\<forall>l\<in>ran (sv_loops M). lp_pc l = LoopEnded"
    by (simp_all add: c)
  with p two [OF M(1)] M(2,3) k show ?thesis unfolding M0_def by (intro exI [of _ p] exI [of _ es] exI [of _ M]) simp
qed

end
