(* ===== verification/ApiProperties.thy ===== *)
theory ApiProperties
  imports CreationProperties Api Config Columns
begin

text \<open>The properties of the rate limiter and of the HTTP API.\<close>

subsection \<open>The rate limiter\<close>

text \<open>
  Within one window, and while Redis answers, a caller's first \<open>limit\<close> requests are
  allowed and the others refused; when Redis does not answer, the request is allowed.
\<close>

lemma limiter_allows_first_requests:
  fixes count :: "'r \<Rightarrow> string \<Rightarrow> int"
  assumes "counter_store ops count" "\<forall>t\<in>set ts. window_key l t key = Inr k"
    and "\<forall>r. fst (r_incr ops k r) \<noteq> None" "count r k = 0"
  shows "answers ops l key ts r = map (\<lambda>i. Inr (int i < lim_limit l)) [0..<length ts] \<and>
    (window_key l now key = Inr k' \<longrightarrow> fst (r_incr ops' k' s) = None \<longrightarrow> fst (Allow ops' l now key s) = Inr True)"
proof
  have less: "1 + int i \<le> m \<longleftrightarrow> int i < m" for i m by arith
  show "answers ops l key ts r = map (\<lambda>i. Inr (int i < lim_limit l)) [0..<length ts]"
    using counter_store.answers_window [OF assms(1), of ts l key k r] assms(2-4)
    by (simp add: less)
  show "window_key l now key = Inr k' \<longrightarrow> fst (r_incr ops' k' s) = None \<longrightarrow> fst (Allow ops' l now key s) = Inr True"
    by (auto simp: Allow_def split: prod.splits)
qed


lemma per_minute_key: "window_key (NewLimiter n minute) t key =
    Inr (''ratelimit:'' @ key @ '':'' @ FormatInt (i64 (t div 1000000000) sdiv 60))"
  by (simp add: window_key_def NewLimiter_def minute_def second_def Let_def signed_divide_int_def)

subsection \<open>Access\<close>

text \<open>
  C31. Nothing but POST /v1/orders with the API key changes the database, and a POST without
  the key, or with another one, is refused with 401 before Redis or the database is touched.
\<close>

theorem only_the_key_writes:
  assumes "\<not> (rq_method r = ''POST'' \<and> route_of (rq_path r) = V1Orders \<and> rq_headers r ''X-API-Key'' \<noteq> [] \<and> rq_headers r ''X-API-Key'' = ap_key a)"
  shows "st_db (snd (NewRouter a v r s)) = st_db s \<and>
    (rq_method r = ''POST'' \<longrightarrow> route_of (rq_path r) = V1Orders \<longrightarrow>
       NewRouter a v r s = (writeError 401 (Literal ''invalid or missing X-API-Key''),
         s\<lparr>st_log := st_log s @ [(''POST'', rq_path r, 401)]\<rparr>))"
proof (cases "rq_method r = ''POST''")
  case True
  with assms show ?thesis
    by (auto simp: NewRouter_def recovered_def slogRequestLogger_def writeError_def writeJSON_def dispatch_def Let_def apiKeyMiddleware_def router_error_def split: route.split)
next
  case False
  then show ?thesis by (simp add: dispatch_GET_db)
qed

text \<open>\<open>RealIP\<close> for a request that names its address.\<close>

definition named_address :: "http_req \<Rightarrow> string" where
  "named_address r = (if rq_headers r ''True-Client-IP'' \<noteq> [] then rq_headers r ''True-Client-IP'' else rq_remote r)"

definition sample_api :: "(string \<Rightarrow> int, unit) api" where
  "sample_api =
     \<lparr>ap_realIP = named_address, ap_lib = reference_decimal,
      ap_codec = \<lparr>decode_create = (\<lambda>_. Some \<lparr>cr_user_id = ''carol'', cr_base_amount_usd = ''5'', cr_chain = ''TRON''\<rparr>),
        parse_uuid = (\<lambda>s. map_option of_nat (read_nat 10 s)), uuid_string = (\<lambda>i. print_nat 10 (unat i)),
        format_time = (\<lambda>t. FormatInt t)\<rparr>,
      ap_handlers = NewHandlers default_service tron_only [''tron'' \<mapsto> ''T''],
      ap_key = ''k'', ap_redis = map_redis, ap_ordersLimiter = NewLimiter 60 minute, ap_publicLimiter = NewLimiter 60 minute\<rparr>"

definition sample_visit :: visit where
  "sample_visit = \<lparr>v_env = calm 5, v_entropy = counting_entropy, v_now = 0, v_chains = [''tron'']\<rparr>"

definition post_request :: "string \<Rightarrow> http_req" where
  "post_request key = \<lparr>rq_method = ''POST'', rq_path = ''/v1/orders'', rq_headers = (\<lambda>_. [])(''X-API-Key'' := key), rq_remote = ''r'', rq_body = []\<rparr>"

lemma route_post [simp]: "route_of (rq_path (post_request key)) = V1Orders"
  by (simp add: post_request_def route_of_def)

theorem only_the_key_writes_witness:
  "rs_status (fst (NewRouter sample_api sample_visit (post_request ''guess'') \<lparr>st_redis = \<lambda>_. 0, st_db = two_pending, st_log = []\<rparr>)) = 401"
proof -
  have "\<not> (rq_method (post_request ''guess'') = ''POST'' \<and> route_of (rq_path (post_request ''guess'')) = V1Orders \<and>
      rq_headers (post_request ''guess'') ''X-API-Key'' \<noteq> [] \<and> rq_headers (post_request ''guess'') ''X-API-Key'' = ap_key sample_api)"
    by (simp add: post_request_def sample_api_def)
  from only_the_key_writes [OF this, of sample_visit "\<lparr>st_redis = \<lambda>_. 0, st_db = two_pending, st_log = []\<rparr>"]
  show ?thesis using route_post [of "''guess''"] by (simp add: post_request_def writeError_def writeJSON_def)
qed

subsection \<open>Who is counted\<close>

lemma api_GetOrder_answers:
  "\<exists>resp s'. api_GetOrder lib cd e h i r s = (Inr resp, s') \<and> rs_status resp \<in> {200, 400, 404, 500} \<and> st_redis s' = st_redis s"
  by (auto simp: api_GetOrder_def writeJSON_def writeError_def split: option.splits prod.splits sum.splits)

text \<open>The handler behind a public route.\<close>

definition public_handler :: "('r, 'w) api \<Rightarrow> visit \<Rightarrow> route \<Rightarrow> 'r site handler" where
  "public_handler a v rt =
     (case rt of
        V1Order i \<Rightarrow> api_GetOrder (ap_lib a) (ap_codec a) (v_env v) (ap_handlers a) i
      | _ \<Rightarrow> ListChains (ap_handlers a) (v_chains v))"

lemma dispatch_public:
  assumes "rq_method r = ''GET''" "route_of (rq_path r) = V1Chains \<or> (\<exists>i. route_of (rq_path r) = V1Order i)"
  shows "dispatch a v r = corsPublicGET (rateLimitMiddleware (ap_redis a) (ap_publicLimiter a) (v_now v)
    (public_handler a v (route_of (rq_path r)))) r"
  using assms by (auto simp: dispatch_def Let_def public_handler_def)

lemma public_handler_answers:
  "\<exists>resp s'. public_handler a v rt r s = (Inr resp, s') \<and> rs_status resp \<noteq> 429 \<and> st_redis s' = st_redis s"
proof (cases rt)
  case (V1Order i)
  with api_GetOrder_answers [of "ap_lib a" "ap_codec a" "v_env v" "ap_handlers a" i r s] show ?thesis
    by (force simp: public_handler_def)
qed (simp_all add: public_handler_def ListChains_def writeJSON_def)

text \<open>
  C40. Both public routes, GET /v1/chains and GET /v1/orders/{id}, count callers by the
  address \<open>RealIP\<close> gives, which is the one the request names in True-Client-IP: a caller who names
  an address that was not used in this window is answered by the handler of the route,
  never with 429, and no other counter changes, whatever came before over the same
  connection or from the same client.
\<close>

theorem named_address_is_not_limited:
  fixes count :: "'r \<Rightarrow> string \<Rightarrow> int"
  assumes "counter_store (ap_redis a) count"
    and "\<forall>q. rq_headers q ''True-Client-IP'' \<in> ips \<longrightarrow> ap_realIP a q = rq_headers q ''True-Client-IP''"
    and "rq_method r = ''GET''" "route_of (rq_path r) = V1Chains \<or> (\<exists>i. route_of (rq_path r) = V1Order i)"
    and "rq_headers r ''True-Client-IP'' \<in> ips"
    and "window_key (ap_publicLimiter a) (v_now v) (rq_headers r ''True-Client-IP'') = Inr k"
    and "count (st_redis s) k = 0" "1 \<le> lim_limit (ap_publicLimiter a)"
  shows "(\<exists>rd resp s'. public_handler a v (route_of (rq_path r)) (r\<lparr>rq_remote := rq_headers r ''True-Client-IP''\<rparr>) (s\<lparr>st_redis := rd\<rparr>) =
        (Inr resp, s') \<and> fst (NewRouter a v r s) = resp\<lparr>rs_cors := True\<rparr>) \<and>
    rs_status (fst (NewRouter a v r s)) \<noteq> 429 \<and>
    (k' \<noteq> k \<longrightarrow> count (st_redis (snd (NewRouter a v r s))) k' = count (st_redis s) k')"
proof -
  let ?l = "ap_publicLimiter a" and ?ip = "rq_headers r ''True-Client-IP''"
  let ?r = "r\<lparr>rq_remote := ?ip\<rparr>"
  obtain b rd where al: "Allow (ap_redis a) ?l (v_now v) ?ip (st_redis s) = (b, rd)" by (metis surj_pair)
  have b: "b = Inr True"
  proof (cases "fst (r_incr (ap_redis a) k (st_redis s)) = None")
    case True
    then show ?thesis using al assms(6) by (auto simp: Allow_def split: prod.splits)
  next
    case False
    from counter_store.Allow_up(1) [OF assms(1,6) False] show ?thesis using al assms(7,8) by simp
  qed
  have other: "k' \<noteq> k \<longrightarrow> count rd k' = count (st_redis s) k'"
    using counter_store.Allow_other [OF assms(1,6), of k' "st_redis s"] al by simp
  obtain resp s' where h: "public_handler a v (route_of (rq_path r)) ?r (s\<lparr>st_redis := rd\<rparr>) = (Inr resp, s')"
    "rs_status resp \<noteq> 429" "st_redis s' = rd"
    using public_handler_answers [of a v "route_of (rq_path r)" ?r "s\<lparr>st_redis := rd\<rparr>"] by auto
  have "dispatch a v (r\<lparr>rq_remote := ap_realIP a r\<rparr>) s = (Inr (resp\<lparr>rs_cors := True\<rparr>), s')"
    using assms(2,3,4,5) al b h(1) by (simp add: dispatch_public corsPublicGET_def rateLimitMiddleware_def)
  from NewRouter_Inr [OF this] h other show ?thesis by auto
qed

definition get_request :: "string \<Rightarrow> string \<Rightarrow> http_req" where
  "get_request path ip =
     \<lparr>rq_method = ''GET'', rq_path = path, rq_headers = (\<lambda>_. [])(''True-Client-IP'' := ip),
      rq_remote = ''5.6.7.8:5000'', rq_body = []\<rparr>"

lemma route_get [simp]:
  "route_of (rq_path (get_request ''/v1/chains'' ip)) = V1Chains"
  "route_of (rq_path (get_request ''/v1/orders/1'' ip)) = V1Order ''1''"
  by (simp_all add: get_request_def route_of_def)

text \<open>The connection has used up its own budget, and the requests pass all the same.\<close>

theorem named_address_is_not_limited_witness:
  "let spent = \<lparr>st_redis = (\<lambda>k. if k = ''ratelimit:9.9.9.9:0'' then 0 else 60), st_db = two_pending, st_log = []\<rparr> in
     rs_status (fst (NewRouter sample_api sample_visit (get_request ''/v1/chains'' ''9.9.9.9'') spent)) = 200 \<and>
     rs_status (fst (NewRouter sample_api sample_visit (get_request ''/v1/orders/1'' ''9.9.9.9'') spent)) \<noteq> 429"
proof -
  let ?spent = "\<lparr>st_redis = (\<lambda>k. if k = ''ratelimit:9.9.9.9:0'' then 0 else 60), st_db = two_pending, st_log = []\<rparr>"
  have "FormatInt 0 = ''0''" by (simp add: FormatInt_def print_int_def digit_char_def print_nat.simps char_of_def bit_simps)
  then have k: "window_key (ap_publicLimiter sample_api) (v_now sample_visit) (rq_headers (get_request path ''9.9.9.9'') ''True-Client-IP'') =
      Inr ''ratelimit:9.9.9.9:0''" for path
    by (simp add: sample_api_def sample_visit_def get_request_def per_minute_key in_i64_def)
  have r: "\<forall>q. rq_headers q ''True-Client-IP'' \<in> {''9.9.9.9''} \<longrightarrow> ap_realIP sample_api q = rq_headers q ''True-Client-IP''"
    by (simp add: sample_api_def named_address_def)
  have c: "counter_store (ap_redis sample_api) (\<lambda>r. r)" using map_redis.counter_store_axioms by (simp add: sample_api_def)
  have m: "rq_method (get_request path ''9.9.9.9'') = ''GET''" "rq_headers (get_request path ''9.9.9.9'') ''True-Client-IP'' \<in> {''9.9.9.9''}"
    "1 \<le> lim_limit (ap_publicLimiter sample_api)" for path
    by (simp_all add: get_request_def sample_api_def NewLimiter_def)
  note pass = named_address_is_not_limited [where s = ?spent, OF c r m(1) _ m(2) k _ m(3)]
  have "rs_status (fst (NewRouter sample_api sample_visit (get_request ''/v1/chains'' ''9.9.9.9'') ?spent)) = 200"
    using pass [of "''/v1/chains''"] by (auto simp: public_handler_def ListChains_def writeJSON_def)
  moreover have "rs_status (fst (NewRouter sample_api sample_visit (get_request ''/v1/orders/1'' ''9.9.9.9'') ?spent)) \<noteq> 429"
    using pass [of "''/v1/orders/1''"] by simp
  ultimately show ?thesis by simp
qed

subsection \<open>Create, then read\<close>

lemma CreateOrder_row:
  assumes "CreateOrder lib e g s mgr u b ch d = (Inr a, d')"
  obtains r off where "orders d' = orders d @ [r]" "stored_row a = Some r"
    "o_base a = b" "o_expected a = b + of_int off / 10 ^ 4"
proof -
  obtain req d1 where c: "CreateWithUniqueAmount e g u (to_lower ch) b req (s_expiry s) (s_offset_min s) (s_offset_max s)
       (s_max_retries s) d = (Inr a, d1)" and d': "orders d' = orders d1"
    using assms by (rule CreateOrder_Inr)
  then obtain j where j: "build_order e g u (to_lower ch) b req (s_expiry s) (s_offset_min s) (s_offset_max s) j = Inr a"
    and ins: "insert_order a d = (Inr (), d1)"
    by (auto simp: CreateWithUniqueAmount_def dest!: create_attempts_Inr split: if_splits)
  obtain off where a: "a = new_order (new_uuid g j) u (to_lower ch) b off req (clock e (InsertOrder j)) (s_expiry s)"
    using build_order_new [OF j] by blast
  obtain r where "stored_row a = Some r" "d1 = d\<lparr>orders := orders d @ [r]\<rparr>"
    using ins by (rule insert_order_Inr) blast
  with d' show ?thesis by (intro that [of r off]) (simp_all add: a new_order_def)
qed

lemma api_CreateOrder_201:
  assumes "api_CreateOrder lib cd e g h req s = (Inr resp, s')" "rs_payload resp = OrderJson x"
  obtains q b a where
    "decodeJSON (decode_create cd) req = Some q" "dec_parse lib (cr_base_amount_usd q) = Some b"
    "CreateOrder lib e g (h_orders h) (h_chainMgr h) (cr_user_id q) b (cr_chain q) (st_db s) = (Inr a, st_db s')"
    "x = toOrderResponse lib cd h a"
  using assms
  by (auto simp: api_CreateOrder_def writeJSON_def writeError_def split: option.splits prod.splits sum.splits if_splits)

text \<open>
  C32. The order a successful POST answers with can be read at once under the identifier of
  the answer, by anyone. The answer of the GET is the answer of the POST in every field but
  the two amounts, which the POST prints as requested (the base amount, and the base amount plus the
  offset) and the GET as the columns NUMERIC(20,8) round them; when the requested amount has at
  most eight decimal places the two answers are identical.
\<close>

theorem created_order_is_served:
  assumes "api_CreateOrder lib cd e g h req s = (Inr resp, s')" "rs_payload resp = OrderJson x"
    and "db_ok (st_db s')" "outcome_of e' SelectOrder = Runs" "\<forall>i. parse_uuid cd (uuid_string cd i) = Some i"
  shows "\<exists>q b off. decodeJSON (decode_create cd) req = Some q \<and> dec_parse lib (cr_base_amount_usd q) = Some b \<and>
    or_base_amount_usd x = dec_string lib b \<and> or_expected_amount x = dec_string lib (b + of_int off / 10 ^ 4) \<and>
    api_GetOrder lib cd e' h (or_order_id x) req' s' =
      (Inr (writeJSON 200 (OrderJson
         (x\<lparr>or_base_amount_usd := dec_string lib (round_half 8 b),
            or_expected_amount := dec_string lib (round_half 8 (b + of_int off / 10 ^ 4))\<rparr>))), s') \<and>
    (has_places 8 b \<longrightarrow>
       api_GetOrder lib cd e' h (or_order_id x) req' s' = (Inr (writeJSON 200 (OrderJson x)), s'))"
proof -
  obtain q b a where q: "decodeJSON (decode_create cd) req = Some q" "dec_parse lib (cr_base_amount_usd q) = Some b"
    and c: "CreateOrder lib e g (h_orders h) (h_chainMgr h) (cr_user_id q) b (cr_chain q) (st_db s) = (Inr a, st_db s')"
    and x: "x = toOrderResponse lib cd h a" using assms(1,2) by (rule api_CreateOrder_201)
  obtain r off where r: "orders (st_db s') = orders (st_db s) @ [r]" "stored_row a = Some r"
    and a: "o_base a = b" "o_expected a = b + of_int off / 10 ^ 4"
    using c by (rule CreateOrder_row)
  let ?y = "x\<lparr>or_base_amount_usd := dec_string lib (round_half 8 b),
      or_expected_amount := dec_string lib (round_half 8 (b + of_int off / 10 ^ 4))\<rparr>"
  have ra: "r = a\<lparr>o_base := round_half 8 (o_base a), o_expected := round_half 8 (o_expected a)\<rparr>"
    using r(2) by (auto simp: stored_row_def dest!: numeric20_8_SomeD split: option.splits)
  have "filter (\<lambda>b. o_id b = o_id r) (orders (st_db s')) = [r]"
    by (rule filter_id_unique [OF db_okD(1) [OF assms(3)]]) (simp add: r(1))
  then have g: "GetOrder e' (o_id a) (st_db s') = (Inr r, st_db s')"
    using assms(4) by (simp add: GetOrder_def ra)
  have "toOrderResponse lib cd h r = ?y" by (simp add: x toOrderResponse_def ra a)
  then have get: "api_GetOrder lib cd e' h (or_order_id x) req' s' = (Inr (writeJSON 200 (OrderJson ?y)), s')"
    using assms(5) by (simp add: api_GetOrder_def x toOrderResponse_def g)
  have same: "?y = x" if "has_places 8 b"
  proof -
    have "has_places 8 (of_int off / 10 ^ 4 :: amount)"
      using has_places_int_div [of 8 "off * 10 ^ 4"] by (simp add: field_simps)
    with that have "round_half 8 b = b" "round_half 8 (b + of_int off / 10 ^ 4) = b + of_int off / 10 ^ 4"
      by (simp_all add: round_half_column has_places_add)
    then show ?thesis by (simp add: x toOrderResponse_def a)
  qed
  from q get same show ?thesis
    by (intro exI [of _ q] exI [of _ b] exI [of _ off]) (simp add: x toOrderResponse_def a)
qed

definition five_api :: decimal_lib where
  "five_api = reference_decimal\<lparr>dec_parse := (\<lambda>_. Some 5)\<rparr>"

lemma create_C_five:
  "\<exists>d'. CreateOrder five_api (calm 5) counting_entropy default_service tron_only ''carol'' 5 ''TRON'' two_pending =
     (Inr created_C, d') \<and> db_ok d'"
proof -
  have ds: "dec_string five_api = dec_string reference_decimal" by (simp add: five_api_def)
  have same: "CreateOrder five_api = CreateOrder reference_decimal"
    unfolding fun_eq_iff CreateOrder_def ds by simp
  obtain d' where c: "CreateOrder reference_decimal (calm 5) counting_entropy default_service tron_only ''carol'' 5 ''TRON'' two_pending =
     (Inr created_C, d')" using create_C by blast
  have "db_ok d'"
    using db_steps_ok [OF CreateOrder_steps db_ok_two_pending, of reference_decimal "calm 5" counting_entropy default_service
        tron_only "''carol''" 5 "''TRON''"] by (simp add: c)
  with c show ?thesis by (simp add: same)
qed

text \<open>The request is for 5 dollars: what is read is what was answered.\<close>

theorem created_order_is_served_witness:
  "\<exists>s' x. api_CreateOrder five_api (ap_codec sample_api) (calm 5) counting_entropy (ap_handlers sample_api)
       (post_request ''k'') \<lparr>st_redis = (\<lambda>_. 0) :: string \<Rightarrow> int, st_db = two_pending, st_log = []\<rparr> = (Inr (writeJSON 201 (OrderJson x)), s') \<and>
     api_GetOrder five_api (ap_codec sample_api) (calm 6) (ap_handlers sample_api) (or_order_id x) (post_request []) s' =
       (Inr (writeJSON 200 (OrderJson x)), s')"
proof -
  obtain d' where c: "CreateOrder five_api (calm 5) counting_entropy default_service tron_only ''carol'' 5 ''TRON'' two_pending =
     (Inr created_C, d')" and ok: "db_ok d'" using create_C_five by blast
  let ?s' = "\<lparr>st_redis = (\<lambda>_. 0) :: string \<Rightarrow> int, st_db = d', st_log = []\<rparr>"
  let ?x = "toOrderResponse five_api (ap_codec sample_api) (ap_handlers sample_api) created_C"
  have p: "api_CreateOrder five_api (ap_codec sample_api) (calm 5) counting_entropy (ap_handlers sample_api)
       (post_request ''k'') \<lparr>st_redis = (\<lambda>_. 0) :: string \<Rightarrow> int, st_db = two_pending, st_log = []\<rparr> = (Inr (writeJSON 201 (OrderJson ?x)), ?s')"
    using c by (simp add: api_CreateOrder_def sample_api_def NewHandlers_def decodeJSON_def) (simp add: five_api_def)
  have "\<forall>i. parse_uuid (ap_codec sample_api) (uuid_string (ap_codec sample_api) i) = Some i"
    by (simp add: sample_api_def read_print_nat)
  moreover have "dec_parse five_api z = Some b \<longrightarrow> b = 5" "has_places 8 (5 :: amount)" for z b
    using has_places_int_div [of 8 500000000] by (auto simp: five_api_def)
  ultimately have "api_GetOrder five_api (ap_codec sample_api) (calm 6) (ap_handlers sample_api) (or_order_id ?x) (post_request []) ?s' =
      (Inr (writeJSON 200 (OrderJson ?x)), ?s')"
    using created_order_is_served [OF p, of ?x "calm 6" "post_request []"] ok by (auto simp: writeJSON_def)
  with p show ?thesis by blast
qed

subsection \<open>Failures of the database\<close>

text \<open>
  When the database is down, POST /v1/orders answers 400, the status of a bad request,
  with the text of the internal error, for a request that is in order.
\<close>

lemma outage_is_bad_request:
  assumes "decode_create cd (take maxBodyBytes (rq_body req)) = Some q" "dec_parse lib (cr_base_amount_usd q) = Some b"
    and "cr_user_id q \<noteq> []" "1 / 100 \<le> b" "b \<le> 10 ^ 6" "cr_chain q \<noteq> []"
    and "mgr_RequiredConfirmations (h_chainMgr h) (to_lower (cr_chain q)) = (n, True)"
    and "s_offset_min (h_orders h) \<le> s_offset_max (h_orders h)" "0 < s_max_retries (h_orders h)"
    and "draw_offset g (s_offset_min (h_orders h)) (s_offset_max (h_orders h)) 0 = Inr off"
    and "outcome_of e (InsertOrder 0) = NotRun m"
  shows "api_CreateOrder lib cd e g h req s =
    (Inr (writeError 400 (ErrorOf (Wrap ''insert order'' (ConnError m)))), s)"
proof -
  obtain k where k: "nat (s_max_retries (h_orders h)) = Suc k" using assms(9) gr0_implies_Suc by fastforce
  have "CreateOrder lib e g (h_orders h) (h_chainMgr h) (cr_user_id q) b (cr_chain q) (st_db s) =
      (Inl (Wrap ''insert order'' (ConnError m)), st_db s)"
    using assms by (simp add: CreateOrder_def minOrderUSD_def maxOrderUSD_def Let_def CreateWithUniqueAmount_def k
        build_order_def exec_def isUniqueViolation_def)
  then show ?thesis using assms(1,2)
    by (simp add: api_CreateOrder_def decodeJSON_def is_panic_def)
qed

end
