(* ===== verification/Migrations.thy ===== *)
theory Migrations
  imports Prelude
begin

text \<open>
  The migration files of \<open>migrations/\<close> as scripts over the catalogue of a database: its tables,
  its named indexes, its foreign keys and its extensions, among whatever else the database
  holds. The columns, checks and unique indexes of the tables are in \<open>Schema\<close>. The
  indexes behind primary keys and the sequence of the BIGSERIAL column go with their table and
  are left out. The extension is taken to be installable.
\<close>

record catalogue =
  tables :: "string list"
  indexes :: "(string \<times> string) list"
  foreign_keys :: "(string \<times> string) list"
  extensions :: "string list"

datatype ddl =
    CreateExtension string
  | CreateTable string "string list"
  | CreateIndex string string
  | DropTable string

text \<open>Tables and indexes share their names.\<close>

definition relation_exists :: "string \<Rightarrow> catalogue \<Rightarrow> bool" where
  "relation_exists name C \<longleftrightarrow> name \<in> set (tables C) \<or> name \<in> fst ` set (indexes C)"

text \<open>
  The statements of the files: \<open>CREATE EXTENSION IF NOT EXISTS\<close>, \<open>CREATE TABLE\<close> with the tables
  it references, \<open>CREATE INDEX\<close> and \<open>DROP TABLE IF EXISTS\<close>, which does not drop a table that
  another one references.
\<close>

fun run_ddl :: "ddl \<Rightarrow> catalogue \<Rightarrow> catalogue res" where
  "run_ddl (CreateExtension e) C =
     Inr (if e \<in> set (extensions C) then C else C\<lparr>extensions := extensions C @ [e]\<rparr>)"
| "run_ddl (CreateTable t refs) C =
     (if relation_exists t C then Inl (PgError ''42P07'')
      else if \<not> set refs \<subseteq> insert t (set (tables C)) then Inl (PgError ''42P01'')
      else Inr (C\<lparr>tables := tables C @ [t], foreign_keys := foreign_keys C @ map (\<lambda>u. (t, u)) refs\<rparr>))"
| "run_ddl (CreateIndex i t) C =
     (if t \<notin> set (tables C) then Inl (PgError ''42P01'')
      else if relation_exists i C then Inl (PgError ''42P07'')
      else Inr (C\<lparr>indexes := indexes C @ [(i, t)]\<rparr>))"
| "run_ddl (DropTable t) C =
     (if t \<notin> set (tables C) then Inr C
      else if \<exists>(a, b)\<in>set (foreign_keys C). b = t \<and> a \<noteq> t then Inl (PgError ''2BP01'')
      else Inr (C\<lparr>tables := filter (\<lambda>u. u \<noteq> t) (tables C),
                  indexes := filter (\<lambda>(i, u). u \<noteq> t) (indexes C),
                  foreign_keys := filter (\<lambda>(a, b). a \<noteq> t) (foreign_keys C)\<rparr>))"

fun run_ddls :: "ddl list \<Rightarrow> catalogue \<Rightarrow> catalogue res" where
  "run_ddls [] C = Inr C"
| "run_ddls (c # cs) C = (case run_ddl c C of Inl err \<Rightarrow> Inl err | Inr C1 \<Rightarrow> run_ddls cs C1)"

text \<open>A file is sent as one query, which the server runs as one transaction.\<close>

definition run_script :: "ddl list \<Rightarrow> catalogue \<Rightarrow> goerr option \<times> catalogue" where
  "run_script cs C = (case run_ddls cs C of Inl err \<Rightarrow> (Some err, C) | Inr C1 \<Rightarrow> (None, C1))"

definition up_script :: "ddl list" where
  "up_script =
     [CreateExtension ''pgcrypto'',
      CreateTable ''orders'' [],
      CreateIndex ''idx_orders_user'' ''orders'',
      CreateIndex ''idx_orders_chain_pending_amount'' ''orders'',
      CreateIndex ''idx_orders_chain_txhash'' ''orders'',
      CreateTable ''chain_cursors'' [],
      CreateTable ''audit_log'' [''orders''],
      CreateIndex ''idx_audit_log_order'' ''audit_log'',
      CreateIndex ''idx_audit_log_tx'' ''audit_log'',
      CreateTable ''review_items'' [''orders''],
      CreateIndex ''idx_review_items_chain_tx'' ''review_items'',
      CreateIndex ''idx_review_items_open'' ''review_items'']"

definition down_script :: "ddl list" where
  "down_script = [DropTable ''review_items'', DropTable ''audit_log'', DropTable ''chain_cursors'', DropTable ''orders'']"

text \<open>The tables of the program and its indexes.\<close>

definition own_tables :: "string list" where
  "own_tables = [''orders'', ''chain_cursors'', ''audit_log'', ''review_items'']"

definition own_indexes :: "(string \<times> string) list" where
  "own_indexes =
     [(''idx_orders_user'', ''orders''), (''idx_orders_chain_pending_amount'', ''orders''), (''idx_orders_chain_txhash'', ''orders''),
      (''idx_audit_log_order'', ''audit_log''), (''idx_audit_log_tx'', ''audit_log''),
      (''idx_review_items_chain_tx'', ''review_items''), (''idx_review_items_open'', ''review_items'')]"

text \<open>A catalogue where every index and every foreign key belongs to tables that exist.\<close>

definition catalogue_ok :: "catalogue \<Rightarrow> bool" where
  "catalogue_ok C \<longleftrightarrow> (\<forall>(i, t)\<in>set (indexes C). t \<in> set (tables C)) \<and>
     (\<forall>(a, b)\<in>set (foreign_keys C). a \<in> set (tables C) \<and> b \<in> set (tables C))"

text \<open>None of the names of the program is taken.\<close>

definition names_free :: "catalogue \<Rightarrow> bool" where
  "names_free C \<longleftrightarrow> (\<forall>n\<in>set own_tables \<union> fst ` set own_indexes. \<not> relation_exists n C)"

lemma run_ddl_ok: "catalogue_ok C \<Longrightarrow> run_ddl c C = Inr C1 \<Longrightarrow> catalogue_ok C1"
proof (induction c)
  case (DropTable t)
  then show ?case by (fastforce simp: catalogue_ok_def split: if_splits)
qed (fastforce simp: catalogue_ok_def split: if_splits)+

lemma run_ddls_ok: "catalogue_ok C \<Longrightarrow> run_ddls cs C = Inr C1 \<Longrightarrow> catalogue_ok C1"
  by (induction cs arbitrary: C) (auto split: sum.splits intro: run_ddl_ok)

lemma run_script_ok: "catalogue_ok C \<Longrightarrow> catalogue_ok (snd (run_script cs C))"
  by (auto simp: run_script_def split: sum.splits intro: run_ddls_ok)

definition migrated :: "catalogue \<Rightarrow> catalogue" where
  "migrated C = C\<lparr>tables := tables C @ own_tables, indexes := indexes C @ own_indexes,
     foreign_keys := foreign_keys C @ [(''audit_log'', ''orders''), (''review_items'', ''orders'')],
     extensions := (if ''pgcrypto'' \<in> set (extensions C) then extensions C else extensions C @ [''pgcrypto''])\<rparr>"

lemma up_migrates: "names_free C \<Longrightarrow> run_script up_script C = (None, migrated C)"
  by (cases C) (simp add: run_script_def up_script_def names_free_def own_tables_def own_indexes_def relation_exists_def migrated_def)

text \<open>Dropping a table that nothing else references.\<close>

lemma drop_unreferenced:
  assumes "t \<in> set (tables C)" "\<forall>(a, b)\<in>set (foreign_keys C). b \<noteq> t"
  shows "run_ddls (DropTable t # cs) C = run_ddls cs (C\<lparr>tables := filter (\<lambda>u. u \<noteq> t) (tables C),
    indexes := filter (\<lambda>(i, u). u \<noteq> t) (indexes C), foreign_keys := filter (\<lambda>(a, b). a \<noteq> t) (foreign_keys C)\<rparr>)"
  using assms by auto

lemma down_restores:
  assumes "catalogue_ok C" "names_free C"
  shows "run_script down_script (migrated C) = (None, C\<lparr>extensions := extensions (migrated C)\<rparr>)"
proof -
  have t: "n \<notin> set (tables C)" if "n \<in> set own_tables" for n
    using assms(2) that by (auto simp: names_free_def relation_exists_def)
  have i: "(i, n) \<notin> set (indexes C)" "(n, b) \<notin> set (foreign_keys C)" "(b, n) \<notin> set (foreign_keys C)"
    if "n \<in> set own_tables" for n i b
    using assms(1) t [OF that] by (force simp: catalogue_ok_def)+
  have keep: "filter (\<lambda>u. u \<noteq> n) (tables C) = tables C" "filter (\<lambda>(i, u). u \<noteq> n) (indexes C) = indexes C"
    "filter (\<lambda>(a, b). a \<noteq> n) (foreign_keys C) = foreign_keys C" "\<forall>(a, b)\<in>set (foreign_keys C). b \<noteq> n"
    if "n \<in> set own_tables" for n
    using t i that by (auto intro!: filter_True)
  have own: "n \<in> set own_tables \<longleftrightarrow> n = ''orders'' \<or> n = ''chain_cursors'' \<or> n = ''audit_log'' \<or> n = ''review_items''" for n
    by (simp add: own_tables_def)
  note keep' = keep [unfolded own, OF disjI1, OF refl] keep [unfolded own, OF disjI2, OF disjI1, OF refl]
    keep [unfolded own, OF disjI2, OF disjI2, OF disjI1, OF refl] keep [unfolded own, OF disjI2, OF disjI2, OF disjI2, OF refl]
  have "run_ddls down_script (migrated C) = Inr (C\<lparr>extensions := extensions (migrated C)\<rparr>)"
    unfolding down_script_def migrated_def own_tables_def own_indexes_def
    by (simp del: run_ddls.simps add: drop_unreferenced keep' run_ddls.simps(1))
  then show ?thesis by (simp add: run_script_def)
qed

text \<open>
  C34. In a database that holds whatever else, with none of the program's names taken, the up
  migration adds exactly its tables, indexes and references; run again it is refused and
  changes nothing; the down migration, which drops the referencing tables first, removes all
  of it and nothing else, the extension apart; and then the up migration can be run again.
\<close>

theorem migrations_round_trip:
  assumes "catalogue_ok C" "names_free C"
  shows "run_script up_script C = (None, migrated C) \<and> catalogue_ok (migrated C) \<and>
    run_script up_script (migrated C) = (Some (PgError ''42P07''), migrated C) \<and>
    run_script down_script (migrated C) = (None, C\<lparr>extensions := extensions (migrated C)\<rparr>) \<and>
    run_script up_script (snd (run_script down_script (migrated C))) = (None, migrated C)"
proof (intro conjI)
  show up: "run_script up_script C = (None, migrated C)" by (rule up_migrates [OF assms(2)])
  show "catalogue_ok (migrated C)" using run_script_ok [OF assms(1), of up_script] by (simp add: up)
  show "run_script up_script (migrated C) = (Some (PgError ''42P07''), migrated C)"
    by (simp add: run_script_def up_script_def migrated_def relation_exists_def own_tables_def)
  show down: "run_script down_script (migrated C) = (None, C\<lparr>extensions := extensions (migrated C)\<rparr>)"
    by (rule down_restores [OF assms])
  have "names_free (C\<lparr>extensions := es\<rparr>)" for es
    using assms(2) by (simp add: names_free_def relation_exists_def)
  moreover have "migrated (C\<lparr>extensions := extensions (migrated C)\<rparr>) = migrated C" by (simp add: migrated_def)
  ultimately show "run_script up_script (snd (run_script down_script (migrated C))) = (None, migrated C)"
    by (simp add: down up_migrates)
qed

definition shared_catalogue :: catalogue where
  "shared_catalogue = \<lparr>tables = [''users''], indexes = [(''idx_users'', ''users'')], foreign_keys = [(''users'', ''users'')], extensions = []\<rparr>"

theorem migrations_round_trip_witness:
  "run_script down_script (snd (run_script up_script shared_catalogue)) =
     (None, shared_catalogue\<lparr>extensions := [''pgcrypto'']\<rparr>)"
proof -
  have "catalogue_ok shared_catalogue" "names_free shared_catalogue"
    by (simp_all add: catalogue_ok_def names_free_def shared_catalogue_def relation_exists_def own_tables_def own_indexes_def)
  from migrations_round_trip [OF this] show ?thesis by (simp add: migrated_def shared_catalogue_def)
qed

end
