(* ===== verification/Spec2Isabelle.thy ===== *)
theory Spec2Isabelle
  imports OrderProperties CreationProperties WatcherProperties LossProperties ScanProperties
    SettlementProperties PagingProperties RunProperties SystemProperties RestartProperties Process RefinementProperties ApiProperties Migrations
begin

text \<open>
  Frenix Pay: a payment service in Go. Each enabled chain (TRON, TON, Polygon, BSC) has one
  fixed address; an order asks for an amount that no other pending order of its chain asks
  for, and an incoming USDT transfer is attributed to an order by its amount.

  How the parts interact. A chain watcher polls its chain, keeps the transfers it saw in an
  in-flight set, and reports each of them to the orders service on every poll until it has
  the confirmations required (\<open>TransferSink.OnTransfer\<close>). The service resolves a report by
  SQL statements on Postgres, audits it, and puts what it cannot attribute into the review
  queue. The HTTP API creates orders and shows them; an expiry loop expires unpaid ones;
  the manager hands the watchers the confirming orders of the database at the start. Redis
  only limits request rates.

  \<^bold>\<open>Theories and code\<close>

  \<^item> \<open>Prelude\<close>: errors as values (\<open>goerr\<close>, \<open>'a res\<close>), \<open>int64\<close> and \<open>int32\<close>, lists of rows, the
    collections \<open>row_simps\<close>, \<open>inv_intros\<close>, \<open>evolve_intros\<close>. \<open>Money\<close>: decimals as rationals,
    NUMERIC(20,8), the locale \<open>decimal_library\<close>. \<open>Strconv\<close>: \<open>strconv\<close>, \<open>strings\<close>,
    \<open>url.Values.Encode\<close>.
  \<^item> \<open>Schema\<close>: the tables of \<open>migrations/000001_init_schema.up.sql\<close> with \<open>models.go\<close>, the unique
    indexes, and how a statement reaches the server (\<open>exec\<close>). \<open>Ledger\<close>: the invariant \<open>db_ok\<close>,
    the order of the statuses, what may happen to rows (\<open>db_evolves\<close>).
  \<^item> \<open>Repository\<close>, \<open>RepositoryFacts\<close>: \<open>internal/orders/repository.go\<close>, \<open>review.go\<close>,
    \<open>internal/audit/log.go\<close>. \<open>CursorStore\<close>: \<open>internal/db/cursor_store.go\<close>,
    \<open>internal/chains/cursor.go\<close>.
  \<^item> \<open>Chains\<close>: \<open>internal/chains/watcher.go\<close> and \<open>manager.go\<close>, the locale \<open>chain_watcher\<close>.
    \<open>Service\<close>, \<open>ServiceFacts\<close>, \<open>Creation\<close>: \<open>internal/orders/service.go\<close>.
  \<^item> \<open>Steps\<close>: the statements of the program as one step relation (\<open>db_step\<close>), the reachable
    databases. \<open>Matching\<close>: the specification \<open>transfer_spec\<close> of docs.md on the abstract ledger
    and the proof that \<open>OnTransfer\<close> refines it. \<open>Samples\<close>, \<open>EvmSamples\<close>: concrete data.
  \<^item> \<open>Clients\<close>: the \<open>client.go\<close> of the three watcher packages. \<open>Tracking\<close>: what the watchers
    share (in-flight sets, reporting, the locale \<open>transfer_sink\<close>). \<open>Evm\<close>, \<open>EvmFacts\<close>:
    \<open>internal/chains/evm\<close>. \<open>Tron\<close>: \<open>internal/chains/tron\<close>. \<open>Ton\<close>: \<open>internal/chains/ton\<close>.
  \<^item> \<open>World\<close>: a watcher on the real service and database, with interference.
  \<^item> \<open>Config\<close>: \<open>internal/config/config.go\<close>. \<open>RateLimit\<close>: \<open>internal/ratelimit/redis.go\<close>.
    \<open>Api\<close>: \<open>internal/api\<close>. \<open>Wiring\<close>, \<open>Boot\<close>: \<open>cmd/frenixpay/main.go\<close>, \<open>internal/db/postgres.go\<close>,
    \<open>internal/db/redis.go\<close>. \<open>Process\<close>: the running process as a step relation (requests, polls,
    expiry passes, by goroutine). \<open>Shutdown\<close>: the goroutines of \<open>main\<close> as threads with
    program counters (the \<open>select\<close> loops of the watchers and of the expiry job, \<open>Manager.Run\<close>,
    the listener, \<open>main\<close> itself) and the wait groups they decrement, from their launch to the
    return of \<open>main\<close>.
  \<^item> \<open>Columns\<close>: the column types of the migration, kept by every statement. \<open>Simulation\<close>: the locales
    \<open>machine\<close>, \<open>simulation\<close> and \<open>simulation_invariant\<close> (forward simulation). \<open>Book\<close>: the
    abstract specification of the whole program, a book of deals that goes through phases;
    \<open>BookRefinement\<close>: the database as a book, and every statement as a run of it.
  \<^item> \<open>Settling\<close>: what the reports of one watcher do to the orders over time, in a world where nothing
    else moves its cursor. \<open>Runs\<close>: the locale \<open>follower\<close>, what a watcher owes over any number of
    polls. \<open>EvmRun\<close>, \<open>PagingRuns\<close>: the three watchers as followers of a history.
  \<^item> \<open>Migrations\<close>: the files of \<open>migrations/\<close> as scripts over the catalogue of a database.
  \<^item> \<open>OrderProperties\<close>, \<open>CreationProperties\<close>, \<open>WatcherProperties\<close>, \<open>InFlightProperties\<close>, \<open>ScanProperties\<close>,
    \<open>PagingProperties\<close>, \<open>RunProperties\<close>, \<open>LossProperties\<close>, \<open>SettlementProperties\<close>, \<open>SystemProperties\<close>,
    \<open>RestartProperties\<close>, \<open>RefinementProperties\<close>, \<open>ApiProperties\<close>: the properties.

  \<^bold>\<open>How the code is modelled\<close>

  \<^item> A Go function is a HOL function of the state it changes; an error is \<open>Inl\<close>, a panic the
    error \<open>Panic\<close>. A table is the list of its rows in scan order, and \<open>db_step\<close> may reorder
    it between statements, because Postgres promises no order.
  \<^item> Each SQL statement is one atomic function, run by \<open>exec\<close> under an environment that
    decides whether it runs, fails before the server executes it, or runs while its reply
    is lost, that gives its clock, and that says which rows \<open>SKIP LOCKED\<close> passes over.
    Concurrency of goroutines and processes is the interleaving of these statements.
  \<^item> Amounts are rationals: \<open>shopspring/decimal\<close> is exact but for division and parsing, which
    are fields of \<open>decimal_lib\<close>. Columns round and check (NUMERIC(20,8), INTEGER, the CHECKs),
    so an amount that does not fit is a failed statement.
  \<^item> Times and durations are integers in nanoseconds. \<open>int64\<close> arithmetic wraps (\<open>i64\<close>); the
    theorems that compute with heights or timestamps state the bound they need (mostly
    \<open>2 ^ 62\<close>, far beyond real values).
  \<^item> A poll takes its network, its JSON decoder, its times and the order of Go's map ranges
    as arguments. The two page loops run with the code's own limit of 20 pages as fuel; the
    retry loops recurse over the URLs and two attempts each; the EVM batch loop, which can
    run forever for a silly batch size, is \<open>partial_function (option)\<close>, and it is proved to
    end for the batch sizes the watcher uses.
  \<^item> A map of the code is a function to options; maps that Go ranges over come with a list
    of keys in any order (\<open>range_order\<close>).

  \<^bold>\<open>Parameters.\<close> JSON, base58 and SHA-256, UUIDs, \<open>time.ParseDuration\<close>, \<open>time.Format\<close>,
  chi's \<open>RealIP\<close>, Redis, the migration tool, the Postgres driver, the network. What the code
  relies on is stated as a locale (\<open>decimal_library\<close>, \<open>counter_store\<close>, \<open>entropy_source\<close>) or
  a named hypothesis, and every locale is interpreted: the interfaces of the program
  (\<open>chain_watcher\<close>, \<open>cursor_store\<close>, \<open>transfer_sink\<close>) on the program's own watchers, store and
  service, \<open>follower\<close> on the polls of its three watchers, and \<open>simulation\<close> on its statements, its
  running process and its deployments.

  \<^bold>\<open>What the properties show\<close>

  \<^item> Orders and matching: the invariant under every interleaving and every failure, the types of
    what is stored, one order per transaction, the lifecycle, the refinement of the documented
    five steps, no transfer dropped while the database answers, repeated delivery, the
    underpayment search, audit and expiry, creation with its retries.
  \<^item> Watchers: a scan covers every block and finds every log, what the page loops of TRON and
    TON handle and where the next scan begins, a failed request keeps the cursor, on each
    chain a payment becomes a confirmed order in one poll, and over a whole run of polls, any
    of whose requests may fail, every transfer of the chain's history is accounted for and,
    once deep enough, settled; clients fall back in order and stop.
  \<^item> The process: an invariant over every interleaving of requests, polls and expiry passes,
    every history of a deployment with its starts, stops and crashes as a run of the book of
    deals, \<open>main\<close> terminates after a signal (some thread can always move, a rank bounds the
    moves, and it returns after all its goroutines), a running process serves its configuration,
    a restart reseeds exactly the confirming orders, the migrations undo each other, only the
    key writes, an order can be read after its creation.
  \<^item> The last group proves behaviours that differ from what the documentation says: a payment
    of one order's exact amount can go to another order, and the ways in which a transfer is
    lost (its review item cannot be written, the database is down at its last report, the
    process stops between the scan that found it and its report) or a limit is evaded.

  \<^bold>\<open>Not modelled.\<close> How the runtime turns a signal into a cancelled context; the log lines of \<open>slog\<close> other than the
  request log; the length of the waits between attempts; the panic of \<open>time.NewTicker\<close> for an interval that
  is not positive (intervals are taken to be positive); the microseconds to which the
  TIMESTAMPTZ columns cut a time (times are kept exact, answers print whole seconds); header
  lines that were set before a panic; HTTP header lines other than those
  named; what a whole run of polls gives while the database is down (single polls are
  treated under every failure of it, whole runs under every failure of requests); the
  deployment files (Makefile, docker-compose); the Go tests.
\<close>

end
